(* ===== verification/Prelude.thy ===== *)
theory Prelude
  imports Main "HOL-Library.Word" "HOL-Library.Monad_Syntax"
begin

text \<open>
  Shared vocabulary of the development: the machine types of the 64-bit build, byte buffers and the
  typed loads the sources make from them, decimal and hexadecimal printing, the walk along a chain
  of pointers, and the lemma collections the component theories draw on.

  A definition of type \<open>'a option\<close> whose source returns a plain value uses \<^term>\<open>None\<close> for the
  runs that give their caller no value: crash's error(FATAL) and FAULT\_ON\_ERROR reads jump back to
  the prompt, an access outside a buffer or through a null pointer is undefined behaviour, and an
  endless loop never comes back. A theorem that the result is \<^term>\<open>Some x\<close> excludes all three.
\<close>

unbundle bit_operations_syntax

named_theorems load_simps \<open>typed loads from byte buffers\<close>
named_theorems text_simps \<open>string and number formatting\<close>
named_theorems walk_simps \<open>walks along kernel data structures\<close>

section \<open>Machine types\<close>

type_synonym byte = "8 word"
type_synonym ushort = "16 word"
type_synonym uint = "32 word"
type_synonym ulong = "64 word"

text \<open>A C \<^verbatim>\<open>int\<close> is an \<^typ>\<open>int\<close>; adding it to an address converts it to the address type.\<close>

abbreviation off :: "int \<Rightarrow> ulong" where
  "off i \<equiv> word_of_int i"

lemma unat_less_power: "unat (w :: 'a::len word) < 2 ^ LENGTH('a)"
  by (fact unsigned_less)

lemma word_eq_of_nat: "unat (w :: 'a::len word) = n \<Longrightarrow> w = of_nat n"
  by auto

lemma unat_of_nat_small: "n < 2 ^ LENGTH('a) \<Longrightarrow> unat (of_nat n :: 'a::len word) = n"
  by (simp add: unat_of_nat)

section \<open>Byte buffers\<close>

fun le_nat :: "byte list \<Rightarrow> nat" where
  "le_nat [] = 0"
| "le_nat (b # bs) = unat b + 256 * le_nat bs"

fun le_bytes :: "nat \<Rightarrow> nat \<Rightarrow> byte list" where
  "le_bytes 0 v = []"
| "le_bytes (Suc n) v = of_nat (v mod 256) # le_bytes n (v div 256)"

definition load :: "nat \<Rightarrow> byte list \<Rightarrow> int \<Rightarrow> byte list option" where
  "load n buf o' = (if 0 \<le> o' \<and> nat o' + n \<le> length buf then Some (take n (drop (nat o') buf)) else None)"

definition ULONG :: "byte list \<Rightarrow> int \<Rightarrow> ulong option" where
  "ULONG buf o' = map_option (\<lambda>bs. of_nat (le_nat bs)) (load 8 buf o')"

definition UINT :: "byte list \<Rightarrow> int \<Rightarrow> uint option" where
  "UINT buf o' = map_option (\<lambda>bs. of_nat (le_nat bs)) (load 4 buf o')"

definition C_INT :: "byte list \<Rightarrow> int \<Rightarrow> int option" where
  "C_INT buf o' = map_option (\<lambda>bs. sint (of_nat (le_nat bs) :: uint)) (load 4 buf o')"

definition USHORT :: "byte list \<Rightarrow> int \<Rightarrow> ushort option" where
  "USHORT buf o' = map_option (\<lambda>bs. of_nat (le_nat bs)) (load 2 buf o')"

definition UCHAR :: "byte list \<Rightarrow> int \<Rightarrow> byte option" where
  "UCHAR buf o' = map_option (\<lambda>bs. of_nat (le_nat bs)) (load 1 buf o')"

definition BOOL :: "byte list \<Rightarrow> int \<Rightarrow> bool option" where
  "BOOL buf o' = map_option (\<lambda>bs. le_nat bs \<noteq> 0) (load 1 buf o')"

lemmas loads = ULONG_def UINT_def C_INT_def USHORT_def UCHAR_def BOOL_def

lemma le_nat_append: "le_nat (xs @ ys) = le_nat xs + 256 ^ length xs * le_nat ys"
  by (induction xs) (auto simp: algebra_simps)

lemma le_nat_bound: "le_nat bs < 256 ^ length bs"
proof (induction bs)
  case Nil
  then show ?case by simp
next
  case (Cons b bs)
  have "unat b < 256" using unat_less_power [of b] by simp
  with Cons.IH show ?case by simp
qed

lemma length_le_bytes [simp, load_simps]: "length (le_bytes n v) = n"
  by (induction n arbitrary: v) auto

lemma le_nat_le_bytes: "le_nat (le_bytes n v) = v mod 256 ^ n"
proof (induction n arbitrary: v)
  case 0
  then show ?case by simp
next
  case (Suc n)
  have "unat (of_nat (v mod 256) :: byte) = v mod 256"
    by (simp add: unat_of_nat)
  with Suc.IH show ?case
    by (simp add: mod_mult2_eq)
qed

lemma le_nat_replicate_zero [simp]: "le_nat (replicate n 0) = 0"
  by (induction n) auto

lemma load_SomeD: "load n buf o' = Some bs \<Longrightarrow> length bs = n"
  by (auto simp: load_def split: if_splits)

lemma load_Some_iff:
  "(\<exists>bs. load n buf o' = Some bs) \<longleftrightarrow> 0 \<le> o' \<and> nat o' + n \<le> length buf"
  by (auto simp: load_def)

lemma ULONG_Some_iff: "(\<exists>v. ULONG buf o' = Some v) \<longleftrightarrow> 0 \<le> o' \<and> nat o' + 8 \<le> length buf"
  by (auto simp: ULONG_def load_def)

lemma ULONG_le_bytes [load_simps]: "ULONG (le_bytes 8 (unat v)) 0 = Some v"
proof -
  have "unat v < 256 ^ 8" using unat_less_power [of v] by simp
  then show ?thesis
    by (simp add: ULONG_def load_def le_nat_le_bytes)
qed

section \<open>Conversions to int\<close>

text \<open>A \<^verbatim>\<open>size_t\<close> or \<^verbatim>\<open>ulong\<close> cut to a C \<^verbatim>\<open>int\<close>.\<close>

definition to_int32 :: "ulong \<Rightarrow> int" where
  "to_int32 w = sint (ucast w :: uint)"

lemma sint_of_int_small:
  "- (2 ^ 31) \<le> x \<Longrightarrow> x < 2 ^ 31 \<Longrightarrow> sint (word_of_int x :: uint) = x"
  by (simp add: sint_sbintrunc' signed_take_bit_int_eq_self)

lemma to_int32_small: "unat w < 2 ^ 31 \<Longrightarrow> to_int32 w = int (unat w)"
proof -
  assume "unat w < 2 ^ 31"
  then have "int (unat w) < int (2 ^ 31)" by (simp only: of_nat_less_iff)
  then have "int (unat w) < 2 ^ 31" by (simp only: of_nat_power of_nat_numeral)
  moreover have "sint (ucast w :: uint) = signed_take_bit 31 (int (unat w))" by (simp add: signed_ucast_eq)
  moreover have "- (2 ^ 31) \<le> int (unat w)" by (rule order_trans [of _ 0]) (simp_all only: of_nat_0_le_iff, simp)
  ultimately show ?thesis unfolding to_int32_def by (simp only: signed_take_bit_int_eq_self)
qed

lemma to_int32_of_nat: "n < 2 ^ 31 \<Longrightarrow> to_int32 (of_nat n) = int n"
  using unat_of_nat_small [of n, where 'a = 64] by (simp add: to_int32_small)

section \<open>Strings\<close>

text \<open>A \<^verbatim>\<open>std::string\<close> is a \<^typ>\<open>string\<close>; the byte at an address is read as the character it codes.\<close>

definition chr :: "byte \<Rightarrow> char" where
  "chr b = char_of (unat b)"

definition ord :: "char \<Rightarrow> byte" where
  "ord c = of_nat (of_char c)"

lemma chr_ord [simp]: "chr (ord c) = c"
proof -
  have "(of_char c :: nat) < 256" by (rule nat_of_char_less_256)
  then show ?thesis by (simp add: chr_def ord_def unat_of_nat)
qed

lemma ord_chr [simp]: "ord (chr b) = b"
proof -
  have "unat b < 256" using unat_less_power [of b] by simp
  then show ?thesis by (simp add: chr_def ord_def)
qed


definition to_string :: "byte list \<Rightarrow> string" where
  "to_string bs = map chr bs"

definition to_bytes :: "string \<Rightarrow> byte list" where
  "to_bytes s = map ord s"

lemma to_string_to_bytes [simp]: "to_string (to_bytes s) = s"
  by (simp add: to_string_def to_bytes_def comp_def)

text \<open>The bytes of a C string up to its terminator, \<^verbatim>\<open>strnlen\<close> characters of them.\<close>

definition cstr :: "byte list \<Rightarrow> byte list" where
  "cstr bs = takeWhile (\<lambda>b. b \<noteq> 0) bs"

lemma cstr_append_nul [simp, text_simps]: "0 \<notin> set bs \<Longrightarrow> cstr (bs @ 0 # rest) = bs"
  by (auto simp: cstr_def takeWhile_append)

lemma cstr_no_nul [simp, text_simps]: "0 \<notin> set bs \<Longrightarrow> cstr bs = bs"
  by (auto simp: cstr_def takeWhile_eq_all_conv)

lemma length_cstr_le: "length (cstr bs) \<le> length bs"
  by (simp add: cstr_def length_takeWhile_le)

text \<open>\<^verbatim>\<open>std::string::find\<close> of a substring, as the test against \<^verbatim>\<open>npos\<close> the sources make.\<close>

fun contains :: "string \<Rightarrow> string \<Rightarrow> bool" where
  "contains [] p = (p = [])"
| "contains (c # s) p = (take (length p) (c # s) = p \<or> contains s p)"

lemma contains_iff: "contains s p \<longleftrightarrow> (\<exists>u v. s = u @ p @ v)"
proof (induction s)
  case Nil
  then show ?case by auto
next
  case (Cons c s)
  have "take (length p) (c # s) = p \<longleftrightarrow> (\<exists>v. c # s = p @ v)"
    by (metis append_eq_conv_conj)
  then show ?case
    using Cons.IH by (auto simp: Cons_eq_append_conv)
qed

section \<open>Numbers as text\<close>

definition digit :: "nat \<Rightarrow> char" where
  "digit d = (if d < 10 then char_of (48 + d) else char_of (87 + d))"

text \<open>The digits of a number in a base of at least two, most significant first, as
  \<^verbatim>\<open>operator<<\<close> and \<^verbatim>\<open>printf\<close> write them.\<close>

function digits :: "nat \<Rightarrow> nat \<Rightarrow> string" where
  "digits base n = (if base < 2 \<or> n < base then [digit n]
                    else digits base (n div base) @ [digit (n mod base)])"
  by pat_completeness auto
termination
  by (relation "measure (\<lambda>(base, n). n)") (auto intro!: div_less_dividend)

declare digits.simps [simp del]

lemma digits_nonempty [simp]: "digits base n \<noteq> []"
  by (subst digits.simps) simp

definition show_dec :: "nat \<Rightarrow> string" where
  "show_dec n = digits 10 n"

definition show_hex :: "nat \<Rightarrow> string" where
  "show_hex n = digits 16 n"

text \<open>The value of a digit string, the inverse reading.\<close>

definition digit_val :: "char \<Rightarrow> nat" where
  "digit_val c = (let v = (of_char c :: nat) in if v < 58 then v - 48 else v - 87)"

definition digits_val :: "nat \<Rightarrow> string \<Rightarrow> nat" where
  "digits_val base s = foldl (\<lambda>acc c. base * acc + digit_val c) 0 s"

lemma digit_val_digit [simp]: "d < 16 \<Longrightarrow> digit_val (digit d) = d"
  by (simp add: digit_val_def digit_def)

lemma digits_val_digits:
  assumes "2 \<le> base" "base \<le> 16"
  shows "digits_val base (digits base n) = n"
  using assms
proof (induction base n rule: digits.induct)
  case (1 base n)
  show ?case
  proof (cases "n < base")
    case True
    with 1 show ?thesis by (subst digits.simps) (simp add: digits_val_def)
  next
    case False
    with 1 have ih: "digits_val base (digits base (n div base)) = n div base" by simp
    have "n mod base < 16" using 1 mod_less_divisor [of base n] by linarith
    with False 1 ih show ?thesis
      by (subst digits.simps) (simp add: digits_val_def mult_div_mod_eq)
  qed
qed

section \<open>Loops that may fail\<close>

fun those_opt :: "'b option list \<Rightarrow> 'b list option" where
  "those_opt [] = Some []"
| "those_opt (x # xs) = do { y \<leftarrow> x; ys \<leftarrow> those_opt xs; Some (y # ys) }"

lemma those_opt_eq_Some: "those_opt xs = Some ys \<longleftrightarrow> xs = map Some ys"
  by (induction xs arbitrary: ys) (auto simp: bind_eq_Some_conv Cons_eq_map_conv)

fun fold_opt :: "('x \<Rightarrow> 's \<Rightarrow> 's option) \<Rightarrow> 'x list \<Rightarrow> 's \<Rightarrow> 's option" where
  "fold_opt f [] s = Some s"
| "fold_opt f (x # xs) s = do { s' \<leftarrow> f x s; fold_opt f xs s' }"

lemma fold_opt_invariant:
  assumes "\<And>x s s'. P s \<Longrightarrow> f x s = Some s' \<Longrightarrow> P s'" "P s" "fold_opt f xs s = Some s'"
  shows "P s'"
  using assms(2,3) by (induction xs arbitrary: s) (auto simp: bind_eq_Some_conv intro: assms(1))


lemma fold_opt_append: "fold_opt f (xs @ ys) s = fold_opt f xs s \<bind> fold_opt f ys"
proof (induction xs arbitrary: s)
  case (Cons x xs)
  then show ?case by (cases "f x s") simp_all
qed simp

section \<open>Walking a chain of pointers\<close>

text \<open>
  \<^verbatim>\<open>while (live(a)) { push_back(a); a = next(a); }\<close>, the loop with which the sources follow
  \<^verbatim>\<open>next\<close> fields until the pointer leaves the kernel address range. It never ends on a cyclic chain,
  so its result is an option.
\<close>

partial_function (option) chain_walk :: "('a \<Rightarrow> bool) \<Rightarrow> ('a \<Rightarrow> 'a) \<Rightarrow> 'a \<Rightarrow> 'a list option" where
  "chain_walk live nxt a =
     (if live a then do { rest \<leftarrow> chain_walk live nxt (nxt a); Some (a # rest) } else Some [])"

fun chain :: "('a \<Rightarrow> bool) \<Rightarrow> ('a \<Rightarrow> 'a) \<Rightarrow> 'a \<Rightarrow> 'a list \<Rightarrow> bool" where
  "chain live nxt a [] = (\<not> live a)"
| "chain live nxt a (x # xs) = (x = a \<and> live a \<and> chain live nxt (nxt a) xs)"

lemma chain_walk_dead [simp, walk_simps]: "\<not> live a \<Longrightarrow> chain_walk live nxt a = Some []"
  by (subst chain_walk.simps) simp

lemma chain_walk_of_chain: "chain live nxt a xs \<Longrightarrow> chain_walk live nxt a = Some xs"
proof (induction xs arbitrary: a)
  case Nil
  then show ?case by simp
next
  case (Cons x xs)
  then show ?case by (subst chain_walk.simps) auto
qed

lemma chain_of_chain_walk:
  assumes "chain_walk live nxt a = Some xs"
  shows "chain live nxt a xs"
proof (rule chain_walk.raw_induct [where P = "\<lambda>l n a xs. chain l n a xs", OF _ assms])
  fix cw :: "('a \<Rightarrow> bool) \<Rightarrow> ('a \<Rightarrow> 'a) \<Rightarrow> 'a \<Rightarrow> 'a list option" and l n a xs
  assume IH: "\<And>l n a xs. cw l n a = Some xs \<Longrightarrow> chain l n a xs"
    and eq: "(if l a then do { rest \<leftarrow> cw l n (n a); Some (a # rest) } else Some []) = Some xs"
  show "chain l n a xs"
    using eq IH by (auto split: if_splits simp: bind_eq_Some_conv)
qed

lemma chain_walk_eq_Some: "chain_walk live nxt a = Some xs \<longleftrightarrow> chain live nxt a xs"
  using chain_walk_of_chain chain_of_chain_walk by metis

lemma chain_funpow: "chain live nxt a xs \<Longrightarrow> xs = map (\<lambda>i. (nxt ^^ i) a) [0..<length xs]"
proof (induction xs arbitrary: a)
  case Nil
  then show ?case by simp
next
  case (Cons x xs)
  then have "xs = map (\<lambda>i. (nxt ^^ i) (nxt a)) [0..<length xs]" by simp
  then have "xs = map (\<lambda>i. (nxt ^^ Suc i) a) [0..<length xs]" by (simp add: funpow_swap1)
  then show ?case
    using Cons.prems by (simp add: upt_conv_Cons map_Suc_upt [symmetric] comp_def del: upt_Suc)
qed

lemma chain_stops:
  assumes "\<not> live ((nxt ^^ n) a)"
  shows "\<exists>xs. chain live nxt a xs"
  using assms
proof (induction n arbitrary: a)
  case 0
  then show ?case by (auto intro: exI [of _ "[]"])
next
  case (Suc n)
  then have "\<not> live ((nxt ^^ n) (nxt a))" by (simp add: funpow_swap1)
  then obtain xs where "chain live nxt (nxt a) xs" using Suc.IH by blast
  then show ?case by (cases "live a") (auto intro: exI [of _ "a # xs"] exI [of _ "[]"])
qed

lemma chain_end: "chain live nxt a xs \<Longrightarrow> \<not> live ((nxt ^^ length xs) a)"
  by (induction xs arbitrary: a) (auto simp: funpow_swap1)

text \<open>The walk returns exactly when the chain leaves the live range.\<close>

lemma chain_walk_returns_iff:
  "(\<exists>xs. chain_walk live nxt a = Some xs) \<longleftrightarrow> (\<exists>n. \<not> live ((nxt ^^ n) a))"
  using chain_stops chain_end by (metis chain_walk_eq_Some)

lemma chain_live: "chain live nxt a xs \<Longrightarrow> \<forall>x \<in> set xs. live x"
  by (induction xs arbitrary: a) auto

lemma chain_unique: "chain live nxt a xs \<Longrightarrow> chain live nxt a ys \<Longrightarrow> xs = ys"
proof (induction xs arbitrary: a ys)
  case Nil
  then show ?case by (cases ys) auto
next
  case (Cons x xs)
  then show ?case by (cases ys) auto
qed

lemma chain_suffix: "chain live nxt a (us @ x # vs) \<Longrightarrow> chain live nxt x (x # vs)"
  by (induction us arbitrary: a) auto

text \<open>A terminating walk never meets an address twice.\<close>

lemma chain_distinct: "chain live nxt a xs \<Longrightarrow> distinct xs"
proof (rule ccontr)
  assume c: "chain live nxt a xs" and nd: "\<not> distinct xs"
  obtain us vs ws y where xs: "xs = us @ [y] @ vs @ [y] @ ws"
    using not_distinct_decomp [OF nd] by blast
  have "chain live nxt y (y # vs @ [y] @ ws)"
    using c xs chain_suffix [of live nxt a us y "vs @ [y] @ ws"] by simp
  moreover have "chain live nxt y (y # ws)"
    using c xs chain_suffix [of live nxt a "us @ [y] @ vs" y ws] by simp
  ultimately have "y # vs @ [y] @ ws = y # ws" by (rule chain_unique)
  then have "length vs + Suc (length ws) = length ws" by (metis add_Suc_right append_Cons length_Cons length_append list.inject self_append_conv2)
  then show False by simp
qed

section \<open>Tables filled on demand\<close>

text \<open>
  Several parsers keep a vector of what they have parsed and look there first: \<open>memo_get\<close> searches the
  table by key, builds a missing entry and appends it. A build that yields a null pointer adds nothing.
\<close>

definition memo_get :: "('v \<Rightarrow> 'k) \<Rightarrow> ('k \<Rightarrow> 'v option option) \<Rightarrow> 'k \<Rightarrow> 'v list \<Rightarrow> ('v list \<times> 'v option) option" where
  "memo_get key build k tbl =
     (case List.find (\<lambda>v. key v = k) tbl of
        Some v \<Rightarrow> Some (tbl, Some v)
      | None \<Rightarrow> (case build k of
          None \<Rightarrow> None
        | Some None \<Rightarrow> Some (tbl, None)
        | Some (Some v) \<Rightarrow> Some (tbl @ [v], Some v)))"

definition coherent :: "('v \<Rightarrow> 'k) \<Rightarrow> ('k \<Rightarrow> 'v option option) \<Rightarrow> 'v list \<Rightarrow> bool" where
  "coherent key build tbl \<longleftrightarrow> (\<forall>v \<in> set tbl. build (key v) = Some (Some v))"

lemma find_snoc: "List.find P (xs @ [x]) = (case List.find P xs of Some y \<Rightarrow> Some y | None \<Rightarrow> if P x then Some x else None)"
  by (induction xs) auto

lemma coherent_Nil [simp]: "coherent key build []"
  by (simp add: coherent_def)

locale memo =
  fixes key :: "'v \<Rightarrow> 'k" and build :: "'k \<Rightarrow> 'v option option"
  assumes build_key: "build k = Some (Some v) \<Longrightarrow> key v = k"
begin

lemma get_is_build:
  assumes "coherent key build tbl"
  shows "map_option snd (memo_get key build k tbl) = build k"
proof (cases "List.find (\<lambda>v. key v = k) tbl")
  case (Some v)
  then have "v \<in> set tbl" "key v = k" by (auto simp: find_Some_iff)
  with assms Some show ?thesis by (auto simp: memo_get_def coherent_def)
next
  case None
  then show ?thesis by (auto simp: memo_get_def split: option.splits)
qed

lemma get_coherent:
  assumes "coherent key build tbl" "memo_get key build k tbl = Some (tbl', r)"
  shows "coherent key build tbl'"
  using assms build_key by (auto simp: memo_get_def coherent_def split: option.splits)

lemma get_distinct:
  assumes "distinct (map key tbl)" "memo_get key build k tbl = Some (tbl', r)"
  shows "distinct (map key tbl')"
  using assms build_key by (fastforce simp: memo_get_def find_None_iff split: option.splits)

lemma get_again:
  assumes "memo_get key build k tbl = Some (tbl', Some v)"
  shows "memo_get key build k tbl' = Some (tbl', Some v)"
proof -
  have "List.find (\<lambda>v. key v = k) tbl' = Some v"
    using assms build_key by (auto simp: memo_get_def find_snoc split: option.splits)
  then show ?thesis by (simp add: memo_get_def)
qed

end

text \<open>
  An entry of the table may gain detail after it was built. A \<open>view\<close> takes that detail away: what was
  built is its own view, and the table is judged by the views of its entries.
\<close>

locale memo_view = memo key build
  for key :: "'v \<Rightarrow> 'k" and build :: "'k \<Rightarrow> 'v option option" +
  fixes view :: "'v \<Rightarrow> 'v"
  assumes view_key: "key (view v) = key v"
    and view_build: "build k = Some (Some v) \<Longrightarrow> view v = v"
begin

lemma coherent_view: "coherent key build tbl \<Longrightarrow> coherent key build (map view tbl)"
  using view_key view_build by (fastforce simp: coherent_def)

lemma get_view:
  "memo_get key build k (map view tbl) =
     map_option (\<lambda>(t, r). (map view t, map_option view r)) (memo_get key build k tbl)"
proof -
  have "List.find (\<lambda>v. key v = k) (map view tbl) = map_option view (List.find (\<lambda>v. key v = k) tbl)"
    by (induction tbl) (auto simp: view_key)
  then show ?thesis by (auto simp: memo_get_def view_build split: option.splits)
qed

lemma get_view_build:
  assumes "coherent key build (map view tbl)"
  shows "map_option (\<lambda>x. map_option view (snd x)) (memo_get key build k tbl) = build k"
  using get_is_build [OF assms, of k] by (simp add: get_view option.map_comp comp_def case_prod_beta)

lemma get_view_coherent:
  assumes "coherent key build (map view tbl)" "memo_get key build k tbl = Some (tbl', r)"
  shows "coherent key build (map view tbl')"
  using get_coherent [OF assms(1), of k "map view tbl'" "map_option view r"] assms(2) by (simp add: get_view)

end

end
