(* ===== verification/Crash.thy ===== *)
theory Crash
  imports Prelude
begin

text \<open>
  The crash session the plugins run in. Nothing of crash itself is in the repository but its header
  \<^verbatim>\<open>src/defs.h\<close>, so the functions and tables of crash the plugins call are fields of the record
  \<open>crash\<close>, an argument of every definition that uses them. What the theorems rely on about them is
  stated by the named predicates of this theory. Further down the macros of \<^verbatim>\<open>defs.h\<close> the plugins
  expand are translated.
\<close>

section \<open>The session\<close>

datatype memtype = KVADDR | PHYSADDR

record task_context =
  tc_task :: ulong
  tc_thread_info :: ulong
  tc_pid :: ulong
  tc_comm :: string
  tc_mm_struct :: ulong

record node_table =
  nt_start_paddr :: ulong
  nt_size :: ulong

record list_data =
  ld_start :: ulong
  ld_end :: ulong
  ld_list_head_offset :: int

record list_pair =
  lp_index :: ulong
  lp_value :: ulong

text \<open>
  The fields, in groups: memory reads; address classes; kernel configuration; symbols; debug
  information; walks of crash's own (a walk that ends in error(FATAL) is \<^term>\<open>None\<close>, COUNT and GATHER of a
  tree are one list); page tables and page structs; the linear map; \<^verbatim>\<open>kt->flags\<close> with SMP and PER_CPU_OFF, and
  \<^verbatim>\<open>kt->__per_cpu_offset\<close>; the byte swap \<^verbatim>\<open>swap64(x, 1)\<close>; the symbol at or below an address; tasks; swap entries;
  files; the decompressors.
\<close>

record crash =
  readmem :: "memtype \<Rightarrow> ulong \<Rightarrow> int \<Rightarrow> byte list option"
  IS_KVADDR :: "ulong \<Rightarrow> bool"
  IS_UVADDR :: "ulong \<Rightarrow> task_context \<Rightarrow> bool"
  THIS_KERNEL_VERSION :: uint
  PAGESHIFT :: nat
  MAX_PHYSMEM_BITS :: nat
  PTE_PROT_NONE :: ulong
  USERSPACE_TOP :: ulong
  SWAPINFO_V2 :: bool
  get_kernel_config :: "string \<Rightarrow> string option"
  symbol_exists :: "string \<Rightarrow> bool"
  symbol_value :: "string \<Rightarrow> ulong option"
  try_get_symbol_data :: "string \<Rightarrow> ulong option"
  get_array_length :: "string \<Rightarrow> int"
  MEMBER_OFFSET :: "string \<Rightarrow> string \<Rightarrow> int"
  MEMBER_SIZE :: "string \<Rightarrow> string \<Rightarrow> int"
  STRUCT_SIZE :: "string \<Rightarrow> int"
  MEMBER_TYPE_NAME :: "string \<Rightarrow> string \<Rightarrow> string"
  empty_list :: "ulong \<Rightarrow> bool"
  do_list :: "list_data \<Rightarrow> ulong list option"
  do_rbtree :: "ulong \<Rightarrow> int \<Rightarrow> ulong list option"
  do_radix_tree :: "ulong \<Rightarrow> list_pair list"
  do_maple_tree :: "ulong \<Rightarrow> list_pair list"
  do_xarray :: "ulong \<Rightarrow> list_pair list"
  radix_tree_search :: "ulong \<Rightarrow> ulong \<Rightarrow> ulong option"
  xarray_search :: "ulong \<Rightarrow> ulong \<Rightarrow> ulong option"
  phys_to_page :: "ulong \<Rightarrow> ulong option"
  is_page_ptr :: "ulong \<Rightarrow> ulong option"
  uvtop :: "task_context \<Rightarrow> ulong \<Rightarrow> bool \<times> ulong"
  VTOP :: "ulong \<Rightarrow> ulong"
  PTOV :: "ulong \<Rightarrow> ulong"
  per_cpu_off :: bool
  per_cpu_offsets :: "ulong list"
  swap64 :: "ulong \<Rightarrow> ulong"
  value_search :: "ulong \<Rightarrow> (string \<times> ulong) option"
  node_tables :: "node_table list"
  task_contexts :: "task_context list"
  RUNNING_TASKS :: nat
  task_to_context :: "ulong \<Rightarrow> task_context option"
  pid_to_context :: "int \<Rightarrow> task_context option"
  task_exists :: "ulong \<Rightarrow> bool"
  fill_thread_info :: "ulong \<Rightarrow> byte list"
  swp_type :: "ulong \<Rightarrow> ulong"
  swp_offset :: "ulong \<Rightarrow> ulong"
  get_pathname :: "ulong \<Rightarrow> ulong \<Rightarrow> string"
  file_to_dentry :: "ulong \<Rightarrow> ulong"
  file_to_vfsmnt :: "ulong \<Rightarrow> ulong"
  fill_file_cache :: "ulong \<Rightarrow> byte list"
  dump_enumerator_list :: "string \<Rightarrow> string list option"
  enumerator_value :: "string \<Rightarrow> int option"
  ptype_enum :: "string \<Rightarrow> string"
  LZ4_decompress_safe :: "byte list \<Rightarrow> nat \<Rightarrow> byte list"
  lzo1x_decompress_safe :: "byte list \<Rightarrow> nat \<Rightarrow> byte list"

section \<open>What the plugins rely on\<close>

text \<open>readmem either fails or fills the whole buffer, and a request for no bytes fails.\<close>

definition readmem_ok :: "crash \<Rightarrow> bool" where
  "readmem_ok cr \<longleftrightarrow>
     (\<forall>t a n bs. readmem cr t a n = Some bs \<longrightarrow> 0 < n \<and> length bs = nat n)"

lemma readmem_okD: "readmem_ok cr \<Longrightarrow> readmem cr t a n = Some bs \<Longrightarrow> 0 < n \<and> length bs = nat n"
  by (auto simp: readmem_ok_def)

text \<open>The bytes \<open>bs\<close> lie at \<open>a\<close>: every read inside them succeeds and returns its part.\<close>

definition mem_at :: "crash \<Rightarrow> memtype \<Rightarrow> ulong \<Rightarrow> byte list \<Rightarrow> bool" where
  "mem_at cr t a bs \<longleftrightarrow>
     (\<forall>i n. 0 < n \<and> i + n \<le> length bs \<longrightarrow>
        readmem cr t (a + of_nat i) (int n) = Some (take n (drop i bs)))"

lemma mem_atD:
  "mem_at cr t a bs \<Longrightarrow> 0 < n \<Longrightarrow> i + n \<le> length bs \<Longrightarrow>
     readmem cr t (a + of_nat i) (int n) = Some (take n (drop i bs))"
  by (auto simp: mem_at_def)

lemma mem_at_take: "mem_at cr t a bs \<Longrightarrow> mem_at cr t a (take k bs)"
  by (auto simp: mem_at_def drop_take min_def)

lemma mem_at_drop: "mem_at cr t a bs \<Longrightarrow> mem_at cr t (a + of_nat k) (drop k bs)"
  unfolding mem_at_def
proof (intro allI impI)
  fix i n
  assume m: "\<forall>i n. 0 < n \<and> i + n \<le> length bs \<longrightarrow>
        readmem cr t (a + of_nat i) (int n) = Some (take n (drop i bs))"
    and b: "0 < n \<and> i + n \<le> length (drop k bs)"
  then have "0 < n \<and> (k + i) + n \<le> length bs" by auto
  with m have "readmem cr t (a + of_nat (k + i)) (int n) = Some (take n (drop (k + i) bs))"
    by blast
  then show "readmem cr t (a + of_nat k + of_nat i) (int n) = Some (take n (drop i (drop k bs)))"
    by (simp add: ac_simps)
qed

section \<open>Macros of defs.h\<close>

definition LINUX :: "nat \<Rightarrow> nat \<Rightarrow> nat \<Rightarrow> uint" where
  "LINUX x y z = push_bit 24 (of_nat x) + push_bit 16 (of_nat y) + of_nat z"

definition PAGESIZE :: "crash \<Rightarrow> nat" where
  "PAGESIZE cr = 2 ^ PAGESHIFT cr"

definition PTOB :: "crash \<Rightarrow> ulong \<Rightarrow> ulong" where
  "PTOB cr x = push_bit (PAGESHIFT cr) x"

definition BTOP :: "crash \<Rightarrow> ulong \<Rightarrow> ulong" where
  "BTOP cr x = drop_bit (PAGESHIFT cr) x"

definition MIN_PAGE_SIZE :: nat where
  "MIN_PAGE_SIZE = 4096"

definition GENMASK_ULL :: "nat \<Rightarrow> nat \<Rightarrow> ulong" where
  "GENMASK_ULL h l = (push_bit (h + 1) 1 - 1) AND NOT (push_bit l 1 - 1)"

text \<open>The kernel versions are ordered as their numbers are.\<close>

lemma unat_LINUX:
  assumes "x < 256" "y < 256" "z < 65536"
  shows "unat (LINUX x y z) = x * 2 ^ 24 + y * 2 ^ 16 + z"
proof -
  have "LINUX x y z = of_nat (x * 2 ^ 24 + y * 2 ^ 16 + z)"
    by (simp add: LINUX_def push_bit_eq_mult)
  moreover have "x * 2 ^ 24 + y * 2 ^ 16 + z < 2 ^ LENGTH(32)"
    using assms by simp
  ultimately show ?thesis by (simp only: unat_of_nat_small)
qed

lemma BTOP_PTOB:
  assumes "PAGESHIFT cr \<le> 64" "unat x < 2 ^ (64 - PAGESHIFT cr)"
  shows "BTOP cr (PTOB cr x) = x"
proof -
  have "unat x * 2 ^ PAGESHIFT cr < 2 ^ (64 - PAGESHIFT cr) * 2 ^ PAGESHIFT cr"
    using assms(2) by simp
  also have "\<dots> = 2 ^ 64"
    using assms(1) by (simp add: power_add [symmetric])
  finally have "unat x * 2 ^ PAGESHIFT cr < 2 ^ 64" .
  then have "unat (push_bit (PAGESHIFT cr) x) = unat x * 2 ^ PAGESHIFT cr"
    by (simp only: unsigned_push_bit_eq) (simp add: push_bit_eq_mult take_bit_eq_mod)
  then have "unat (drop_bit (PAGESHIFT cr) (push_bit (PAGESHIFT cr) x)) = unat x"
    by (simp only: unat_drop_bit_eq) (simp add: drop_bit_eq_div)
  then show ?thesis by (simp add: PTOB_def BTOP_def word_unat_eq_iff)
qed

section \<open>A session with nothing in it\<close>

text \<open>The start of the concrete sessions the examples build: an empty dump of a 6.6 kernel with 4K pages.\<close>

definition empty_session :: crash where
  "empty_session = \<lparr>
     readmem = (\<lambda>_ _ _. None), IS_KVADDR = (\<lambda>a. 0xffff000000000000 \<le> a), IS_UVADDR = (\<lambda>a _. a < 0x8000000000),
     THIS_KERNEL_VERSION = 0x06060000, PAGESHIFT = 12, MAX_PHYSMEM_BITS = 48, PTE_PROT_NONE = 0,
     USERSPACE_TOP = 0x8000000000, SWAPINFO_V2 = True, get_kernel_config = (\<lambda>_. Some ''39''),
     symbol_exists = (\<lambda>_. False), symbol_value = (\<lambda>_. None), try_get_symbol_data = (\<lambda>_. None),
     get_array_length = (\<lambda>_. 0), MEMBER_OFFSET = (\<lambda>_ _. -1), MEMBER_SIZE = (\<lambda>_ _. -1), STRUCT_SIZE = (\<lambda>_. -1),
     MEMBER_TYPE_NAME = (\<lambda>_ _. ''''), empty_list = (\<lambda>_. True), do_list = (\<lambda>_. Some []),
     do_rbtree = (\<lambda>_ _. Some []), do_radix_tree = (\<lambda>_. []), do_maple_tree = (\<lambda>_. []), do_xarray = (\<lambda>_. []),
     radix_tree_search = (\<lambda>_ _. None), xarray_search = (\<lambda>_ _. None), phys_to_page = (\<lambda>_. None),
     is_page_ptr = (\<lambda>_. None), uvtop = (\<lambda>_ _. (False, 0)), VTOP = id, PTOV = id, per_cpu_off = False,
     per_cpu_offsets = [], swap64 = id, value_search = (\<lambda>_. None), node_tables = [], task_contexts = [], RUNNING_TASKS = 0,
     task_to_context = (\<lambda>_. None), pid_to_context = (\<lambda>_. None), task_exists = (\<lambda>_. False),
     fill_thread_info = (\<lambda>_. []), swp_type = (\<lambda>_. 0), swp_offset = (\<lambda>e. e), get_pathname = (\<lambda>_ _. ''''),
     file_to_dentry = (\<lambda>_. 0), file_to_vfsmnt = (\<lambda>_. 0), fill_file_cache = (\<lambda>_. []),
     dump_enumerator_list = (\<lambda>_. None), enumerator_value = (\<lambda>_. None), ptype_enum = (\<lambda>_. ''''),
     LZ4_decompress_safe = (\<lambda>_ _. []), lzo1x_decompress_safe = (\<lambda>_ _. [])\<rparr>"

text \<open>A dump given by one run of bytes at one address of each kind.\<close>

definition dump_read :: "ulong \<Rightarrow> byte list \<Rightarrow> ulong \<Rightarrow> int \<Rightarrow> byte list option" where
  "dump_read base bs a n =
     (let i = unat (a - base) in
      if 0 < n \<and> i + nat n \<le> length bs then Some (take (nat n) (drop i bs)) else None)"

lemma dump_read_mem_at:
  assumes "\<And>a n. readmem cr t a n = dump_read base bs a n" "length bs < 2 ^ 64"
  shows "mem_at cr t base bs"
proof -
  have "unat (of_nat i :: ulong) = i" if "i + n \<le> length bs" for i n
    using that assms(2) by (intro unat_of_nat_small) simp
  then show ?thesis by (auto simp: mem_at_def assms(1) dump_read_def Let_def)
qed

lemma dump_read_length: "dump_read base bs a n = Some r \<Longrightarrow> 0 < n \<and> length r = nat n"
  by (auto simp: dump_read_def Let_def split: if_splits)

end
