(* ===== verification/Typetable.thy ===== *)
theory Typetable
  imports Crash
begin

text \<open>
  The type table of \<^verbatim>\<open>src/struct_info.h\<close> and \<^verbatim>\<open>src/plugin.cpp\<close>: what \<^verbatim>\<open>field_init\<close> and
  \<^verbatim>\<open>struct_init\<close> record about the kernel's structs, and the look-ups \<^verbatim>\<open>field_offset\<close>,
  \<^verbatim>\<open>field_size\<close> and \<^verbatim>\<open>struct_size\<close> every parser makes. The record \<open>plugin\<close> is the base class
  ParserPlugin; the classes derived from it extend the record.
\<close>

section \<open>The table\<close>

record Typeinfo =
  m_name :: string
  m_size :: int
  m_offset :: int

record plugin =
  typetable :: "string \<rightharpoonup> Typeinfo"
  kaddr_mask :: ulong

definition Typeinfo_field :: "crash \<Rightarrow> string \<Rightarrow> string \<Rightarrow> Typeinfo" where
  "Typeinfo_field cr type field =
     \<lparr>m_name = type @ ''_'' @ field, m_size = MEMBER_SIZE cr type field,
      m_offset = MEMBER_OFFSET cr type field\<rparr>"

definition Typeinfo_struct :: "crash \<Rightarrow> string \<Rightarrow> Typeinfo" where
  "Typeinfo_struct cr type = \<lparr>m_name = type, m_size = STRUCT_SIZE cr type, m_offset = 0\<rparr>"

definition type_init :: "crash \<Rightarrow> string \<Rightarrow> 'a plugin_scheme \<Rightarrow> 'a plugin_scheme" where
  "type_init cr type pl = pl\<lparr>typetable := (typetable pl)(type \<mapsto> Typeinfo_struct cr type)\<rparr>"

definition field_init :: "crash \<Rightarrow> string \<Rightarrow> string \<Rightarrow> 'a plugin_scheme \<Rightarrow> 'a plugin_scheme" where
  "field_init cr type field pl =
     pl\<lparr>typetable := (typetable pl)(type @ ''@'' @ field \<mapsto> Typeinfo_field cr type field)\<rparr>"

definition type_offset :: "'a plugin_scheme \<Rightarrow> string \<Rightarrow> string \<Rightarrow> int" where
  "type_offset pl type field =
     (case typetable pl (type @ ''@'' @ field) of Some ti \<Rightarrow> m_offset ti | None \<Rightarrow> -1)"

definition field_size :: "'a plugin_scheme \<Rightarrow> string \<Rightarrow> string \<Rightarrow> int" where
  "field_size pl type field =
     (case typetable pl (type @ ''@'' @ field) of Some ti \<Rightarrow> m_size ti | None \<Rightarrow> -1)"

definition type_size :: "'a plugin_scheme \<Rightarrow> string \<Rightarrow> int" where
  "type_size pl type = (case typetable pl type of Some ti \<Rightarrow> m_size ti | None \<Rightarrow> -1)"

text \<open>The macro \<^verbatim>\<open>field_offset(type,field)\<close>.\<close>

abbreviation field_offset :: "'a plugin_scheme \<Rightarrow> string \<Rightarrow> string \<Rightarrow> int" where
  "field_offset pl type field \<equiv> type_offset pl type field"

section \<open>Initialisation\<close>

text \<open>A list of \<^verbatim>\<open>field_init\<close> and \<^verbatim>\<open>struct_init\<close> statements, executed in order.\<close>

datatype init_stmt = Field string string | Struct string

fun run_init :: "crash \<Rightarrow> init_stmt \<Rightarrow> 'a plugin_scheme \<Rightarrow> 'a plugin_scheme" where
  "run_init cr (Field t f) pl = field_init cr t f pl"
| "run_init cr (Struct t) pl = type_init cr t pl"

definition run_inits :: "crash \<Rightarrow> init_stmt list \<Rightarrow> 'a plugin_scheme \<Rightarrow> 'a plugin_scheme" where
  "run_inits cr stmts pl = fold (run_init cr) stmts pl"

definition plugin_fields :: "init_stmt list" where
  "plugin_fields =
    [Field ''task_struct'' ''active_mm'', Field ''task_struct'' ''mm'',
     Field ''task_struct'' ''tasks'', Struct ''task_struct'', Field ''task_struct'' ''files'',
     Field ''files_struct'' ''fdt'', Field ''fdtable'' ''max_fds'', Field ''fdtable'' ''fd'',
     Field ''mm_struct'' ''pgd'', Field ''mm_struct'' ''arg_start'',
     Field ''mm_struct'' ''arg_end'', Field ''mm_struct'' ''mmap'', Field ''mm_struct'' ''mm_mt'',
     Struct ''mm_struct'', Field ''maple_tree'' ''ma_root'',
     Field ''vm_area_struct'' ''vm_start'', Field ''vm_area_struct'' ''vm_end'',
     Field ''vm_area_struct'' ''vm_flags'', Field ''vm_area_struct'' ''vm_next'',
     Struct ''vm_area_struct'', Field ''page'' ''_mapcount'', Field ''page'' ''freelist'',
     Field ''page'' ''units'', Field ''page'' ''index'', Field ''page'' ''private'',
     Field ''page'' ''page_type'', Field ''page'' ''_count'', Field ''page'' ''_refcount'',
     Field ''page'' ''mapping'', Struct ''page'', Field ''address_space'' ''host'',
     Field ''address_space'' ''a_ops'', Field ''address_space'' ''nrpages'',
     Field ''address_space'' ''i_pages'', Field ''address_space'' ''page_tree'',
     Struct ''address_space'', Field ''inode'' ''i_mapping'', Field ''list_head'' ''prev'',
     Field ''list_head'' ''next'', Struct ''list_head'', Field ''driver_private'' ''driver'',
     Field ''driver_private'' ''klist_devices'', Field ''driver_private'' ''knode_bus'',
     Field ''device_private'' ''knode_bus'', Field ''device_private'' ''device'',
     Field ''device_private'' ''knode_driver'', Field ''device_private'' ''knode_class'',
     Field ''subsys_private'' ''klist_drivers'', Field ''subsys_private'' ''klist_devices'',
     Field ''subsys_private'' ''bus'', Field ''subsys_private'' ''subsys'',
     Field ''subsys_private'' ''class'', Field ''klist_node'' ''n_node'',
     Field ''klist'' ''k_list'', Field ''device_driver'' ''p'', Field ''bus_type'' ''p'',
     Field ''class'' ''p'', Field ''class'' ''name'', Field ''bus_type'' ''name'',
     Field ''kset'' ''kobj'', Field ''kset'' ''list'', Field ''kobject'' ''entry'',
     Field ''char_device_struct'' ''next'', Field ''char_device_struct'' ''cdev'',
     Field ''char_device_struct'' ''name'', Field ''miscdevice'' ''list'']"

text \<open>
  The constructor. \<^verbatim>\<open>std::stoi\<close> of the configured width throws when the configuration does not give
  a number; the exception leaves the constructor. The shifts of \<^verbatim>\<open>GENMASK_ULL\<close> want a width below 64.
\<close>

fun stoi_digits :: "nat \<Rightarrow> string \<Rightarrow> nat" where
  "stoi_digits acc [] = acc"
| "stoi_digits acc (c # s) =
     (if 48 \<le> (of_char c :: nat) \<and> (of_char c :: nat) \<le> 57
      then stoi_digits (10 * acc + (of_char c - 48)) s else acc)"

definition is_space :: "char \<Rightarrow> bool" where
  "is_space c \<longleftrightarrow> (of_char c :: nat) \<in> {9, 10, 11, 12, 13, 32}"

definition is_digit :: "char \<Rightarrow> bool" where
  "is_digit c \<longleftrightarrow> 48 \<le> (of_char c :: nat) \<and> (of_char c :: nat) \<le> 57"

definition stoi :: "string \<Rightarrow> int option" where
  "stoi s =
     (let t = dropWhile is_space s;
          neg = (t \<noteq> [] \<and> hd t = CHR ''-'');
          u = (if t \<noteq> [] \<and> hd t \<in> {CHR ''-'', CHR ''+''} then tl t else t)
      in if u = [] \<or> \<not> is_digit (hd u) then None
         else let v = (if neg then - int (stoi_digits 0 u) else int (stoi_digits 0 u))
              in if - (2 ^ 31) \<le> v \<and> v < 2 ^ 31 then Some v else None)"

definition get_config_val :: "crash \<Rightarrow> string \<Rightarrow> string" where
  "get_config_val cr conf_name = (case get_kernel_config cr conf_name of Some v \<Rightarrow> v | None \<Rightarrow> ''n'')"

definition va_mask :: "crash \<Rightarrow> ulong option" where
  "va_mask cr = do {
     va_bits \<leftarrow> stoi (get_config_val cr ''CONFIG_ARM64_VA_BITS'');
     let n = (if va_bits \<noteq> 0 then va_bits else 39) - 1;
     if 0 \<le> n \<and> n < 63 then Some (GENMASK_ULL (nat n) 0) else None }"

definition ParserPlugin :: "crash \<Rightarrow> plugin option" where
  "ParserPlugin cr = do {
     let pl = run_inits cr plugin_fields \<lparr>typetable = Map.empty, kaddr_mask = 0\<rparr>;
     m \<leftarrow> va_mask cr;
     Some (pl\<lparr>kaddr_mask := m\<rparr>) }"

section \<open>Laws\<close>

text \<open>The interface the parsers rely on: a look-up returns what the last initialisation of its key recorded.\<close>

locale type_lookup =
  fixes init :: "'k \<Rightarrow> 's \<Rightarrow> 's"
    and look :: "'s \<Rightarrow> 'k \<Rightarrow> 'v"
    and info :: "'k \<Rightarrow> 'v"
    and valid :: "'k \<Rightarrow> bool"
  assumes look_init: "look (init k s) k = info k"
    and look_other: "valid k \<Longrightarrow> valid k' \<Longrightarrow> k \<noteq> k' \<Longrightarrow> look (init k s) k' = look s k'"
begin

lemma look_inits_absent:
  "valid k \<Longrightarrow> \<forall>x \<in> set ks. valid x \<Longrightarrow> k \<notin> set ks \<Longrightarrow> look (fold init ks s) k = look s k"
  by (induction ks arbitrary: s) (auto simp: look_other)

lemma look_inits:
  "\<forall>x \<in> set ks. valid x \<Longrightarrow> k \<in> set ks \<Longrightarrow> look (fold init ks s) k = info k"
proof (induction ks arbitrary: s)
  case Nil
  then show ?case by simp
next
  case (Cons x ks)
  show ?case
  proof (cases "k \<in> set ks")
    case True
    then show ?thesis using Cons by simp
  next
    case False
    then show ?thesis using Cons.prems by (auto simp: look_inits_absent look_init)
  qed
qed

end

text \<open>A type and a field name of C hold no \<^verbatim>\<open>@\<close>, so the keys of different fields are different.\<close>

lemma field_key_eq:
  assumes "CHR ''@'' \<notin> set t" "CHR ''@'' \<notin> set t'"
  shows "t @ ''@'' @ f = t' @ ''@'' @ f' \<longleftrightarrow> t = t' \<and> f = f'"
proof
  assume eq: "t @ ''@'' @ f = t' @ ''@'' @ f'"
  have "takeWhile (\<lambda>c. c \<noteq> CHR ''@'') (t @ ''@'' @ f) = t"
    using assms(1) by (auto simp: takeWhile_append)
  moreover have "takeWhile (\<lambda>c. c \<noteq> CHR ''@'') (t' @ ''@'' @ f') = t'"
    using assms(2) by (auto simp: takeWhile_append)
  ultimately show "t = t' \<and> f = f'" using eq by auto
qed auto

lemma field_key_struct: "CHR ''@'' \<notin> set t \<Longrightarrow> t \<noteq> t' @ ''@'' @ f'"
  by auto

text \<open>What the look-ups say of a statement's key: the offset and the size of a field, the size of a type.\<close>

fun stmt_look :: "'a plugin_scheme \<Rightarrow> init_stmt \<Rightarrow> int list" where
  "stmt_look pl (Field t f) = [type_offset pl t f, field_size pl t f]"
| "stmt_look pl (Struct t) = [type_size pl t]"

fun stmt_info :: "crash \<Rightarrow> init_stmt \<Rightarrow> int list" where
  "stmt_info cr (Field t f) = [MEMBER_OFFSET cr t f, MEMBER_SIZE cr t f]"
| "stmt_info cr (Struct t) = [STRUCT_SIZE cr t]"

fun stmt_type :: "init_stmt \<Rightarrow> string" where
  "stmt_type (Field t f) = t"
| "stmt_type (Struct t) = t"

definition stmt_valid :: "init_stmt \<Rightarrow> bool" where
  "stmt_valid st \<longleftrightarrow> CHR ''@'' \<notin> set (stmt_type st)"

lemma stmt_look_init: "stmt_look (run_init cr st pl) st = stmt_info cr st"
  by (cases st) (simp_all add: field_init_def type_init_def type_offset_def field_size_def type_size_def
      Typeinfo_field_def Typeinfo_struct_def)

lemma stmt_look_other:
  assumes "stmt_valid st" "stmt_valid st'" "st \<noteq> st'"
  shows "stmt_look (run_init cr st pl) st' = stmt_look pl st'"
proof -
  obtain key ti where st: "run_init cr st pl = pl\<lparr>typetable := (typetable pl)(key \<mapsto> ti)\<rparr>"
    and k: "key = (case st of Field t f \<Rightarrow> t @ ''@'' @ f | Struct t \<Rightarrow> t)"
    by (cases st) (auto simp: field_init_def type_init_def)
  have "key \<noteq> (case st' of Field t f \<Rightarrow> t @ ''@'' @ f | Struct t \<Rightarrow> t)"
    using assms by (cases st; cases st') (auto simp: k stmt_valid_def field_key_eq [simplified])
  then show ?thesis
    by (cases st') (auto simp: st type_offset_def field_size_def type_size_def)
qed

interpretation tt: type_lookup "run_init cr" stmt_look "stmt_info cr" stmt_valid
  by unfold_locales (auto simp: stmt_look_init stmt_look_other)

lemma run_inits_look:
  "\<forall>x \<in> set stmts. stmt_valid x \<Longrightarrow> st \<in> set stmts \<Longrightarrow>
     stmt_look (run_inits cr stmts pl) st = stmt_info cr st"
  unfolding run_inits_def by (rule tt.look_inits)

lemma plugin_fields_valid: "\<forall>x \<in> set plugin_fields. stmt_valid x"
  by (simp add: plugin_fields_def stmt_valid_def)

lemma type_offset_kaddr_mask [simp]: "type_offset (pl\<lparr>kaddr_mask := m\<rparr>) t f = type_offset pl t f"
  by (simp add: type_offset_def)

lemma field_size_kaddr_mask [simp]: "field_size (pl\<lparr>kaddr_mask := m\<rparr>) t f = field_size pl t f"
  by (simp add: field_size_def)

lemma type_size_kaddr_mask [simp]: "type_size (pl\<lparr>kaddr_mask := m\<rparr>) t = type_size pl t"
  by (simp add: type_size_def)

lemma stmt_look_kaddr_mask [simp]: "stmt_look (pl\<lparr>kaddr_mask := m\<rparr>) st = stmt_look pl st"
  by (cases st) auto

section \<open>The constructor\<close>

lemma ParserPlugin_SomeD:
  "ParserPlugin cr = Some pl \<Longrightarrow>
     \<exists>m. va_mask cr = Some m \<and>
       pl = (run_inits cr plugin_fields \<lparr>typetable = Map.empty, kaddr_mask = 0\<rparr>)\<lparr>kaddr_mask := m\<rparr>"
  by (auto simp: ParserPlugin_def Let_def bind_eq_Some_conv)

lemma ParserPlugin_look:
  "ParserPlugin cr = Some pl \<Longrightarrow> st \<in> set plugin_fields \<Longrightarrow> stmt_look pl st = stmt_info cr st"
  using run_inits_look [OF plugin_fields_valid] by (auto dest!: ParserPlugin_SomeD)

lemma GENMASK_ULL_low: "GENMASK_ULL h 0 = mask (h + 1)"
  by (simp add: GENMASK_ULL_def mask_eq_exp_minus_1 push_bit_eq_mult)

lemma va_mask_SomeD:
  assumes "va_mask cr = Some m"
  shows "\<exists>v. stoi (get_config_val cr ''CONFIG_ARM64_VA_BITS'') = Some v \<and> m = mask (if v = 0 then 39 else nat v)"
proof -
  obtain v where v: "stoi (get_config_val cr ''CONFIG_ARM64_VA_BITS'') = Some v"
    using assms by (auto simp: va_mask_def bind_eq_Some_conv)
  then have "m = mask (if v = 0 then 39 else nat v)"
    using assms by (auto simp: va_mask_def Let_def GENMASK_ULL_low nat_diff_distrib split: if_splits)
  with v show ?thesis by blast
qed

text \<open>C33. A constructed plugin answers every field its constructor names with the offset and the size of the
  member, and every struct it names with its size, as the debug information gives them, and masks
  kernel addresses to the configured width.\<close>

theorem ParserPlugin_table:
  assumes "ParserPlugin cr = Some pl"
  shows "(\<forall>t f. Field t f \<in> set plugin_fields \<longrightarrow>
        field_offset pl t f = MEMBER_OFFSET cr t f \<and> field_size pl t f = MEMBER_SIZE cr t f) \<and>
     (\<forall>t. Struct t \<in> set plugin_fields \<longrightarrow> type_size pl t = STRUCT_SIZE cr t) \<and>
     (\<exists>v. stoi (get_config_val cr ''CONFIG_ARM64_VA_BITS'') = Some v \<and>
        kaddr_mask pl = mask (if v = 0 then 39 else nat v))"
  using ParserPlugin_look [OF assms, of "Field t f" for t f] ParserPlugin_look [OF assms, of "Struct t" for t]
    ParserPlugin_SomeD [OF assms] by (auto dest!: va_mask_SomeD)

text \<open>A kernel whose \<^verbatim>\<open>task_struct\<close> has its member \<^verbatim>\<open>mm\<close> of eight bytes at 1352.\<close>

definition task_session :: crash where
  "task_session = empty_session\<lparr>STRUCT_SIZE := \<lambda>t. if t = ''task_struct'' then 4288 else -1,
     MEMBER_OFFSET := \<lambda>t f. if t = ''task_struct'' \<and> f = ''mm'' then 1352 else -1,
     MEMBER_SIZE := \<lambda>t f. if t = ''task_struct'' \<and> f = ''mm'' then 8 else -1\<rparr>"

lemma ParserPlugin_table_witness:
  "\<exists>pl. ParserPlugin task_session = Some pl \<and> field_offset pl ''task_struct'' ''mm'' = 1352 \<and>
     field_size pl ''task_struct'' ''mm'' = 8 \<and> type_size pl ''task_struct'' = 4288 \<and> kaddr_mask pl = mask 39"
proof -
  have s: "stoi (get_config_val task_session ''CONFIG_ARM64_VA_BITS'') = Some 39"
    by (simp add: task_session_def empty_session_def get_config_val_def stoi_def is_space_def is_digit_def Let_def)
  then obtain pl where pl: "ParserPlugin task_session = Some pl"
    by (auto simp: ParserPlugin_def va_mask_def Let_def)
  have "Field ''task_struct'' ''mm'' \<in> set plugin_fields" "Struct ''task_struct'' \<in> set plugin_fields"
    by (simp_all add: plugin_fields_def)
  with ParserPlugin_table [OF pl] s have "field_offset pl ''task_struct'' ''mm'' = MEMBER_OFFSET task_session ''task_struct'' ''mm''"
    "field_size pl ''task_struct'' ''mm'' = MEMBER_SIZE task_session ''task_struct'' ''mm''"
    "type_size pl ''task_struct'' = STRUCT_SIZE task_session ''task_struct''" "kaddr_mask pl = mask 39"
    by simp_all
  then show ?thesis using pl by (simp add: task_session_def)
qed

text \<open>Without a value of CONFIG\_ARM64\_VA\_BITS the constructor does not complete: the default of
  39 bits it names for a missing width is never reached.\<close>

theorem ParserPlugin_no_va_bits:
  assumes "get_kernel_config cr ''CONFIG_ARM64_VA_BITS'' = None"
  shows "ParserPlugin cr = None"
  using assms
  by (simp add: ParserPlugin_def va_mask_def get_config_val_def stoi_def is_space_def is_digit_def Let_def)

lemma ParserPlugin_no_va_bits_witness:
  "ParserPlugin (empty_session\<lparr>get_kernel_config := \<lambda>_. None\<rparr>) = None"
  by (rule ParserPlugin_no_va_bits) simp

end
