(* ===== verification/Reads.thy ===== *)
theory Reads
  imports Typetable
begin

text \<open>
  The memory readers of ParserPlugin (\<^verbatim>\<open>src/plugin.cpp\<close>): scalars, strings and struct fields read
  from the dump, and the conversions between pages, page frames and physical addresses. A failed
  read makes a scalar reader return 0 (\<^verbatim>\<open>read_byte\<close> returns \<^verbatim>\<open>-1\<close> cut to a byte); the message it
  prints is not modelled.
\<close>

section \<open>Readers\<close>

abbreviation memtype_of :: "bool \<Rightarrow> memtype" where
  "memtype_of virt \<equiv> (if virt then KVADDR else PHYSADDR)"

definition read_memory :: "crash \<Rightarrow> ulong \<Rightarrow> int \<Rightarrow> bool \<Rightarrow> byte list option" where
  "read_memory cr addr len virt = readmem cr (memtype_of virt) addr len"

definition read_struct :: "crash \<Rightarrow> 'a plugin_scheme \<Rightarrow> ulong \<Rightarrow> string \<Rightarrow> bool \<Rightarrow> byte list option" where
  "read_struct cr pl addr type virt = readmem cr (memtype_of virt) addr (type_size pl type)"

definition read_struct_into :: "crash \<Rightarrow> ulong \<Rightarrow> int \<Rightarrow> bool \<Rightarrow> byte list option" where
  "read_struct_into cr addr len virt = readmem cr (memtype_of virt) addr len"

definition read_bool :: "crash \<Rightarrow> ulong \<Rightarrow> bool \<Rightarrow> bool" where
  "read_bool cr addr virt =
     (case read_memory cr addr 1 virt of None \<Rightarrow> False | Some buf \<Rightarrow> le_nat buf \<noteq> 0)"

definition read_int :: "crash \<Rightarrow> ulong \<Rightarrow> bool \<Rightarrow> int" where
  "read_int cr addr virt =
     (case read_memory cr addr 4 virt of None \<Rightarrow> 0 | Some buf \<Rightarrow> sint (of_nat (le_nat buf) :: uint))"

definition read_uint :: "crash \<Rightarrow> ulong \<Rightarrow> bool \<Rightarrow> uint" where
  "read_uint cr addr virt =
     (case read_memory cr addr 4 virt of None \<Rightarrow> 0 | Some buf \<Rightarrow> of_nat (le_nat buf))"

definition read_long :: "crash \<Rightarrow> ulong \<Rightarrow> bool \<Rightarrow> int" where
  "read_long cr addr virt =
     (case read_memory cr addr 8 virt of None \<Rightarrow> 0 | Some buf \<Rightarrow> sint (of_nat (le_nat buf) :: ulong))"

definition read_ulong :: "crash \<Rightarrow> ulong \<Rightarrow> bool \<Rightarrow> ulong" where
  "read_ulong cr addr virt =
     (case read_memory cr addr 8 virt of None \<Rightarrow> 0 | Some buf \<Rightarrow> of_nat (le_nat buf))"

definition read_ulonglong :: "crash \<Rightarrow> ulong \<Rightarrow> bool \<Rightarrow> ulong" where
  "read_ulonglong cr addr virt =
     (case read_memory cr addr 8 virt of None \<Rightarrow> 0 | Some buf \<Rightarrow> of_nat (le_nat buf))"

definition read_ushort :: "crash \<Rightarrow> ulong \<Rightarrow> bool \<Rightarrow> ushort" where
  "read_ushort cr addr virt =
     (case read_memory cr addr 2 virt of None \<Rightarrow> 0 | Some buf \<Rightarrow> of_nat (le_nat buf))"

definition read_short :: "crash \<Rightarrow> ulong \<Rightarrow> bool \<Rightarrow> int" where
  "read_short cr addr virt =
     (case read_memory cr addr 2 virt of None \<Rightarrow> 0 | Some buf \<Rightarrow> sint (of_nat (le_nat buf) :: ushort))"

definition read_pointer :: "crash \<Rightarrow> ulong \<Rightarrow> bool \<Rightarrow> ulong" where
  "read_pointer cr addr virt =
     (case read_memory cr addr 8 virt of None \<Rightarrow> 0 | Some buf \<Rightarrow> of_nat (le_nat buf))"

definition read_byte :: "crash \<Rightarrow> ulong \<Rightarrow> bool \<Rightarrow> byte" where
  "read_byte cr addr virt =
     (case readmem cr (memtype_of virt) addr 1 of None \<Rightarrow> -1 | Some buf \<Rightarrow> of_nat (le_nat buf))"

text \<open>
  The value of a field by its size; any other size is read as an \<^verbatim>\<open>ulong\<close>, outside the buffer when
  the field is smaller than that.
\<close>

definition read_structure_field ::
  "crash \<Rightarrow> 'a plugin_scheme \<Rightarrow> ulong \<Rightarrow> string \<Rightarrow> string \<Rightarrow> bool \<Rightarrow> ulong option" where
  "read_structure_field cr pl addr type field virt =
     (let offset = type_offset pl type field; size = field_size pl type field in
      case readmem cr (memtype_of virt) (addr + off offset) size of
        None \<Rightarrow> Some 0
      | Some buf \<Rightarrow>
          (if size = 1 then map_option ucast (UCHAR buf 0)
           else if size = 2 then map_option ucast (USHORT buf 0)
           else if size = 4 then map_option ucast (UINT buf 0)
           else ULONG buf 0))"

text \<open>
  \<^verbatim>\<open>std::string(res)\<close> runs on past a buffer that holds no terminator.
\<close>

definition read_cstring :: "crash \<Rightarrow> ulong \<Rightarrow> int \<Rightarrow> bool \<Rightarrow> string option" where
  "read_cstring cr addr len virt =
     (case readmem cr (memtype_of virt) addr len of
        None \<Rightarrow> Some ''''
      | Some res \<Rightarrow> if 0 \<in> set res then Some (to_string (cstr res)) else None)"

function read_long_string_loop :: "crash \<Rightarrow> bool \<Rightarrow> ulong \<Rightarrow> byte list \<Rightarrow> byte list" where
  "read_long_string_loop cr virt kp result =
     (let page_offset = unat (kp AND (of_nat MIN_PAGE_SIZE - 1));
          max_read = MIN_PAGE_SIZE - page_offset in
      case readmem cr (memtype_of virt) kp (int max_read) of
        None \<Rightarrow> []
      | Some strbuf \<Rightarrow>
          (let s = cstr (take max_read strbuf); actual_len = length s in
           if actual_len = 0 then result
           else let result' = result @ s in
             if actual_len < max_read then result'
             else if length result' > 2 ^ 20 then result'
             else read_long_string_loop cr virt (kp + of_nat actual_len) result'))"
  by pat_completeness auto
termination
  by (relation "measure (\<lambda>(cr, virt, kp, result). 2 ^ 20 + 1 - length result)")
    (auto simp flip: length_greater_0_conv)

declare read_long_string_loop.simps [simp del]

definition read_long_string :: "crash \<Rightarrow> ulong \<Rightarrow> bool \<Rightarrow> string" where
  "read_long_string cr kvaddr virt = to_string (read_long_string_loop cr virt kvaddr [])"

section \<open>Pages\<close>

definition page_to_phy :: "crash \<Rightarrow> ulong \<Rightarrow> ulong" where
  "page_to_phy cr page = (case is_page_ptr cr page of Some paddr \<Rightarrow> paddr | None \<Rightarrow> 0)"

definition phy_to_page :: "crash \<Rightarrow> ulong \<Rightarrow> ulong" where
  "phy_to_page cr paddr = (case phys_to_page cr paddr of Some page \<Rightarrow> page | None \<Rightarrow> 0)"

definition virt_to_phy :: "crash \<Rightarrow> ulong \<Rightarrow> ulong" where
  "virt_to_phy cr vaddr = VTOP cr vaddr"

definition phy_to_virt :: "crash \<Rightarrow> ulong \<Rightarrow> ulong" where
  "phy_to_virt cr paddr = PTOV cr paddr"

definition phy_to_pfn :: "crash \<Rightarrow> ulong \<Rightarrow> ulong" where
  "phy_to_pfn cr paddr = BTOP cr paddr"

definition pfn_to_phy :: "crash \<Rightarrow> ulong \<Rightarrow> ulong" where
  "pfn_to_phy cr pfn = PTOB cr pfn"

definition page_to_pfn :: "crash \<Rightarrow> ulong \<Rightarrow> ulong" where
  "page_to_pfn cr page = phy_to_pfn cr (page_to_phy cr page)"

definition pfn_to_page :: "crash \<Rightarrow> ulong \<Rightarrow> ulong" where
  "pfn_to_page cr pfn = phy_to_page cr (pfn_to_phy cr pfn)"

definition nt_end_paddr :: "crash \<Rightarrow> node_table \<Rightarrow> ulong" where
  "nt_end_paddr cr nt = nt_start_paddr nt + nt_size nt * of_nat (PAGESIZE cr)"

fun page_to_nid_loop :: "crash \<Rightarrow> ulong \<Rightarrow> nat \<Rightarrow> node_table list \<Rightarrow> int" where
  "page_to_nid_loop cr paddr i [] = -1"
| "page_to_nid_loop cr paddr i (nt # nts) =
     (if nt_start_paddr nt \<le> paddr \<and> paddr < nt_end_paddr cr nt then int i
      else page_to_nid_loop cr paddr (Suc i) nts)"

definition page_to_nid :: "crash \<Rightarrow> ulong \<Rightarrow> int" where
  "page_to_nid cr page =
     (let paddr = page_to_phy cr page in
      if paddr = 0 then -1 else page_to_nid_loop cr paddr 0 (node_tables cr))"

definition page_buddy :: "crash \<Rightarrow> 'a plugin_scheme \<Rightarrow> ulong \<Rightarrow> bool" where
  "page_buddy cr pl page_addr =
     (if THIS_KERNEL_VERSION cr \<ge> LINUX 4 19 0
      then (read_uint cr (page_addr + off (field_offset pl ''page'' ''page_type'')) True AND 0xf0000080) = 0xf0000000
      else (word_of_int (read_int cr (page_addr + off (field_offset pl ''page'' ''_mapcount'')) True) :: uint)
             = 0xffffff80)"

definition page_count :: "crash \<Rightarrow> 'a plugin_scheme \<Rightarrow> ulong \<Rightarrow> int" where
  "page_count cr pl page_addr =
     (if THIS_KERNEL_VERSION cr < LINUX 4 6 0
      then read_int cr (page_addr + off (field_offset pl ''page'' ''_count'')) True
      else read_int cr (page_addr + off (field_offset pl ''page'' ''_refcount'')) True)"

section \<open>Laws of the readers\<close>

lemmas scalar_reads = read_bool_def read_int_def read_uint_def read_long_def read_ulong_def
  read_ulonglong_def read_ushort_def read_short_def read_pointer_def read_byte_def read_memory_def

lemma mem_at_whole: "mem_at cr t a bs \<Longrightarrow> bs \<noteq> [] \<Longrightarrow> readmem cr t a (int (length bs)) = Some bs"
  using mem_atD [of cr t a bs "length bs" 0] by simp

lemma le_nat_word:
  "unat (v :: 'a::len word) < 256 ^ n \<Longrightarrow> of_nat (le_nat (le_bytes n (unat v))) = v"
  by (simp add: le_nat_le_bytes)

lemma read_ulong_of_mem [load_simps]:
  "mem_at cr (memtype_of virt) a (le_bytes 8 (unat v)) \<Longrightarrow> read_ulong cr a virt = v"
  using mem_at_whole [of cr "memtype_of virt" a "le_bytes 8 (unat v)"] unat_less_power [of v]
  by (simp add: read_ulong_def read_memory_def le_nat_le_bytes flip: length_greater_0_conv)

lemma read_pointer_eq_read_ulong: "read_pointer cr a virt = read_ulong cr a virt"
  by (simp add: read_pointer_def read_ulong_def)

text \<open>One page of the string loop: the bytes left to the end of the page, at least one.\<close>

lemma page_rest:
  fixes kp :: ulong
  shows "MIN_PAGE_SIZE - unat (kp AND (of_nat MIN_PAGE_SIZE - 1)) = 4096 - unat kp mod 4096"
proof -
  have "kp AND (of_nat MIN_PAGE_SIZE - 1) = take_bit 12 kp"
    by (simp add: MIN_PAGE_SIZE_def take_bit_eq_mask mask_eq_exp_minus_1)
  moreover have "unat (take_bit 12 kp) = unat kp mod 4096"
    by (simp only: unsigned_take_bit_eq) (simp add: take_bit_eq_mod)
  ultimately show ?thesis by (simp add: MIN_PAGE_SIZE_def)
qed

lemma unat_add_mod_4096: "unat ((kp :: ulong) + of_nat n) mod 4096 = (unat kp + n) mod 4096"
proof -
  have "(4096 :: nat) dvd 2 ^ 64" by simp
  then have "((unat kp + n) mod 2 ^ 64) mod 4096 = (unat kp + n) mod 4096"
    by (rule mod_mod_cancel)
  moreover have "unat (kp + of_nat n) = (unat kp + n) mod 2 ^ 64"
    by (simp add: unat_word_ariths unat_of_nat mod_simps)
  ultimately show ?thesis by simp
qed

lemma page_rest_le:
  fixes k T :: nat
  assumes "0 < T" "(k + T) mod 4096 = 0"
  shows "4096 - k mod 4096 \<le> T"
proof -
  have "(k mod 4096 + T) mod 4096 = 0" using assms(2) by (simp add: mod_simps)
  moreover have "k mod 4096 < 4096" by simp
  ultimately show ?thesis
    using assms(1) by (metis add_gr_0 le_diff_conv2 less_or_eq_imp_le mod_less not_le_imp_less not_gr_zero add.commute le_diff_conv)
qed

text \<open>
  The loop reads a terminated string whole, page by page, when its pages are readable to the end.
\<close>

lemma read_long_string_loop_reads:
  assumes "mem_at cr (memtype_of virt) kp (s @ 0 # rest)" "0 \<notin> set s"
    and "(unat kp + length (s @ 0 # rest)) mod 4096 = 0"
    and "length acc + length s \<le> 2 ^ 20"
  shows "read_long_string_loop cr virt kp acc = acc @ s"
  using assms
proof (induction "length s" arbitrary: s kp acc rule: less_induct)
  case less
  define M where "M = 4096 - unat kp mod 4096"
  have M0: "0 < M" by (simp add: M_def)
  have MT: "M \<le> length (s @ 0 # rest)"
    unfolding M_def using less.prems(3) by (intro page_rest_le) auto
  have rd: "readmem cr (memtype_of virt) kp (int M) = Some (take M (s @ 0 # rest))"
    using mem_atD [OF less.prems(1) M0, of 0] MT by simp
  note unf = read_long_string_loop.simps [of cr virt kp acc] Let_def page_rest
    M_def [symmetric] rd
  show ?case
  proof (cases "length s < M")
    case True
    then have "cstr (take M (s @ 0 # rest)) = s"
      using less.prems(2) by (simp add: take_Cons')
    with True show ?thesis by (simp add: unf)
  next
    case False
    then have tk: "take M (take M (s @ 0 # rest)) = take M s" by simp
    have cs: "cstr (take M s) = take M s"
      using less.prems(2) in_set_takeD by (fastforce intro: cstr_no_nul)
    have len: "length (take M s) = M" using False by simp
    have ih: "read_long_string_loop cr virt (kp + of_nat M) (acc @ take M s) = (acc @ take M s) @ drop M s"
    proof (rule less.hyps)
      show "length (drop M s) < length s" using False M0 by simp
      show "mem_at cr (memtype_of virt) (kp + of_nat M) (drop M s @ 0 # rest)"
        using mem_at_drop [OF less.prems(1), of M] False by simp
      show "0 \<notin> set (drop M s)" using less.prems(2) in_set_dropD by fast
      have "unat kp + length (s @ 0 # rest) = (unat kp + M) + length (drop M s @ 0 # rest)"
        using False by simp
      then show "(unat (kp + of_nat M) + length (drop M s @ 0 # rest)) mod 4096 = 0"
        using less.prems(3) unat_add_mod_4096 [of kp M] by (metis mod_add_cong)
      show "length (acc @ take M s) + length (drop M s) \<le> 2 ^ 20"
        using less.prems(4) False by simp
    qed
    have "take M s \<noteq> []" using len M0 by auto
    moreover have "\<not> 2 ^ 20 < length (acc @ take M s)"
      using less.prems(4) False by simp
    ultimately show ?thesis
      using ih len by (simp add: unf tk cs)
  qed
qed

text \<open>Whatever the memory holds, the loop stops within a page of the limit.\<close>

lemma read_long_string_loop_bound:
  "length acc \<le> 2 ^ 20 \<Longrightarrow> length (read_long_string_loop cr virt kp acc) \<le> 2 ^ 20 + 4096"
proof (induction cr virt kp acc rule: read_long_string_loop.induct)
  case (1 cr virt kp result)
  define M where "M = 4096 - unat kp mod 4096"
  note unf = read_long_string_loop.simps [of cr virt kp result] Let_def page_rest M_def [symmetric]
  show ?case
  proof (cases "readmem cr (memtype_of virt) kp (int M)")
    case None
    then show ?thesis by (simp add: unf)
  next
    case (Some strbuf)
    define s where "s = cstr (take M strbuf)"
    have sl: "length s \<le> 4096"
      using length_cstr_le [of "take M strbuf"] by (auto simp: s_def M_def intro: le_trans)
    show ?thesis
    proof (cases "s = [] \<or> length s < M \<or> length (result @ s) > 2 ^ 20")
      case True
      with Some sl 1(2) show ?thesis by (auto simp: unf s_def [symmetric])
    next
      case False
      with Some 1(1) [OF refl refl, unfolded page_rest, folded M_def, OF Some refl, folded s_def]
      have "length (read_long_string_loop cr virt (kp + of_nat (length s)) (result @ s)) \<le> 2 ^ 20 + 4096"
        by simp
      with Some False show ?thesis by (simp add: unf s_def [symmetric])
    qed
  qed
qed

lemma page_to_nid_loop_found:
  assumes "page_to_nid_loop cr paddr i nts = r" "r \<noteq> -1"
  shows "\<exists>k < length nts. r = int (i + k) \<and> nt_start_paddr (nts ! k) \<le> paddr \<and>
           paddr < nt_end_paddr cr (nts ! k) \<and>
           (\<forall>j < k. \<not> (nt_start_paddr (nts ! j) \<le> paddr \<and> paddr < nt_end_paddr cr (nts ! j)))"
  using assms
proof (induction nts arbitrary: i)
  case Nil
  then show ?case by simp
next
  case (Cons nt nts)
  show ?case
  proof (cases "nt_start_paddr nt \<le> paddr \<and> paddr < nt_end_paddr cr nt")
    case True
    then show ?thesis using Cons.prems by (intro exI [of _ 0]) auto
  next
    case False
    then obtain k where k: "k < length nts" "r = int (Suc i + k)"
      "nt_start_paddr (nts ! k) \<le> paddr \<and> paddr < nt_end_paddr cr (nts ! k)"
      "\<forall>j < k. \<not> (nt_start_paddr (nts ! j) \<le> paddr \<and> paddr < nt_end_paddr cr (nts ! j))"
      using Cons.IH [of "Suc i"] Cons.prems by auto
    show ?thesis
      using k False by (intro exI [of _ "Suc k"]) (auto simp: nth_Cons split: nat.splits)
  qed
qed

lemma page_to_nid_loop_none:
  "page_to_nid_loop cr paddr i nts = -1 \<longleftrightarrow>
     (\<forall>nt \<in> set nts. \<not> (nt_start_paddr nt \<le> paddr \<and> paddr < nt_end_paddr cr nt))"
  by (induction nts arbitrary: i) auto

section \<open>Properties\<close>

text \<open>C34. A readable string of at most one megabyte comes back whole and without its terminator, however
  many pages it spans.\<close>

theorem read_long_string_reads:
  assumes "mem_at cr (memtype_of virt) a (s @ 0 # rest)" "0 \<notin> set s" "length s \<le> 2 ^ 20"
    and "(unat a + length (s @ 0 # rest)) mod 4096 = 0"
  shows "read_long_string cr a virt = to_string s"
  using read_long_string_loop_reads [OF assms(1,2,4), of "[]"] assms(3)
  by (simp add: read_long_string_def)

lemma read_long_string_reads_witness:
  "read_long_string (empty_session\<lparr>readmem := \<lambda>t a n. dump_read 0xffff000000000ffc (to_bytes ''abc'' @ 0 # []) a n\<rparr>)
     0xffff000000000ffc True = to_string (to_bytes ''abc'')"
proof (rule read_long_string_reads [where rest = "[]"])
  show "mem_at (empty_session\<lparr>readmem := \<lambda>t a n. dump_read 0xffff000000000ffc (to_bytes ''abc'' @ 0 # []) a n\<rparr>)
     (memtype_of True) 0xffff000000000ffc (to_bytes ''abc'' @ 0 # [])"
    by (rule dump_read_mem_at) (simp_all add: to_bytes_def)
qed (simp_all add: to_bytes_def ord_def)

text \<open>The string reader always returns, and never with more than a page above its limit of one megabyte.\<close>

theorem read_long_string_bound: "length (read_long_string cr a virt) \<le> 2 ^ 20 + 4096"
  using read_long_string_loop_bound [of "[]" cr virt a] by (simp add: read_long_string_def to_string_def)

text \<open>The node of a page is the first whose range holds the page's physical address, and -1 exactly
  when the page has no address or no node holds it.\<close>

theorem page_to_nid_spec:
  "(page_to_nid cr page = -1 \<longleftrightarrow> page_to_phy cr page = 0 \<or>
     (\<forall>nt \<in> set (node_tables cr). \<not> (nt_start_paddr nt \<le> page_to_phy cr page \<and> page_to_phy cr page < nt_end_paddr cr nt))) \<and>
   (page_to_nid cr page \<noteq> -1 \<longrightarrow>
     (\<exists>k < length (node_tables cr). page_to_nid cr page = int k \<and>
        nt_start_paddr (node_tables cr ! k) \<le> page_to_phy cr page \<and>
        page_to_phy cr page < nt_end_paddr cr (node_tables cr ! k) \<and>
        (\<forall>j < k. \<not> (nt_start_paddr (node_tables cr ! j) \<le> page_to_phy cr page \<and>
           page_to_phy cr page < nt_end_paddr cr (node_tables cr ! j)))))"
  using page_to_nid_loop_none [of cr "page_to_phy cr page" 0 "node_tables cr"]
    page_to_nid_loop_found [of cr "page_to_phy cr page" 0 "node_tables cr"]
  by (auto simp: page_to_nid_def Let_def)

lemma page_to_nid_spec_witness:
  "page_to_nid (empty_session\<lparr>is_page_ptr := \<lambda>_. Some 0x80001000,
      node_tables := [\<lparr>nt_start_paddr = 0x80000000, nt_size = 16\<rparr>]\<rparr>) 0xffff000000000040 \<noteq> -1"
  using page_to_nid_spec [of "empty_session\<lparr>is_page_ptr := \<lambda>_. Some 0x80001000,
      node_tables := [\<lparr>nt_start_paddr = 0x80000000, nt_size = 16\<rparr>]\<rparr>" "0xffff000000000040"]
  by (simp add: page_to_phy_def nt_end_paddr_def PAGESIZE_def empty_session_def)

text \<open>Page frame numbers and page structs convert back and forth, given that crash's two page
  look-ups are inverse on the frame's physical address.\<close>

theorem pfn_page_roundtrip:
  assumes "phys_to_page cr (PTOB cr pfn) = Some page" "is_page_ptr cr page = Some (PTOB cr pfn)"
    and "PAGESHIFT cr \<le> 64" "unat pfn < 2 ^ (64 - PAGESHIFT cr)"
  shows "page_to_pfn cr (pfn_to_page cr pfn) = pfn"
  using assms BTOP_PTOB [of cr pfn]
  by (simp add: page_to_pfn_def pfn_to_page_def phy_to_page_def pfn_to_phy_def page_to_phy_def phy_to_pfn_def)

lemma pfn_page_roundtrip_witness:
  "page_to_pfn (empty_session\<lparr>phys_to_page := \<lambda>p. Some 0xffff000000000040, is_page_ptr := \<lambda>_. Some 0x80001000\<rparr>)
     (pfn_to_page (empty_session\<lparr>phys_to_page := \<lambda>p. Some 0xffff000000000040, is_page_ptr := \<lambda>_. Some 0x80001000\<rparr>)
        0x80001) = 0x80001"
  by (rule pfn_page_roundtrip) (simp_all add: PTOB_def empty_session_def)

end
