(* ===== verification/Walk.thy ===== *)
theory Walk
  imports Reads
begin

text \<open>
  The walks of ParserPlugin over kernel data structures (\<^verbatim>\<open>src/plugin.cpp\<close>): page frames, pages and
  inodes, crash's own list and tree walks filtered to kernel addresses, tasks, VMAs and open files. A
  loop body that skips an element with \<^verbatim>\<open>continue\<close> is a function to \<^term>\<open>None\<close>, mapped over the
  elements by \<^const>\<open>List.map_filter\<close>.
\<close>

section \<open>Page frames, pages, inodes\<close>

text \<open>Both bounds are local variables nothing initialises when the symbol cannot be read.\<close>

definition for_each_pfn :: "crash \<Rightarrow> ulong list option" where
  "for_each_pfn cr = do {
     max_pfn \<leftarrow> (if symbol_exists cr ''max_pfn'' then try_get_symbol_data cr ''max_pfn'' else None);
     min_low_pfn \<leftarrow> (if symbol_exists cr ''min_low_pfn'' then try_get_symbol_data cr ''min_low_pfn'' else None);
     Some (map of_nat [unat min_low_pfn..<unat max_pfn]) }"

definition file_page_of :: "crash \<Rightarrow> 'a plugin_scheme \<Rightarrow> ulong \<Rightarrow> ulong option" where
  "file_page_of cr pl pfn =
     (let page = pfn_to_page cr pfn in
      if \<not> IS_KVADDR cr page then None
      else if page_buddy cr pl page \<or> page_count cr pl page = 0 then None
      else let mapping = read_pointer cr (page + off (field_offset pl ''page'' ''mapping'')) True in
        if \<not> IS_KVADDR cr mapping then None
        else if mapping AND 1 = 1 then None
        else Some page)"

definition for_each_file_page :: "crash \<Rightarrow> 'a plugin_scheme \<Rightarrow> ulong list option" where
  "for_each_file_page cr pl = map_option (List.map_filter (file_page_of cr pl)) (for_each_pfn cr)"

definition anon_page_of :: "crash \<Rightarrow> 'a plugin_scheme \<Rightarrow> ulong \<Rightarrow> ulong option" where
  "anon_page_of cr pl pfn =
     (let page = pfn_to_page cr pfn in
      if \<not> IS_KVADDR cr page then None
      else if page_buddy cr pl page \<or> page_count cr pl page = 0 then None
      else let mapping = read_pointer cr (page + off (field_offset pl ''page'' ''mapping'')) True in
        if \<not> IS_KVADDR cr mapping then None
        else if mapping AND 1 = 0 then None
        else Some page)"

definition for_each_anon_page :: "crash \<Rightarrow> 'a plugin_scheme \<Rightarrow> ulong list option" where
  "for_each_anon_page cr pl = map_option (List.map_filter (anon_page_of cr pl)) (for_each_pfn cr)"

definition inode_of_page :: "crash \<Rightarrow> 'a plugin_scheme \<Rightarrow> ulong \<Rightarrow> ulong option" where
  "inode_of_page cr pl page =
     (let mapping = read_pointer cr (page + off (field_offset pl ''page'' ''mapping'')) True;
          inode = read_pointer cr (mapping + off (field_offset pl ''address_space'' ''host'')) True in
      if \<not> IS_KVADDR cr inode then None
      else let ops = read_pointer cr (mapping + off (field_offset pl ''address_space'' ''a_ops'')) True in
        if \<not> IS_KVADDR cr ops then None
        else let i_mapping = read_pointer cr (inode + off (field_offset pl ''inode'' ''i_mapping'')) True in
          if \<not> IS_KVADDR cr i_mapping \<and> mapping \<noteq> i_mapping then None
          else Some inode)"

text \<open>The inodes go through a \<^verbatim>\<open>std::set\<close>, so they come out ascending and once each.\<close>

definition for_each_inode :: "crash \<Rightarrow> 'a plugin_scheme \<Rightarrow> ulong list option" where
  "for_each_inode cr pl =
     map_option (\<lambda>pages. sort (remdups (List.map_filter (inode_of_page cr pl) pages)))
       (for_each_file_page cr pl)"

section \<open>Lists and trees\<close>

definition for_each_radix :: "crash \<Rightarrow> ulong \<Rightarrow> ulong list" where
  "for_each_radix cr root_rnode = filter (IS_KVADDR cr) (map lp_value (do_radix_tree cr root_rnode))"

definition for_each_mptree :: "crash \<Rightarrow> ulong \<Rightarrow> ulong list" where
  "for_each_mptree cr maptree_addr = filter (IS_KVADDR cr) (map lp_value (do_maple_tree cr maptree_addr))"

definition for_each_xarray :: "crash \<Rightarrow> ulong \<Rightarrow> ulong list" where
  "for_each_xarray cr xarray_addr =
     (if \<not> IS_KVADDR cr xarray_addr then []
      else filter (IS_KVADDR cr) (map lp_value (do_xarray cr xarray_addr)))"

definition for_each_rbtree :: "crash \<Rightarrow> ulong \<Rightarrow> int \<Rightarrow> ulong list option" where
  "for_each_rbtree cr rb_root offset =
     (if \<not> IS_KVADDR cr rb_root then Some []
      else do {
        treeList \<leftarrow> do_rbtree cr rb_root offset;
        Some (map (\<lambda>a. a - off offset) (filter (IS_KVADDR cr) treeList)) })"

definition for_each_list :: "crash \<Rightarrow> 'a plugin_scheme \<Rightarrow> ulong \<Rightarrow> int \<Rightarrow> ulong list option" where
  "for_each_list cr pl list_head offset =
     (if \<not> IS_KVADDR cr list_head then Some []
      else case read_struct cr pl list_head ''list_head'' True of
        None \<Rightarrow> Some []
      | Some buf \<Rightarrow> do {
          next \<leftarrow> ULONG buf (field_offset pl ''list_head'' ''next'');
          if next = 0 \<or> next = list_head then Some []
          else do {
            start_buf \<leftarrow> readmem cr KVADDR list_head 8;
            let start = of_nat (le_nat start_buf);
            if empty_list cr start then Some []
            else do {
              list_ptr \<leftarrow> do_list cr \<lparr>ld_start = start, ld_end = list_head, ld_list_head_offset = offset\<rparr>;
              Some (filter (IS_KVADDR cr) list_ptr) } } })"

definition for_each_hlist :: "crash \<Rightarrow> ulong \<Rightarrow> int \<Rightarrow> ulong list option" where
  "for_each_hlist cr hlist_head offset =
     (let first = read_pointer cr hlist_head True in
      if \<not> IS_KVADDR cr first then Some []
      else if empty_list cr first then Some []
      else do {
        list_ptr \<leftarrow> do_list cr \<lparr>ld_start = first, ld_end = 0, ld_list_head_offset = offset\<rparr>;
        Some (filter (IS_KVADDR cr) list_ptr) })"

section \<open>Tasks\<close>

definition process_step :: "crash \<Rightarrow> 'a plugin_scheme \<Rightarrow> ulong \<Rightarrow> ulong \<Rightarrow> ulong list \<Rightarrow> ulong list" where
  "process_step cr pl init_task task_addr res_list =
     (if task_addr = init_task then res_list
      else if read_pointer cr (task_addr + off (field_offset pl ''task_struct'' ''mm'')) True = 0 then res_list
      else if \<not> task_exists cr task_addr then res_list
      else if task_addr \<in> set res_list then res_list
      else res_list @ [task_addr])"

definition for_each_process :: "crash \<Rightarrow> 'a plugin_scheme \<Rightarrow> ulong list option" where
  "for_each_process cr pl = do {
     init_task \<leftarrow> symbol_value cr ''init_task'';
     let offset = field_offset pl ''task_struct'' ''tasks'';
     task_list \<leftarrow> for_each_list cr pl (init_task + off offset) offset;
     Some (fold (process_step cr pl init_task) task_list []) }"

definition for_each_threads :: "crash \<Rightarrow> ulong list option" where
  "for_each_threads cr =
     (if task_contexts cr = [] \<or> length (task_contexts cr) < RUNNING_TASKS cr then None
      else Some (tc_task (hd (task_contexts cr)) # map tc_task (take (RUNNING_TASKS cr) (task_contexts cr))))"

definition find_proc_pid :: "crash \<Rightarrow> 'a plugin_scheme \<Rightarrow> ulong \<Rightarrow> task_context option option" where
  "find_proc_pid cr pl pid =
     map_option (\<lambda>tasks. List.find (\<lambda>tc. tc_pid tc = pid) (List.map_filter (task_to_context cr) tasks))
       (for_each_process cr pl)"

definition find_proc_name :: "crash \<Rightarrow> 'a plugin_scheme \<Rightarrow> string \<Rightarrow> task_context option option" where
  "find_proc_name cr pl name =
     map_option (\<lambda>tasks. List.find (\<lambda>tc. tc_comm tc = name) (List.map_filter (task_to_context cr) tasks))
       (for_each_process cr pl)"

definition vm_next :: "crash \<Rightarrow> 'a plugin_scheme \<Rightarrow> ulong \<Rightarrow> ulong" where
  "vm_next cr pl vma_addr =
     read_pointer cr (vma_addr + off (field_offset pl ''vm_area_struct'' ''vm_next'')) True"

definition for_each_vma :: "crash \<Rightarrow> 'a plugin_scheme \<Rightarrow> ulong \<Rightarrow> ulong list option" where
  "for_each_vma cr pl task_addr =
     (let mm_addr = read_pointer cr (task_addr + off (field_offset pl ''task_struct'' ''mm'')) True in
      if \<not> IS_KVADDR cr mm_addr then Some []
      else if THIS_KERNEL_VERSION cr < LINUX 6 1 0
      then chain_walk (IS_KVADDR cr) (vm_next cr pl)
             (read_pointer cr (mm_addr + off (field_offset pl ''mm_struct'' ''mmap'')) True)
      else Some (for_each_mptree cr (mm_addr + off (field_offset pl ''mm_struct'' ''mm_mt''))))"

definition for_each_task_files :: "crash \<Rightarrow> 'a plugin_scheme \<Rightarrow> task_context option \<Rightarrow> ulong list" where
  "for_each_task_files cr pl tc =
     (case tc of None \<Rightarrow> []
      | Some tc \<Rightarrow>
          (let files = read_pointer cr (tc_task tc + off (field_offset pl ''task_struct'' ''files'')) True in
           if \<not> IS_KVADDR cr files then []
           else let fdt = read_pointer cr (files + off (field_offset pl ''files_struct'' ''fdt'')) True in
             if \<not> IS_KVADDR cr fdt then []
             else let max_fds = read_uint cr (fdt + off (field_offset pl ''fdtable'' ''max_fds'')) True;
                      fds = read_pointer cr (fdt + off (field_offset pl ''fdtable'' ''fd'')) True in
               if \<not> IS_KVADDR cr fds then []
               else map (\<lambda>i. let file_addr = read_pointer cr (fds + of_nat i * 8) True in
                              if \<not> IS_KVADDR cr file_addr then 0 else file_addr)
                      [0..<unat max_fds]))"

section \<open>Properties\<close>

text \<open>Of the mapped pages in use every one is a file page or an anonymous page and none is both: the
  two walks together visit exactly the frames whose page passes the common tests.\<close>

theorem file_anon_partition:
  "(file_page_of cr pl pfn = None \<or> anon_page_of cr pl pfn = None) \<and>
   ((\<exists>p. file_page_of cr pl pfn = Some p \<or> anon_page_of cr pl pfn = Some p) \<longleftrightarrow>
     (let page = pfn_to_page cr pfn in
      IS_KVADDR cr page \<and> \<not> page_buddy cr pl page \<and> page_count cr pl page \<noteq> 0 \<and>
      IS_KVADDR cr (read_pointer cr (page + off (field_offset pl ''page'' ''mapping'')) True)))"
proof -
  have "(m AND 1 = 1) \<noteq> (m AND 1 = 0)" for m :: ulong
    by (simp add: and_one_eq mod2_eq_if)
  then show ?thesis
    by (auto simp: file_page_of_def anon_page_of_def Let_def)
qed

lemma process_fold:
  assumes "distinct res"
  shows "distinct (fold (process_step cr pl i) ts res) \<and>
    set (fold (process_step cr pl i) ts res) = set res \<union>
      {t \<in> set ts. t \<noteq> i \<and> task_exists cr t \<and>
         read_pointer cr (t + off (field_offset pl ''task_struct'' ''mm'')) True \<noteq> 0}"
  using assms by (induction ts arbitrary: res) (auto simp: process_step_def)

text \<open>The processes are the listed tasks other than init\_task that crash knows and that have an
  address space, each once.\<close>

theorem for_each_process_spec:
  assumes "symbol_value cr ''init_task'' = Some init"
    and "for_each_list cr pl (init + off (field_offset pl ''task_struct'' ''tasks''))
           (field_offset pl ''task_struct'' ''tasks'') = Some tasks"
  shows "\<exists>ps. for_each_process cr pl = Some ps \<and> distinct ps \<and>
    set ps = {t \<in> set tasks. t \<noteq> init \<and> task_exists cr t \<and>
       read_pointer cr (t + off (field_offset pl ''task_struct'' ''mm'')) True \<noteq> 0}"
  using process_fold [of "[]" cr pl init tasks] assms by (simp add: for_each_process_def Let_def)

text \<open>
  The VMAs of a dump: the pointer stored at \<open>a\<close> names the first, the pointer at offset \<open>next\<close> of each names
  the one after it, and the last of these pointers is not a kernel address.
\<close>

definition stores_ptr :: "crash \<Rightarrow> ulong \<Rightarrow> ulong \<Rightarrow> bool" where
  "stores_ptr cr a p \<longleftrightarrow> readmem cr KVADDR a 8 = Some (le_bytes 8 (unat p))"

fun linked_from :: "crash \<Rightarrow> int \<Rightarrow> ulong \<Rightarrow> ulong list \<Rightarrow> bool" where
  "linked_from cr next a [] = (\<exists>p. stores_ptr cr a p \<and> \<not> IS_KVADDR cr p)"
| "linked_from cr next a (v # vs) = (stores_ptr cr a v \<and> IS_KVADDR cr v \<and> linked_from cr next (v + off next) vs)"

lemma read_pointer_stores: "stores_ptr cr a p \<Longrightarrow> read_pointer cr a True = p"
proof -
  have "unat p < 256 ^ 8" using unat_less_power [of p] by simp
  then show "stores_ptr cr a p \<Longrightarrow> read_pointer cr a True = p"
    by (simp add: stores_ptr_def read_pointer_def read_memory_def le_nat_le_bytes)
qed

lemma vm_next_stores:
  "stores_ptr cr (v + off (field_offset pl ''vm_area_struct'' ''vm_next'')) w \<Longrightarrow> vm_next cr pl v = w"
  by (simp add: vm_next_def read_pointer_stores)

lemma linked_from_chain:
  "linked_from cr (field_offset pl ''vm_area_struct'' ''vm_next'') a vs \<Longrightarrow>
     chain (IS_KVADDR cr) (vm_next cr pl) (read_pointer cr a True) vs"
proof (induction vs arbitrary: a)
  case Nil
  then show ?case by (auto simp: read_pointer_stores)
next
  case (Cons v vs)
  then have "chain (IS_KVADDR cr) (vm_next cr pl) (vm_next cr pl v) vs" unfolding vm_next_def by simp
  with Cons.prems show ?case by (auto simp: read_pointer_stores)
qed

lemma vm_next_orbit:
  assumes "v \<in> S" "\<forall>v \<in> S. IS_KVADDR cr v \<and>
      (\<exists>w \<in> S. stores_ptr cr (v + off (field_offset pl ''vm_area_struct'' ''vm_next'')) w)"
  shows "(vm_next cr pl ^^ n) v \<in> S"
proof (induction n)
  case (Suc n)
  then obtain w where "w \<in> S"
    "stores_ptr cr ((vm_next cr pl ^^ n) v + off (field_offset pl ''vm_area_struct'' ''vm_next'')) w"
    using assms(2) by blast
  then show ?case by (simp add: vm_next_stores)
qed (use assms(1) in simp)

text \<open>C37. On a kernel before 6.1, where the VMAs of a task are a list, the walk returns the VMAs of the task's
  address space in the order of their \<open>vm_next\<close> pointers, from the \<open>mmap\<close> pointer on, none twice; when the
  pointers stay within a set of VMAs, as on a cycle, it does not return.\<close>

theorem for_each_vma_chain:
  assumes "THIS_KERNEL_VERSION cr < LINUX 6 1 0"
    and "stores_ptr cr (task + off (field_offset pl ''task_struct'' ''mm'')) mm" "IS_KVADDR cr mm"
  shows "(\<forall>vs. linked_from cr (field_offset pl ''vm_area_struct'' ''vm_next'')
        (mm + off (field_offset pl ''mm_struct'' ''mmap'')) vs \<longrightarrow> for_each_vma cr pl task = Some vs \<and> distinct vs) \<and>
    (\<forall>S v. stores_ptr cr (mm + off (field_offset pl ''mm_struct'' ''mmap'')) v \<longrightarrow> v \<in> S \<longrightarrow>
       (\<forall>v \<in> S. IS_KVADDR cr v \<and>
          (\<exists>w \<in> S. stores_ptr cr (v + off (field_offset pl ''vm_area_struct'' ''vm_next'')) w)) \<longrightarrow>
       for_each_vma cr pl task = None)"
proof (intro conjI allI impI)
  let ?first = "read_pointer cr (mm + off (field_offset pl ''mm_struct'' ''mmap'')) True"
  have w: "for_each_vma cr pl task = chain_walk (IS_KVADDR cr) (vm_next cr pl) ?first"
    using assms by (simp add: for_each_vma_def read_pointer_stores)
  fix vs
  assume l: "linked_from cr (field_offset pl ''vm_area_struct'' ''vm_next'')
     (mm + off (field_offset pl ''mm_struct'' ''mmap'')) vs"
  show "for_each_vma cr pl task = Some vs" using linked_from_chain [OF l] w by (simp add: chain_walk_of_chain)
  show "distinct vs" using linked_from_chain [OF l] by (rule chain_distinct)
next
  fix S v
  assume v: "stores_ptr cr (mm + off (field_offset pl ''mm_struct'' ''mmap'')) v" "v \<in> S"
    and S: "\<forall>v \<in> S. IS_KVADDR cr v \<and>
      (\<exists>w \<in> S. stores_ptr cr (v + off (field_offset pl ''vm_area_struct'' ''vm_next'')) w)"
  then have "\<forall>n. IS_KVADDR cr ((vm_next cr pl ^^ n) v)" using vm_next_orbit [OF v(2) S] by blast
  then show "for_each_vma cr pl task = None"
    using assms v(1) chain_walk_returns_iff [of "IS_KVADDR cr" "vm_next cr pl" v]
    by (simp add: for_each_vma_def read_pointer_stores)
qed

text \<open>The thread walk lists crash's contexts in their order, with the first context in front of them
  once more.\<close>

theorem for_each_threads_first_twice:
  assumes "for_each_threads cr = Some ts" "0 < RUNNING_TASKS cr"
  shows "ts = tc_task (hd (task_contexts cr)) # map tc_task (take (RUNNING_TASKS cr) (task_contexts cr)) \<and>
     length ts = Suc (RUNNING_TASKS cr) \<and> ts ! 0 = ts ! 1 \<and> \<not> distinct ts"
proof -
  from assms obtain c cs where cs: "task_contexts cr = c # cs" and n: "RUNNING_TASKS cr \<le> Suc (length cs)"
    by (cases "task_contexts cr") (auto simp: for_each_threads_def split: if_splits)
  obtain n where rt: "RUNNING_TASKS cr = Suc n" using assms(2) gr0_implies_Suc by blast
  show ?thesis using assms n by (auto simp: for_each_threads_def cs rt split: if_splits)
qed

text \<open>The file table of a task has one entry per descriptor slot, the file or 0.\<close>

theorem for_each_task_files_slots:
  assumes "for_each_task_files cr pl (Some tc) \<noteq> []"
  shows "let files = read_pointer cr (tc_task tc + off (field_offset pl ''task_struct'' ''files'')) True;
      fdt = read_pointer cr (files + off (field_offset pl ''files_struct'' ''fdt'')) True;
      fds = read_pointer cr (fdt + off (field_offset pl ''fdtable'' ''fd'')) True in
     length (for_each_task_files cr pl (Some tc)) =
       unat (read_uint cr (fdt + off (field_offset pl ''fdtable'' ''max_fds'')) True) \<and>
     (\<forall>i < length (for_each_task_files cr pl (Some tc)).
        for_each_task_files cr pl (Some tc) ! i =
          (if IS_KVADDR cr (read_pointer cr (fds + of_nat i * 8) True)
           then read_pointer cr (fds + of_nat i * 8) True else 0))"
proof -
  define files where "files = read_pointer cr (tc_task tc + off (field_offset pl ''task_struct'' ''files'')) True"
  define fdt where "fdt = read_pointer cr (files + off (field_offset pl ''files_struct'' ''fdt'')) True"
  define fds where "fds = read_pointer cr (fdt + off (field_offset pl ''fdtable'' ''fd'')) True"
  have eq: "for_each_task_files cr pl (Some tc) =
      map (\<lambda>i. let file_addr = read_pointer cr (fds + of_nat i * 8) True in
              if \<not> IS_KVADDR cr file_addr then 0 else file_addr)
        [0..<unat (read_uint cr (fdt + off (field_offset pl ''fdtable'' ''max_fds'')) True)]"
    using assms by (simp add: for_each_task_files_def Let_def files_def fdt_def fds_def split: if_splits)
  show ?thesis
    by (simp add: Let_def files_def [symmetric] fdt_def [symmetric] fds_def [symmetric]) (simp add: eq Let_def)
qed

subsection \<open>Examples\<close>

text \<open>A session in which every read gives the same eight bytes, and a table with one offset.\<close>

definition ones_session :: crash where
  "ones_session = empty_session\<lparr>readmem := \<lambda>t a n. Some [1, 0, 0, 0, 0, 0, 255, 255],
     IS_KVADDR := \<lambda>a. a \<noteq> 0, empty_list := \<lambda>_. False, task_exists := \<lambda>_. True,
     symbol_value := \<lambda>_. Some 8, do_list := \<lambda>_. Some [7, 8, 9, 7]\<rparr>"

definition small_plugin :: plugin where
  "small_plugin = \<lparr>typetable = [''list_head@next'' \<mapsto> \<lparr>m_name = ''n'', m_size = 8, m_offset = 0\<rparr>], kaddr_mask = 0\<rparr>"

lemma for_each_list_example:
  "for_each_list ones_session small_plugin h o' = (if h = 0 \<or> h = 0xffff000000000001 then Some [] else Some [7, 8, 9, 7])"
  by (simp add: for_each_list_def ones_session_def small_plugin_def read_struct_def type_size_def
      type_offset_def ULONG_def load_def empty_session_def)

lemma for_each_process_spec_witness:
  "symbol_value ones_session ''init_task'' = Some 8 \<and>
   (\<exists>ps. for_each_process ones_session small_plugin = Some ps \<and> distinct ps \<and>
     set ps = {t \<in> set [7, 8, 9, 7]. t \<noteq> 8 \<and> task_exists ones_session t \<and>
       read_pointer ones_session (t + off (field_offset small_plugin ''task_struct'' ''mm'')) True \<noteq> 0})"
proof
  show s: "symbol_value ones_session ''init_task'' = Some 8" by (simp add: ones_session_def)
  have "field_offset small_plugin ''task_struct'' ''tasks'' = -1"
    by (simp add: type_offset_def small_plugin_def)
  then have "for_each_list ones_session small_plugin (8 + off (field_offset small_plugin ''task_struct'' ''tasks''))
      (field_offset small_plugin ''task_struct'' ''tasks'') = Some [7, 8, 9, 7]"
    by (simp add: for_each_list_example)
  from for_each_process_spec [OF s this]
  show "\<exists>ps. for_each_process ones_session small_plugin = Some ps \<and> distinct ps \<and>
     set ps = {t \<in> set [7, 8, 9, 7]. t \<noteq> 8 \<and> task_exists ones_session t \<and>
       read_pointer ones_session (t + off (field_offset small_plugin ''task_struct'' ''mm'')) True \<noteq> 0}" .
qed

text \<open>A task at 0x10 whose address space at 0x100 has two VMAs, at 0x200 and 0x300, and one whose only VMA,
  at 0x400, follows itself.\<close>

definition mm_session :: crash where
  "mm_session = empty_session\<lparr>THIS_KERNEL_VERSION := LINUX 5 15 0, IS_KVADDR := \<lambda>a. 0x100 \<le> a,
     readmem := \<lambda>t a n. if n = 8 then map_option (le_bytes 8) (map_of
       [(0x18, 0x100), (0x104, 0x200), (0x210, 0x300), (0x310, 0), (0x28, 0x180), (0x184, 0x400), (0x410, 0x400)] a) else None\<rparr>"

definition mm_plugin :: plugin where
  "mm_plugin = \<lparr>typetable = [''task_struct@mm'' \<mapsto> \<lparr>m_name = '''', m_size = 8, m_offset = 8\<rparr>,
     ''mm_struct@mmap'' \<mapsto> \<lparr>m_name = '''', m_size = 8, m_offset = 4\<rparr>,
     ''vm_area_struct@vm_next'' \<mapsto> \<lparr>m_name = '''', m_size = 8, m_offset = 16\<rparr>], kaddr_mask = 0\<rparr>"

lemma mm_offsets:
  "field_offset mm_plugin ''task_struct'' ''mm'' = 8" "field_offset mm_plugin ''mm_struct'' ''mmap'' = 4"
  "field_offset mm_plugin ''vm_area_struct'' ''vm_next'' = 16"
  by (simp_all add: type_offset_def mm_plugin_def)

lemma for_each_vma_chain_witness:
  "for_each_vma mm_session mm_plugin 0x10 = Some [0x200, 0x300] \<and> for_each_vma mm_session mm_plugin 0x20 = None"
proof
  have v: "THIS_KERNEL_VERSION mm_session < LINUX 6 1 0" by (simp add: mm_session_def LINUX_def)
  have p: "stores_ptr mm_session 0x18 0x100" "stores_ptr mm_session 0x104 0x200" "stores_ptr mm_session 0x210 0x300"
    "stores_ptr mm_session 0x310 0" "stores_ptr mm_session 0x28 0x180" "stores_ptr mm_session 0x184 0x400"
    "stores_ptr mm_session 0x410 0x400" "IS_KVADDR mm_session a \<longleftrightarrow> 0x100 \<le> a" for a
    by (simp_all add: mm_session_def stores_ptr_def)
  have "linked_from mm_session 16 0x104 [0x200, 0x300]" using p(4) by (auto simp: p(1-3) p(8))
  then show "for_each_vma mm_session mm_plugin 0x10 = Some [0x200, 0x300]"
    using for_each_vma_chain [OF v, of "0x10" mm_plugin "0x100"] p by (simp add: mm_offsets)
  show "for_each_vma mm_session mm_plugin 0x20 = None"
    using conjunct2 [OF for_each_vma_chain [OF v, of "0x20" mm_plugin "0x180"], rule_format, of "0x400" "{0x400}"] p
    by (simp add: mm_offsets)
qed

definition two_task_session :: crash where
  "two_task_session = empty_session\<lparr>RUNNING_TASKS := 2, task_contexts :=
     [\<lparr>tc_task = 5, tc_thread_info = 0, tc_pid = 0, tc_comm = ''swapper/0'', tc_mm_struct = 0\<rparr>,
      \<lparr>tc_task = 6, tc_thread_info = 0, tc_pid = 1, tc_comm = ''init'', tc_mm_struct = 0\<rparr>]\<rparr>"

lemma for_each_threads_first_twice_witness:
  "for_each_threads two_task_session = Some [5, 5, 6] \<and> \<not> distinct [5, 5, 6 :: ulong]"
proof -
  have "for_each_threads two_task_session = Some [5, 5, 6]"
    by (simp add: for_each_threads_def two_task_session_def)
  then show ?thesis
    using for_each_threads_first_twice [of two_task_session "[5, 5, 6]"]
    by (simp add: two_task_session_def)
qed

lemma for_each_task_files_slots_witness:
  "let tc = hd (task_contexts two_task_session) in
   for_each_task_files ones_session small_plugin (Some tc) \<noteq> [] \<and>
   length (for_each_task_files ones_session small_plugin (Some tc)) = 1"
proof -
  define tc where "tc = hd (task_contexts two_task_session)"
  have rp: "read_pointer ones_session a True = 0xffff000000000001" for a
    by (simp add: read_pointer_def read_memory_def ones_session_def)
  have ru: "read_uint ones_session a True = 1" for a
    by (simp add: read_uint_def read_memory_def ones_session_def)
  have "for_each_task_files ones_session small_plugin (Some tc) \<noteq> []"
    by (simp add: for_each_task_files_def rp ru Let_def) (simp add: ones_session_def)
  then show ?thesis
    using for_each_task_files_slots [of ones_session small_plugin tc]
    by (simp add: ru Let_def tc_def [symmetric])
qed

end
