(* ===== verification/Devices.thy ===== *)
theory Devices
  imports Walk
begin

text \<open>
  The device-model walks of ParserPlugin (\<^verbatim>\<open>src/plugin.cpp\<close>): character devices, the probe tables
  of \<^verbatim>\<open>kobj_map\<close>, block devices and disks, classes, buses, their devices and drivers. The walks that
  call \<^verbatim>\<open>field_init\<close> themselves change the plugin's type table and return it.
\<close>

section \<open>Chained tables\<close>

text \<open>Runs an option-valued walk on each element of a table and joins what they find.\<close>

fun concat_walks :: "('b \<Rightarrow> 'c list option) \<Rightarrow> 'b list \<Rightarrow> 'c list option" where
  "concat_walks f [] = Some []"
| "concat_walks f (x # xs) = do { ys \<leftarrow> f x; rest \<leftarrow> concat_walks f xs; Some (ys @ rest) }"

definition chardev_next :: "crash \<Rightarrow> 'a plugin_scheme \<Rightarrow> ulong \<Rightarrow> ulong" where
  "chardev_next cr pl a = read_pointer cr (a + off (field_offset pl ''char_device_struct'' ''next'')) True"

definition chardev_bucket :: "crash \<Rightarrow> 'a plugin_scheme \<Rightarrow> ulong \<Rightarrow> nat \<Rightarrow> ulong list option" where
  "chardev_bucket cr pl devs_addr i =
     (let chardev_addr = read_pointer cr (devs_addr + of_nat i * 8) True in
      if \<not> IS_KVADDR cr chardev_addr then Some []
      else chain_walk (IS_KVADDR cr) (chardev_next cr pl) chardev_addr)"

definition for_each_char_device :: "crash \<Rightarrow> 'a plugin_scheme \<Rightarrow> ulong list option" where
  "for_each_char_device cr pl =
     (if \<not> symbol_exists cr ''chrdevs'' then Some []
      else do {
        let len = nat (get_array_length cr ''chrdevs'');
        devs_addr \<leftarrow> symbol_value cr ''chrdevs'';
        concat_walks (chardev_bucket cr pl devs_addr) [0..<len] })"

definition probe_next :: "crash \<Rightarrow> 'a plugin_scheme \<Rightarrow> ulong \<Rightarrow> ulong" where
  "probe_next cr pl a = read_pointer cr (a + off (field_offset pl ''probe'' ''next'')) True"

definition probe_data :: "crash \<Rightarrow> 'a plugin_scheme \<Rightarrow> ulong \<Rightarrow> ulong" where
  "probe_data cr pl a = read_pointer cr (a + off (field_offset pl ''probe'' ''data'')) True"

definition probe_bucket :: "crash \<Rightarrow> 'a plugin_scheme \<Rightarrow> ulong \<Rightarrow> nat \<Rightarrow> ulong list option" where
  "probe_bucket cr pl map_addr i =
     (let probe_addr = read_pointer cr (map_addr + of_nat i * 8) True in
      if \<not> IS_KVADDR cr probe_addr then Some []
      else map_option (\<lambda>ps. filter (IS_KVADDR cr) (map (probe_data cr pl) ps))
             (chain_walk (IS_KVADDR cr) (probe_next cr pl) probe_addr))"

definition for_each_kobj_map ::
  "crash \<Rightarrow> 'a plugin_scheme \<Rightarrow> string \<Rightarrow> ('a plugin_scheme \<times> ulong list) option" where
  "for_each_kobj_map cr pl map_name =
     (if \<not> symbol_exists cr map_name then Some (pl, [])
      else do {
        let pl = run_inits cr [Field ''kobj_map'' ''probes'', Field ''probe'' ''data'', Field ''probe'' ''next''] pl;
        let len = unat (off (field_size pl ''kobj_map'' ''probes'') div 8);
        sym \<leftarrow> symbol_value cr map_name;
        let map_addr = read_pointer cr sym True;
        if \<not> IS_KVADDR cr map_addr then Some (pl, [])
        else do {
          dev_list \<leftarrow> concat_walks (probe_bucket cr pl map_addr) [0..<len];
          Some (pl, dev_list) } })"

definition for_each_cdev :: "crash \<Rightarrow> 'a plugin_scheme \<Rightarrow> ('a plugin_scheme \<times> ulong list) option" where
  "for_each_cdev cr pl = for_each_kobj_map cr pl ''cdev_map''"

definition get_disk_by_bdevmap :: "crash \<Rightarrow> 'a plugin_scheme \<Rightarrow> ('a plugin_scheme \<times> ulong list) option" where
  "get_disk_by_bdevmap cr pl = for_each_kobj_map cr pl ''bdev_map''"

section \<open>Classes and buses\<close>

text \<open>
  The subsystems of a kset: the list of its kobjects, for each of them the enclosing
  \<^verbatim>\<open>subsys_private\<close> and the class or bus it points to; invalid addresses are skipped.
\<close>

definition subsys_of_kobject :: "crash \<Rightarrow> 'a plugin_scheme \<Rightarrow> string \<Rightarrow> ulong \<Rightarrow> (ulong \<times> ulong) option" where
  "subsys_of_kobject cr pl member kobject_addr =
     (let kset_addr = kobject_addr - off (field_offset pl ''kset'' ''kobj'') in
      if \<not> IS_KVADDR cr kset_addr then None
      else let subsys_addr = kset_addr - off (field_offset pl ''subsys_private'' ''subsys'') in
        if \<not> IS_KVADDR cr subsys_addr then None
        else let target = read_pointer cr (subsys_addr + off (field_offset pl ''subsys_private'' member)) True in
          if \<not> IS_KVADDR cr target then None else Some (subsys_addr, target))"

definition kset_subsystems ::
  "crash \<Rightarrow> 'a plugin_scheme \<Rightarrow> string \<Rightarrow> string \<Rightarrow> (ulong \<times> ulong) list option" where
  "kset_subsystems cr pl kset_sym member =
     (if \<not> symbol_exists cr kset_sym then Some []
      else do {
        sym \<leftarrow> symbol_value cr kset_sym;
        let kset_addr = read_pointer cr sym True;
        if \<not> IS_KVADDR cr kset_addr then Some []
        else do {
          kobjs \<leftarrow> for_each_list cr pl (kset_addr + off (field_offset pl ''kset'' ''list''))
                     (field_offset pl ''kobject'' ''entry'');
          Some (List.map_filter (subsys_of_kobject cr pl member) kobjs) } })"

definition for_each_class :: "crash \<Rightarrow> 'a plugin_scheme \<Rightarrow> ulong list option" where
  "for_each_class cr pl = map_option (map snd) (kset_subsystems cr pl ''class_kset'' ''class'')"

definition for_each_bus :: "crash \<Rightarrow> 'a plugin_scheme \<Rightarrow> ulong list option" where
  "for_each_bus cr pl = map_option (map snd) (kset_subsystems cr pl ''bus_kset'' ''bus'')"

text \<open>
  The search for a class or bus by name: the first subsystem whose name, read in a buffer of
  \<open>len\<close> bytes, is the wanted one gives its private part.
\<close>

fun find_subsys ::
  "crash \<Rightarrow> 'a plugin_scheme \<Rightarrow> string \<Rightarrow> int \<Rightarrow> string \<Rightarrow> (ulong \<times> ulong) list \<Rightarrow> ulong option" where
  "find_subsys cr pl type len wanted [] = Some 0"
| "find_subsys cr pl type len wanted ((subsys_addr, target) # rest) = do {
     let name_addr = read_pointer cr (target + off (field_offset pl type ''name'')) True;
     name \<leftarrow> (if IS_KVADDR cr name_addr then read_cstring cr name_addr len True else Some '''');
     if name = '''' \<or> name \<noteq> wanted then find_subsys cr pl type len wanted rest
     else if field_offset pl type ''p'' \<noteq> -1
     then Some (read_pointer cr (target + off (field_offset pl type ''p'')) True)
     else Some subsys_addr }"

definition get_class_subsys_private :: "crash \<Rightarrow> 'a plugin_scheme \<Rightarrow> string \<Rightarrow> ulong option" where
  "get_class_subsys_private cr pl class_name = do {
     subs \<leftarrow> kset_subsystems cr pl ''class_kset'' ''class'';
     find_subsys cr pl ''class'' 64 class_name subs }"

definition get_bus_subsys_private :: "crash \<Rightarrow> 'a plugin_scheme \<Rightarrow> string \<Rightarrow> ulong option" where
  "get_bus_subsys_private cr pl bus_name = do {
     subs \<leftarrow> kset_subsystems cr pl ''bus_kset'' ''bus'';
     find_subsys cr pl ''bus_type'' 16 bus_name subs }"

definition device_of_node :: "crash \<Rightarrow> 'a plugin_scheme \<Rightarrow> string \<Rightarrow> ulong \<Rightarrow> ulong option" where
  "device_of_node cr pl knode node =
     (if \<not> IS_KVADDR cr node then None
      else let private_addr = node - off (field_offset pl ''device_private'' knode) in
        if \<not> IS_KVADDR cr private_addr then None
        else let device_addr = read_pointer cr (private_addr + off (field_offset pl ''device_private'' ''device'')) True in
          if \<not> IS_KVADDR cr device_addr then None else Some device_addr)"

definition klist_nodes :: "crash \<Rightarrow> 'a plugin_scheme \<Rightarrow> ulong \<Rightarrow> string \<Rightarrow> string \<Rightarrow> ulong list option" where
  "klist_nodes cr pl private_addr type klist =
     for_each_list cr pl
       (private_addr + off (field_offset pl type klist) + off (field_offset pl ''klist'' ''k_list''))
       (field_offset pl ''klist_node'' ''n_node'')"

definition for_each_device_for_class :: "crash \<Rightarrow> 'a plugin_scheme \<Rightarrow> string \<Rightarrow> ulong list option" where
  "for_each_device_for_class cr pl class_name = do {
     private_addr \<leftarrow> get_class_subsys_private cr pl class_name;
     if \<not> IS_KVADDR cr private_addr then Some []
     else do {
       nodes \<leftarrow> klist_nodes cr pl private_addr ''subsys_private'' ''klist_devices'';
       Some (List.map_filter (device_of_node cr pl ''knode_class'') nodes) } }"

definition for_each_device_for_bus :: "crash \<Rightarrow> 'a plugin_scheme \<Rightarrow> string \<Rightarrow> ulong list option" where
  "for_each_device_for_bus cr pl bus_name = do {
     private_addr \<leftarrow> get_bus_subsys_private cr pl bus_name;
     if \<not> IS_KVADDR cr private_addr then Some []
     else do {
       nodes \<leftarrow> klist_nodes cr pl private_addr ''subsys_private'' ''klist_devices'';
       Some (List.map_filter (device_of_node cr pl ''knode_bus'') nodes) } }"

text \<open>The driver's own walk does not test the node itself; the list walk already has.\<close>

definition device_of_driver_node :: "crash \<Rightarrow> 'a plugin_scheme \<Rightarrow> ulong \<Rightarrow> ulong option" where
  "device_of_driver_node cr pl kobject_addr =
     (let device_private_addr = kobject_addr - off (field_offset pl ''device_private'' ''knode_driver'') in
      if \<not> IS_KVADDR cr device_private_addr then None
      else let device_addr =
             read_pointer cr (device_private_addr + off (field_offset pl ''device_private'' ''device'')) True in
        if \<not> IS_KVADDR cr device_addr then None else Some device_addr)"

definition for_each_device_for_driver :: "crash \<Rightarrow> 'a plugin_scheme \<Rightarrow> ulong \<Rightarrow> ulong list option" where
  "for_each_device_for_driver cr pl driver_addr =
     (if \<not> IS_KVADDR cr driver_addr then Some []
      else do {
        let driver_private_addr = read_pointer cr (driver_addr + off (field_offset pl ''device_driver'' ''p'')) True;
        nodes \<leftarrow> klist_nodes cr pl driver_private_addr ''driver_private'' ''klist_devices'';
        Some (List.map_filter (device_of_driver_node cr pl) nodes) })"

definition driver_of_node :: "crash \<Rightarrow> 'a plugin_scheme \<Rightarrow> ulong \<Rightarrow> ulong option" where
  "driver_of_node cr pl node =
     (if \<not> IS_KVADDR cr node then None
      else let driver_private_addr = node - off (field_offset pl ''driver_private'' ''knode_bus'') in
        if \<not> IS_KVADDR cr driver_private_addr then None
        else let driver_addr =
               read_pointer cr (driver_private_addr + off (field_offset pl ''driver_private'' ''driver'')) True in
          if \<not> IS_KVADDR cr driver_addr then None else Some driver_addr)"

definition for_each_driver :: "crash \<Rightarrow> 'a plugin_scheme \<Rightarrow> string \<Rightarrow> ulong list option" where
  "for_each_driver cr pl bus_name = do {
     private_addr \<leftarrow> get_bus_subsys_private cr pl bus_name;
     if \<not> IS_KVADDR cr private_addr then Some []
     else do {
       nodes \<leftarrow> klist_nodes cr pl private_addr ''subsys_private'' ''klist_drivers'';
       Some (List.map_filter (driver_of_node cr pl) nodes) } }"

section \<open>Block devices and disks\<close>

definition get_block_device_by_bdevs ::
  "crash \<Rightarrow> 'a plugin_scheme \<Rightarrow> ('a plugin_scheme \<times> ulong list) option" where
  "get_block_device_by_bdevs cr pl =
     (if \<not> symbol_exists cr ''all_bdevs'' then Some (pl, [])
      else do {
        let pl = field_init cr ''block_device'' ''bd_list'' pl;
        sym \<leftarrow> symbol_value cr ''all_bdevs'';
        addrs \<leftarrow> for_each_list cr pl sym (field_offset pl ''block_device'' ''bd_list'');
        Some (pl, filter (IS_KVADDR cr) addrs) })"

definition get_block_device_by_class ::
  "crash \<Rightarrow> 'a plugin_scheme \<Rightarrow> ('a plugin_scheme \<times> ulong list) option" where
  "get_block_device_by_class cr pl = do {
     let pl = field_init cr ''block_device'' ''bd_device'' pl;
     if field_offset pl ''block_device'' ''bd_device'' = -1 then Some (pl, [])
     else do {
       devs \<leftarrow> for_each_device_for_class cr pl ''block'';
       Some (pl, filter (IS_KVADDR cr) (map (\<lambda>a. a - off (field_offset pl ''block_device'' ''bd_device'')) devs)) } }"

definition get_block_device_by_bdevfs ::
  "crash \<Rightarrow> 'a plugin_scheme \<Rightarrow> ('a plugin_scheme \<times> ulong list) option" where
  "get_block_device_by_bdevfs cr pl =
     (if \<not> symbol_exists cr ''blockdev_superblock'' then Some (pl, [])
      else do {
        let pl = run_inits cr [Field ''super_block'' ''s_inodes'', Field ''inode'' ''i_sb_list'',
                   Field ''bdev_inode'' ''vfs_inode'', Field ''bdev_inode'' ''bdev''] pl;
        sym \<leftarrow> symbol_value cr ''blockdev_superblock'';
        let sb_addr = read_pointer cr sym True;
        addrs \<leftarrow> for_each_list cr pl (sb_addr + off (field_offset pl ''super_block'' ''s_inodes''))
                   (field_offset pl ''inode'' ''i_sb_list'');
        Some (pl, filter (IS_KVADDR cr)
               (map (\<lambda>a. a - off (field_offset pl ''bdev_inode'' ''vfs_inode'')
                           + off (field_offset pl ''bdev_inode'' ''bdev'')) addrs)) })"

definition for_each_block_device ::
  "crash \<Rightarrow> 'a plugin_scheme \<Rightarrow> ('a plugin_scheme \<times> ulong list) option" where
  "for_each_block_device cr pl = do {
     (pl, dev_list) \<leftarrow> get_block_device_by_bdevs cr pl;
     if length dev_list = 0 then get_block_device_by_class cr pl
     else if length dev_list = 0 then get_block_device_by_bdevfs cr pl
     else Some (pl, dev_list) }"

definition get_disk_by_block_device ::
  "crash \<Rightarrow> 'a plugin_scheme \<Rightarrow> ('a plugin_scheme \<times> ulong list) option" where
  "get_disk_by_block_device cr pl = do {
     let pl = field_init cr ''block_device'' ''bd_disk'' pl;
     if field_offset pl ''block_device'' ''bd_disk'' = -1 then Some (pl, [])
     else do {
       (pl, addrs) \<leftarrow> for_each_block_device cr pl;
       Some (pl, filter (IS_KVADDR cr)
              (map (\<lambda>a. read_pointer cr (a + off (field_offset pl ''block_device'' ''bd_disk'')) True) addrs)) } }"

definition for_each_disk :: "crash \<Rightarrow> 'a plugin_scheme \<Rightarrow> ('a plugin_scheme \<times> ulong list) option" where
  "for_each_disk cr pl = do {
     (pl, dev_list) \<leftarrow> get_disk_by_bdevmap cr pl;
     if length dev_list = 0 then get_disk_by_block_device cr pl else Some (pl, dev_list) }"

definition for_each_misc_device :: "crash \<Rightarrow> 'a plugin_scheme \<Rightarrow> ulong list option" where
  "for_each_misc_device cr pl =
     (if \<not> symbol_exists cr ''misc_list'' then Some []
      else do {
        sym \<leftarrow> symbol_value cr ''misc_list'';
        addrs \<leftarrow> for_each_list cr pl sym (field_offset pl ''miscdevice'' ''list'');
        Some (filter (IS_KVADDR cr) addrs) })"

section \<open>Laws\<close>

lemma concat_walks_eq_Some:
  "concat_walks f xs = Some ys \<longleftrightarrow> (\<exists>yss. list_all2 (\<lambda>x zs. f x = Some zs) xs yss \<and> ys = concat yss)"
proof (induction xs arbitrary: ys)
  case Nil
  then show ?case by auto
next
  case (Cons x xs)
  show ?case
    by (auto simp: bind_eq_Some_conv Cons.IH list_all2_Cons1) (metis concat.simps(2))
qed

lemma concat_walks_returns: "(\<exists>ys. concat_walks f xs = Some ys) \<longleftrightarrow> (\<forall>x \<in> set xs. \<exists>zs. f x = Some zs)"
  by (induction xs) (auto simp: bind_eq_Some_conv)

lemma concat_walks_set:
  "concat_walks f xs = Some ys \<Longrightarrow> y \<in> set ys \<Longrightarrow> \<exists>x \<in> set xs. \<exists>zs. f x = Some zs \<and> y \<in> set zs"
  by (induction xs arbitrary: ys) (auto simp: bind_eq_Some_conv)

lemma map_filter_kv:
  "(\<And>x y. f x = Some y \<Longrightarrow> P y) \<Longrightarrow> \<forall>y \<in> set (List.map_filter f xs). P y"
  by (auto simp: List.map_filter_def)

lemma chardev_bucket_returns:
  "(\<exists>zs. chardev_bucket cr pl a i = Some zs) \<longleftrightarrow>
     (\<exists>n. \<not> IS_KVADDR cr ((chardev_next cr pl ^^ n) (read_pointer cr (a + of_nat i * 8) True)))"
proof (cases "IS_KVADDR cr (read_pointer cr (a + of_nat i * 8) True)")
  case True
  then show ?thesis by (simp add: chardev_bucket_def Let_def chain_walk_returns_iff)
next
  case False
  then have "\<not> IS_KVADDR cr ((chardev_next cr pl ^^ 0) (read_pointer cr (a + of_nat i * 8) True))" by simp
  then have "\<exists>n. \<not> IS_KVADDR cr ((chardev_next cr pl ^^ n) (read_pointer cr (a + of_nat i * 8) True))" by blast
  with False show ?thesis by (simp add: chardev_bucket_def Let_def)
qed

lemma chardev_bucket_kv: "chardev_bucket cr pl a i = Some zs \<Longrightarrow> \<forall>z \<in> set zs. IS_KVADDR cr z"
  by (auto simp: chardev_bucket_def Let_def chain_walk_eq_Some split: if_splits dest: chain_live)

text \<open>The character devices are listed exactly when every bucket's chain leaves the kernel
  addresses; one cyclic bucket keeps the walk from returning. Only kernel addresses are listed.\<close>

theorem for_each_char_device_returns:
  assumes "symbol_exists cr ''chrdevs''" "symbol_value cr ''chrdevs'' = Some devs"
  shows "((\<exists>ds. for_each_char_device cr pl = Some ds) \<longleftrightarrow>
       (\<forall>i < nat (get_array_length cr ''chrdevs''). \<exists>n. \<not> IS_KVADDR cr
          ((chardev_next cr pl ^^ n) (read_pointer cr (devs + of_nat i * 8) True)))) \<and>
     (\<forall>ds. for_each_char_device cr pl = Some ds \<longrightarrow> (\<forall>d \<in> set ds. IS_KVADDR cr d))"
proof -
  have eq: "for_each_char_device cr pl =
      concat_walks (chardev_bucket cr pl devs) [0..<nat (get_array_length cr ''chrdevs'')]"
    using assms by (simp add: for_each_char_device_def Let_def)
  have "\<forall>d \<in> set ds. IS_KVADDR cr d" if "for_each_char_device cr pl = Some ds" for ds
    using that concat_walks_set [of "chardev_bucket cr pl devs"] chardev_bucket_kv unfolding eq by metis
  then show ?thesis
    unfolding eq concat_walks_returns by (auto simp: chardev_bucket_returns)
qed

lemma for_each_char_device_returns_witness:
  "let cr = empty_session\<lparr>symbol_exists := \<lambda>_. True, symbol_value := \<lambda>_. Some 0xffff000000001000,
     get_array_length := \<lambda>_. 255\<rparr> in \<exists>ds. for_each_char_device cr small_plugin = Some ds"
proof -
  define cr where "cr = empty_session\<lparr>symbol_exists := \<lambda>_. True, symbol_value := \<lambda>_. Some 0xffff000000001000,
     get_array_length := \<lambda>_. 255\<rparr>"
  have "\<exists>n. \<not> IS_KVADDR cr ((chardev_next cr small_plugin ^^ n) (read_pointer cr a True))" for a
    by (rule exI [of _ 0]) (simp add: cr_def read_pointer_def read_memory_def empty_session_def)
  then show ?thesis
    using for_each_char_device_returns [of cr "0xffff000000001000" small_plugin]
    unfolding Let_def cr_def [symmetric] by (simp add: cr_def)
qed

text \<open>The block devices come from the bdev list, or from the class when that is empty. The third
  source, the bdev file system, is never consulted: its branch repeats the test that has just failed.\<close>

theorem for_each_block_device_no_bdevfs:
  "for_each_block_device cr pl = do {
     (pl', dev_list) \<leftarrow> get_block_device_by_bdevs cr pl;
     if dev_list = [] then get_block_device_by_class cr pl' else Some (pl', dev_list) }"
  by (simp add: for_each_block_device_def cong: if_cong)

lemma for_each_list_kv: "for_each_list cr pl h o' = Some xs \<Longrightarrow> \<forall>x \<in> set xs. IS_KVADDR cr x"
  by (auto simp: for_each_list_def Let_def bind_eq_Some_conv split: if_splits option.splits)

lemma for_each_kobj_map_kv:
  assumes "for_each_kobj_map cr pl m = Some (pl', ds)"
  shows "\<forall>d \<in> set ds. IS_KVADDR cr d"
proof -
  have "\<forall>z \<in> set zs. IS_KVADDR cr z" if "probe_bucket cr q a i = Some zs" for q :: "'a plugin_scheme" and a i zs
    using that by (auto simp: probe_bucket_def Let_def split: if_splits)
  then show ?thesis
    using assms by (fastforce simp: for_each_kobj_map_def Let_def bind_eq_Some_conv
        split: if_splits dest: concat_walks_set)
qed

lemma block_device_kv:
  "get_block_device_by_bdevs cr pl = Some (pl', ds) \<Longrightarrow> \<forall>d \<in> set ds. IS_KVADDR cr d"
  "get_block_device_by_class cr pl = Some (pl', ds) \<Longrightarrow> \<forall>d \<in> set ds. IS_KVADDR cr d"
  "get_disk_by_block_device cr pl = Some (pl', ds) \<Longrightarrow> \<forall>d \<in> set ds. IS_KVADDR cr d"
  by (auto simp: get_block_device_by_bdevs_def get_block_device_by_class_def get_disk_by_block_device_def
      Let_def bind_eq_Some_conv split: if_splits)

text \<open>Every disk, block device, class, bus, device and driver a walk returns is a kernel address, so a
  caller may read through it.\<close>

theorem device_walks_kv:
  "(for_each_disk cr pl = Some (pl', ds) \<longrightarrow> (\<forall>d \<in> set ds. IS_KVADDR cr d)) \<and>
   (for_each_block_device cr pl = Some (pl', ds) \<longrightarrow> (\<forall>d \<in> set ds. IS_KVADDR cr d)) \<and>
   (for_each_class cr pl = Some ds \<or> for_each_bus cr pl = Some ds \<longrightarrow> (\<forall>d \<in> set ds. IS_KVADDR cr d)) \<and>
   (for_each_device_for_class cr pl nm = Some ds \<or> for_each_device_for_bus cr pl nm = Some ds \<or>
    for_each_device_for_driver cr pl drv = Some ds \<or> for_each_driver cr pl nm = Some ds \<longrightarrow>
      (\<forall>d \<in> set ds. IS_KVADDR cr d))"
proof (intro conjI impI)
  show "\<forall>d \<in> set ds. IS_KVADDR cr d" if "for_each_disk cr pl = Some (pl', ds)"
    using that by (auto simp: for_each_disk_def get_disk_by_bdevmap_def bind_eq_Some_conv split: if_splits
        dest: for_each_kobj_map_kv block_device_kv(3))
  show "\<forall>d \<in> set ds. IS_KVADDR cr d" if "for_each_block_device cr pl = Some (pl', ds)"
    using that by (auto simp: for_each_block_device_def bind_eq_Some_conv split: if_splits
        dest: block_device_kv(1,2))
  show "\<forall>d \<in> set ds. IS_KVADDR cr d" if "for_each_class cr pl = Some ds \<or> for_each_bus cr pl = Some ds"
    using that by (auto simp: for_each_class_def for_each_bus_def kset_subsystems_def subsys_of_kobject_def
        List.map_filter_def Let_def bind_eq_Some_conv split: if_splits)
  show "\<forall>d \<in> set ds. IS_KVADDR cr d"
    if "for_each_device_for_class cr pl nm = Some ds \<or> for_each_device_for_bus cr pl nm = Some ds \<or>
      for_each_device_for_driver cr pl drv = Some ds \<or> for_each_driver cr pl nm = Some ds"
    using that by (auto simp: for_each_device_for_class_def for_each_device_for_bus_def
        for_each_device_for_driver_def for_each_driver_def device_of_node_def device_of_driver_node_def
        driver_of_node_def List.map_filter_def Let_def bind_eq_Some_conv split: if_splits)
qed

lemma device_walks_kv_witness:
  "let cr = ones_session\<lparr>symbol_exists := \<lambda>_. True\<rparr>; c = 0xffff000000000001 in
     for_each_class cr small_plugin = Some [c, c, c, c] \<and> (\<forall>d \<in> set [c, c, c, c]. IS_KVADDR cr d)"
proof -
  define cr where "cr = ones_session\<lparr>symbol_exists := \<lambda>_. True\<rparr>"
  have rp: "read_pointer cr a True = 0xffff000000000001" for a
    by (simp add: cr_def read_pointer_def read_memory_def ones_session_def)
  have "for_each_list cr small_plugin 0xffff000000000000 (-1) = Some [7, 8, 9, 7]"
    by (simp add: cr_def for_each_list_def ones_session_def small_plugin_def read_struct_def type_size_def
        type_offset_def ULONG_def load_def empty_session_def)
  moreover have "type_offset small_plugin ''kset'' f = -1" "type_offset small_plugin ''subsys_private'' f = -1"
    "type_offset small_plugin ''kobject'' f = -1" for f
    by (simp_all add: type_offset_def small_plugin_def)
  moreover have "symbol_exists cr s" "symbol_value cr s = Some 8" "IS_KVADDR cr a \<longleftrightarrow> a \<noteq> 0" for s a
    by (simp_all add: cr_def ones_session_def)
  ultimately have c: "for_each_class cr small_plugin = Some [0xffff000000000001, 0xffff000000000001, 0xffff000000000001, 0xffff000000000001]"
    by (simp add: for_each_class_def kset_subsystems_def subsys_of_kobject_def rp
        List.map_filter_def)
  have "\<forall>d \<in> set [0xffff000000000001, 0xffff000000000001, 0xffff000000000001, 0xffff000000000001]. IS_KVADDR cr d"
    using device_walks_kv [of cr small_plugin small_plugin "[0xffff000000000001, 0xffff000000000001, 0xffff000000000001, 0xffff000000000001]" "[]" 0] c by blast
  with c show ?thesis unfolding Let_def cr_def [symmetric] by simp
qed

end
