(* ===== verification/Text.thy ===== *)
theory Text
  imports Reads
begin

text \<open>
  The text helpers of ParserPlugin (\<^verbatim>\<open>src/plugin.cpp\<close>): the test for a number, sizes with a unit,
  hex dumps, strings joined from a buffer, and the readers of gdb's enum listings.
\<close>

section \<open>isNumber\<close>

definition c_str :: "string \<Rightarrow> string" where
  "c_str s = takeWhile (\<lambda>c. c \<noteq> CHR 0x00) s"

definition is_xdigit :: "char \<Rightarrow> bool" where
  "is_xdigit c \<longleftrightarrow> is_digit c \<or> (97 \<le> (of_char c :: nat) \<and> (of_char c :: nat) \<le> 102)
                             \<or> (65 \<le> (of_char c :: nat) \<and> (of_char c :: nat) \<le> 70)"

text \<open>The regular expressions \<^verbatim>\<open>^-?[0-9]+$\<close> and \<^verbatim>\<open>^0[xX][0-9a-fA-F]+$\<close>.\<close>

definition matches_decimal :: "string \<Rightarrow> bool" where
  "matches_decimal s =
     (let t = (if s \<noteq> [] \<and> hd s = CHR ''-'' then tl s else s) in t \<noteq> [] \<and> list_all is_digit t)"

definition matches_hex :: "string \<Rightarrow> bool" where
  "matches_hex s =
     (case s of z # x # t \<Rightarrow> z = CHR ''0'' \<and> x \<in> {CHR ''x'', CHR ''X''} \<and> t \<noteq> [] \<and> list_all is_xdigit t
              | _ \<Rightarrow> False)"

definition isNumber :: "string \<Rightarrow> bool" where
  "isNumber str = (matches_decimal (c_str str) \<or> matches_hex (c_str str))"

section \<open>csize\<close>

text \<open>
  \<^verbatim>\<open>operator<<\<close> prints a double in fixed notation correctly rounded, a tie to the even digit. The
  doubles here are quotients of a \<^verbatim>\<open>uint64_t\<close> and a power of two, so they are kept as fractions; from
  \<open>2 ^ 53\<close> on the conversion to double rounds first.
\<close>

definition round_half_even :: "nat \<Rightarrow> nat \<Rightarrow> nat" where
  "round_half_even n d =
     (let q = n div d; r = n mod d in
      if 2 * r < d then q else if d < 2 * r then q + 1 else if even q then q else q + 1)"

function bit_len :: "nat \<Rightarrow> nat" where
  "bit_len n = (if n = 0 then 0 else Suc (bit_len (n div 2)))"
  by pat_completeness auto
termination
  by (relation "measure id") auto

declare bit_len.simps [simp del]

definition to_double :: "nat \<Rightarrow> nat" where
  "to_double n =
     (if n < 2 ^ 53 then n else let e = bit_len n - 53 in round_half_even n (2 ^ e) * 2 ^ e)"

definition pad_left :: "nat \<Rightarrow> char \<Rightarrow> string \<Rightarrow> string" where
  "pad_left w c s = replicate (w - length s) c @ s"

definition show_fixed :: "nat \<Rightarrow> nat \<Rightarrow> nat \<Rightarrow> string" where
  "show_fixed p n d =
     (let q = round_half_even (10 ^ p * n) d in
      show_dec (q div 10 ^ p) @
        (if p = 0 then '''' else ''.'' @ pad_left p (CHR ''0'') (show_dec (q mod 10 ^ p))))"

definition show_unit :: "nat \<Rightarrow> nat \<Rightarrow> string \<Rightarrow> string" where
  "show_unit n unit suffix =
     (if n mod unit = 0 then show_dec (n div unit) else show_fixed 2 n unit) @ suffix"

definition csize :: "ulong \<Rightarrow> string" where
  "csize sz =
     (let n = unat sz in
      if n < 2 ^ 10 then show_dec n @ ''B''
      else if n < 2 ^ 20 then show_unit n (2 ^ 10) ''KB''
      else if n < 2 ^ 30 then show_unit n (2 ^ 20) ''MB''
      else show_unit (to_double n) (2 ^ 30) ''GB'')"

definition csize_unit :: "ulong \<Rightarrow> int \<Rightarrow> nat \<Rightarrow> string" where
  "csize_unit sz unit precision =
     (let n = unat sz in
      if unit = 2 ^ 10 then show_fixed precision (to_double n) (2 ^ 10) @ '' KB''
      else if unit = 2 ^ 20 then show_fixed precision (to_double n) (2 ^ 20) @ '' MB''
      else if unit = 2 ^ 30 then show_fixed precision (to_double n) (2 ^ 30) @ '' GB''
      else show_dec n @ ''B'')"

section \<open>extract\_string\<close>

text \<open>Strings one after the other, each terminated, up to an empty one; the walk may run off the buffer.\<close>

function extract_string_loop :: "byte list \<Rightarrow> byte list \<Rightarrow> byte list option" where
  "extract_string_loop result ptr =
     (if ptr = [] then None
      else if hd ptr = 0 then Some result
      else if 0 \<notin> set ptr then None
      else extract_string_loop
             ((if result = [] then [] else result @ [ord CHR '' '']) @ cstr ptr)
             (drop (length (cstr ptr) + 1) ptr))"
  by pat_completeness auto
termination
  by (relation "measure (\<lambda>(result, ptr). length ptr)") (auto simp flip: length_greater_0_conv)

declare extract_string_loop.simps [simp del]

definition extract_string :: "byte list \<Rightarrow> string option" where
  "extract_string input = map_option to_string (extract_string_loop [] input)"

section \<open>hexdump\<close>

definition get_printable :: "byte \<Rightarrow> char" where
  "get_printable d = (if 32 \<le> d \<and> d \<le> 126 then chr d else CHR ''.'')"

definition hex2 :: "byte \<Rightarrow> string" where
  "hex2 d = [digit (unat d div 16), digit (unat d mod 16)]"

definition pad16 :: "'a \<Rightarrow> 'a list \<Rightarrow> 'a list" where
  "pad16 x xs = xs @ replicate (16 - length xs) x"

definition print_line :: "ulong \<Rightarrow> byte list \<Rightarrow> string" where
  "print_line addr data =
     (let printable = pad16 (CHR '' '') (map get_printable data);
          data_hex = pad16 ''  '' (map hex2 data) in
      pad_left 8 (CHR ''0'') (show_hex (unat addr)) @ '': '' @
      concat (map (\<lambda>i. (if i mod 2 = 0 \<and> 0 < i then '' '' else '''') @ data_hex ! i) [0..<16]) @
      '' '' @ printable @ [CHR 0x0A])"

fun hexdump_loop :: "ulong \<Rightarrow> byte list \<Rightarrow> nat \<Rightarrow> byte list \<Rightarrow> string" where
  "hexdump_loop address bb n [] = (if bb \<noteq> [] then print_line address bb else '''')"
| "hexdump_loop address bb n (i # data) =
     (if n = 15 then print_line address (bb @ [i]) @ hexdump_loop (address + 16) [] 0 data
      else hexdump_loop address (bb @ [i]) (n + 1) data)"

definition swap_words :: "byte list \<Rightarrow> byte list" where
  "swap_words buf =
     map (\<lambda>i. buf ! i)
       (concat (map (\<lambda>i. [(i + 1) * 4 - 1, (i + 1) * 4 - 2, (i + 1) * 4 - 3, i * 4])
         [0..<length buf div 4]))"

definition hexdump :: "ulong \<Rightarrow> byte list \<Rightarrow> bool \<Rightarrow> string" where
  "hexdump addr buf little_endian =
     hexdump_loop addr [] 0 (if little_endian then buf else swap_words buf)"

section \<open>Enum listings\<close>

definition find_char :: "char \<Rightarrow> string \<Rightarrow> nat option" where
  "find_char c s = (if c \<in> set s then Some (length (takeWhile (\<lambda>x. x \<noteq> c) s)) else None)"

definition trim :: "(char \<Rightarrow> bool) \<Rightarrow> string \<Rightarrow> string" where
  "trim ws s = rev (dropWhile ws (rev (dropWhile ws s)))"

text \<open>
  One line of \<^verbatim>\<open>dump_enumerator_list\<close>. \<^verbatim>\<open>substr(0, pos - 1)\<close> is the whole line when the sign stands
  first, since \<^verbatim>\<open>pos - 1\<close> wraps around.
\<close>

definition enumerator_of_line :: "string \<Rightarrow> string option" where
  "enumerator_of_line line =
     (case find_char (CHR ''='') line of
        None \<Rightarrow> None
      | Some pos \<Rightarrow>
          (let name = (if pos = 0 then line else take (pos - 1) line);
               name' = trim (\<lambda>c. c = CHR '' '') name in
           if name' = [] then None else Some name'))"

definition get_enumerator_list :: "crash \<Rightarrow> string \<Rightarrow> string list" where
  "get_enumerator_list cr enum_name =
     (case dump_enumerator_list cr enum_name of
        None \<Rightarrow> []
      | Some lines \<Rightarrow> List.map_filter enumerator_of_line lines)"

definition read_enum_val :: "crash \<Rightarrow> string \<Rightarrow> int" where
  "read_enum_val cr enum_name = (case enumerator_value cr enum_name of Some v \<Rightarrow> v | None \<Rightarrow> 0)"

text \<open>\<^verbatim>\<open>std::getline(ss, item, ',')\<close> until it fails: no item for an empty rest.\<close>

function getlines :: "char \<Rightarrow> string \<Rightarrow> string list" where
  "getlines d s =
     (if s = [] then []
      else let item = takeWhile (\<lambda>c. c \<noteq> d) s in item # getlines d (drop (length item + 1) s))"
  by pat_completeness auto
termination
  by (relation "measure (\<lambda>(d, s). length s)") (auto simp flip: length_greater_0_conv)

declare getlines.simps [simp del]

definition npos :: "nat option \<Rightarrow> ulong" where
  "npos p = (case p of Some i \<Rightarrow> of_nat i | None \<Rightarrow> -1)"

definition enum_content :: "string \<Rightarrow> string" where
  "enum_content input =
     (let b = npos (find_char (CHR ''{'') input); e = npos (find_char (CHR ''}'') input) in
      take (unat (e - b - 1)) (drop (unat (b + 1)) input))"

definition is_blank :: "char \<Rightarrow> bool" where
  "is_blank c \<longleftrightarrow> (of_char c :: nat) \<in> {9, 10, 13, 32}"

fun enum_items :: "int \<Rightarrow> string list \<Rightarrow> (string \<rightharpoonup> ulong) \<Rightarrow> (string \<rightharpoonup> ulong) option" where
  "enum_items currentValue [] m = Some m"
| "enum_items currentValue (item # items) m = do {
     let equalPos = find_char (CHR ''='') item;
     let key = (case equalPos of Some p \<Rightarrow> take p item | None \<Rightarrow> item);
     value \<leftarrow> (case equalPos of Some p \<Rightarrow> stoi (drop (p + 1) item) | None \<Rightarrow> Some currentValue);
     let next = (case equalPos of Some p \<Rightarrow> currentValue | None \<Rightarrow> currentValue + 1);
     let key' = trim is_blank key;
     enum_items next items (if key' \<in> dom m then m else m(key' \<mapsto> word_of_int value)) }"

text \<open>
  \<^verbatim>\<open>ret_buf\<close> holds \<^verbatim>\<open>BUFSIZE*5\<close> bytes (crash's \<^verbatim>\<open>BUFSIZE\<close> is 1500). The stream of \<^verbatim>\<open>fmemopen\<close> drops what
  gdb prints past its end and closes the text with a null byte inside the buffer.
\<close>

definition BUFSIZE :: nat where
  "BUFSIZE = 1500"

definition ret_buf :: "crash \<Rightarrow> string \<Rightarrow> string" where
  "ret_buf cr enum_list_name = take (BUFSIZE * 5 - 1) (ptype_enum cr enum_list_name)"

definition read_enum_list :: "crash \<Rightarrow> string \<Rightarrow> (string \<rightharpoonup> ulong) option" where
  "read_enum_list cr enum_list_name =
     enum_items 0 (getlines (CHR '','') (enum_content (ret_buf cr enum_list_name))) Map.empty"

section \<open>Laws\<close>

lemma round_half_even_error:
  assumes "0 < d"
  shows "2 * \<bar>int n - int (round_half_even n d) * int d\<bar> \<le> int d"
proof -
  define q r where "q = n div d" and "r = n mod d"
  have n: "int n = int q * int d + int r"
    by (simp add: q_def r_def flip: of_nat_mult of_nat_add)
  have "r < d" using assms by (simp add: r_def)
  then show ?thesis
    unfolding round_half_even_def Let_def q_def [symmetric] r_def [symmetric] n
    by (auto simp: algebra_simps)
qed

lemma to_double_small [simp]: "n < 2 ^ 53 \<Longrightarrow> to_double n = n"
  by (simp add: to_double_def)

text \<open>The size is shown to the nearest hundredth of its unit.\<close>

definition show_hundredths :: "nat \<Rightarrow> string" where
  "show_hundredths q = show_dec (q div 100) @ ''.'' @ pad_left 2 (CHR ''0'') (show_dec (q mod 100))"

lemma show_fixed_2: "show_fixed 2 n d = show_hundredths (round_half_even (100 * n) d)"
  by (simp add: show_fixed_def show_hundredths_def Let_def)

lemma show_unit_cases:
  assumes "0 < u"
  shows "\<exists>q. 2 * \<bar>100 * int n - int q * int u\<bar> \<le> int u \<and>
           show_unit n u suf = (if u dvd n then show_dec (q div 100) else show_hundredths q) @ suf"
proof (cases "u dvd n")
  case True
  then have "100 * int n = int (100 * (n div u)) * int u" by auto
  then show ?thesis
    using True by (intro exI [of _ "100 * (n div u)"]) (auto simp: show_unit_def dvd_eq_mod_eq_0)
next
  case False
  then show ?thesis
    using round_half_even_error [OF assms, of "100 * n"]
    by (intro exI [of _ "round_half_even (100 * n) u"])
       (auto simp: show_unit_def show_fixed_2 dvd_eq_mod_eq_0)
qed

subsection \<open>Hex dumps\<close>

lemma hexdump_loop_flush:
  assumes "length bb = n" "n \<le> 15"
  shows "hexdump_loop address bb n data =
     (if bb @ data = [] then ''''
      else print_line address (take 16 (bb @ data)) @ hexdump_loop (address + 16) [] 0 (drop 16 (bb @ data)))"
  using assms
proof (induction data arbitrary: bb n)
  case Nil
  then show ?case by auto
next
  case (Cons x data)
  show ?case
  proof (cases "n = 15")
    case True
    with Cons.prems show ?thesis by simp
  next
    case False
    with Cons.prems have "length (bb @ [x]) = n + 1" "n + 1 \<le> 15" by auto
    from Cons.IH [OF this] False show ?thesis by simp
  qed
qed

definition hex_lines :: "nat \<Rightarrow> nat" where
  "hex_lines n = (n + 15) div 16"

lemma hex_lines_Suc: "0 < n \<Longrightarrow> hex_lines n = Suc (hex_lines (n - 16))"
proof (cases "16 \<le> n")
  case True
  then obtain k where "n = 16 + k" using le_Suc_ex by blast
  then show ?thesis by (simp add: hex_lines_def)
next
  case False
  moreover assume "0 < n"
  ultimately have "n + 15 = 16 + (n - 1)" "n - 1 < 16" by auto
  then show ?thesis using False by (simp add: hex_lines_def)
qed

lemma hexdump_loop_chunks:
  "hexdump_loop address [] 0 data =
     concat (map (\<lambda>k. print_line (address + of_nat (16 * k)) (take 16 (drop (16 * k) data)))
       [0..<hex_lines (length data)])"
proof (induction "length data" arbitrary: address data rule: less_induct)
  case less
  show ?case
  proof (cases "data = []")
    case True
    then show ?thesis by (simp add: hex_lines_def)
  next
    case False
    then have hl: "hex_lines (length data) = Suc (hex_lines (length (drop 16 data)))"
      using hex_lines_Suc [of "length data"] by simp
    have "hexdump_loop address [] 0 data =
        print_line address (take 16 data) @ hexdump_loop (address + 16) [] 0 (drop 16 data)"
      using hexdump_loop_flush [of "[]" 0 address data] False by simp
    also have "hexdump_loop (address + 16) [] 0 (drop 16 data) =
        concat (map (\<lambda>k. print_line (address + 16 + of_nat (16 * k)) (take 16 (drop (16 * k) (drop 16 data))))
          [0..<hex_lines (length (drop 16 data))])"
      using False by (intro less) (simp flip: length_greater_0_conv)
    finally show ?thesis
      by (simp add: hl upt_conv_Cons map_Suc_upt [symmetric] comp_def algebra_simps del: upt_Suc)
  qed
qed

text \<open>The hexadecimal columns of a line: 39 characters behind the address and its colon.\<close>

definition hex_columns :: "ulong \<Rightarrow> string \<Rightarrow> string" where
  "hex_columns addr line = take 39 (drop (max 8 (length (show_hex (unat addr))) + 2) line)"

fun pair_bytes :: "string \<Rightarrow> byte list" where
  "pair_bytes (a # b # s) = of_nat (16 * digit_val a + digit_val b) # pair_bytes s"
| "pair_bytes _ = []"

definition decode_line :: "ulong \<Rightarrow> string \<Rightarrow> byte list" where
  "decode_line addr line = pair_bytes (filter (\<lambda>c. c \<noteq> CHR '' '') (hex_columns addr line))"

lemma digit_not_space: "d < 16 \<Longrightarrow> digit d \<noteq> CHR '' ''"
  by (auto simp: digit_def char_of_eq_iff take_bit_eq_mod)

lemma hex2_not_space: "filter (\<lambda>c. c \<noteq> CHR '' '') (hex2 b) = hex2 b"
proof -
  have "unat b div 16 < 16" using unat_less_power [of b] by simp
  then show ?thesis using digit_not_space by (simp add: hex2_def)
qed

lemma pair_bytes_hex2: "pair_bytes (hex2 b @ s) = b # pair_bytes s"
proof -
  have "unat b div 16 < 16" using unat_less_power [of b] by simp
  then show ?thesis by (simp add: hex2_def mult.commute [of 16])
qed

lemma pair_bytes_concat: "pair_bytes (concat (map hex2 data)) = data"
  by (induction data) (auto simp: pair_bytes_hex2)

definition hex_area :: "string list \<Rightarrow> string" where
  "hex_area hs = concat (map (\<lambda>i. (if i mod 2 = 0 \<and> 0 < i then '' '' else '''') @ hs ! i) [0..<16])"

lemma hex_area_filter:
  assumes "length hs = 16"
  shows "filter (\<lambda>c. c \<noteq> CHR '' '') (hex_area hs) = concat (map (filter (\<lambda>c. c \<noteq> CHR '' '')) hs)"
proof -
  have "filter (\<lambda>c. c \<noteq> CHR '' '') (hex_area hs) =
      concat (map (\<lambda>i. filter (\<lambda>c. c \<noteq> CHR '' '') (hs ! i)) [0..<16])"
    by (auto simp: hex_area_def filter_concat comp_def intro!: arg_cong [where f = concat] map_cong)
  also have "map (\<lambda>i. filter (\<lambda>c. c \<noteq> CHR '' '') (hs ! i)) [0..<16] = map (filter (\<lambda>c. c \<noteq> CHR '' '')) hs"
    using assms by (intro nth_equalityI) auto
  finally show ?thesis .
qed

lemma length_hex_area:
  assumes "length hs = 16" "\<forall>h \<in> set hs. length h = 2"
  shows "length (hex_area hs) = 39"
proof -
  have "length (hs ! i) = 2" if "i < 16" for i using assms that by auto
  then show ?thesis by (simp add: hex_area_def upt_rec)
qed

lemma print_line_parts:
  "print_line addr data =
     pad_left 8 (CHR ''0'') (show_hex (unat addr)) @ '': '' @ hex_area (pad16 ''  '' (map hex2 data)) @
     '' '' @ pad16 (CHR '' '') (map get_printable data) @ [CHR 0x0A]"
  by (simp add: print_line_def hex_area_def Let_def)

lemma decode_print_line:
  assumes "length data \<le> 16"
  shows "decode_line addr (print_line addr data) = data"
proof -
  let ?hs = "pad16 ''  '' (map hex2 data)"
  have len: "length ?hs = 16" using assms by (simp add: pad16_def)
  have "length (hex_area ?hs) = 39"
    using len by (rule length_hex_area) (auto simp: pad16_def hex2_def)
  then have "hex_columns addr (print_line addr data) = hex_area ?hs"
    by (simp add: hex_columns_def print_line_parts pad_left_def max_def)
  moreover have "concat (map (filter (\<lambda>c. c \<noteq> CHR '' '')) ?hs) = concat (map hex2 data)"
    by (simp add: pad16_def comp_def hex2_not_space)
  ultimately show ?thesis
    by (simp add: decode_line_def hex_area_filter len pair_bytes_concat)
qed

text \<open>Line \<open>k\<close> of the dump of a buffer.\<close>

definition hex_line :: "ulong \<Rightarrow> byte list \<Rightarrow> nat \<Rightarrow> string" where
  "hex_line addr buf k = print_line (addr + of_nat (16 * k)) (take 16 (drop (16 * k) buf))"

lemma concat_chunks:
  "concat (map (\<lambda>k. take 16 (drop (16 * k) xs)) [0..<hex_lines (length xs)]) = xs"
proof (induction "length xs" arbitrary: xs rule: less_induct)
  case less
  show ?case
  proof (cases "xs = []")
    case True
    then show ?thesis by (simp add: hex_lines_def)
  next
    case False
    then have hl: "hex_lines (length xs) = Suc (hex_lines (length (drop 16 xs)))"
      using hex_lines_Suc [of "length xs"] by simp
    have "concat (map (\<lambda>k. take 16 (drop (16 * k) (drop 16 xs))) [0..<hex_lines (length (drop 16 xs))]) = drop 16 xs"
      using False by (intro less) (simp flip: length_greater_0_conv)
    then show ?thesis
      by (simp add: hl upt_conv_Cons map_Suc_upt [symmetric] comp_def algebra_simps del: upt_Suc)
  qed
qed

text \<open>C35. A hex dump is its lines of sixteen bytes at consecutive addresses, and reading the
  hexadecimal columns of the lines back gives the dumped buffer, whole and in order.\<close>

theorem hexdump_decodes:
  "hexdump addr buf True = concat (map (hex_line addr buf) [0..<hex_lines (length buf)]) \<and>
   concat (map (\<lambda>k. decode_line (addr + of_nat (16 * k)) (hex_line addr buf k))
     [0..<hex_lines (length buf)]) = buf"
  using concat_chunks [of buf]
  by (simp add: hex_line_def [abs_def] hexdump_def hexdump_loop_chunks decode_print_line)

subsection \<open>Byte swapping\<close>

lemma concat_map_4:
  "concat (map (\<lambda>i. [f i, g i, h i, j i]) [0..<n]) ! (4 * q + r) = [f q, g q, h q, j q] ! r"
  if "q < n" "r < 4"
  using that
proof (induction n)
  case 0
  then show ?case by simp
next
  case (Suc n)
  have len: "length (concat (map (\<lambda>i. [f i, g i, h i, j i]) [0..<n])) = 4 * n"
    by (simp add: length_concat comp_def sum_list_triv)
  show ?case
  proof (cases "q < n")
    case True
    then have "4 * q + r < 4 * n" using Suc.prems by simp
    then show ?thesis using Suc True len by (simp add: nth_append)
  next
    case False
    then have "q = n" using Suc.prems by simp
    then show ?thesis using len by (simp add: nth_append)
  qed
qed

lemma length_swap_words: "length (swap_words buf) = 4 * (length buf div 4)"
  by (simp add: swap_words_def length_concat comp_def sum_list_triv)

lemma swap_words_nth:
  assumes "q < length buf div 4" "r < 4"
  shows "swap_words buf ! (4 * q + r) = buf ! (4 * q + (3 - r))"
proof -
  have "4 * q + r < 4 * (length buf div 4)" using assms by simp
  then have "swap_words buf ! (4 * q + r) =
      buf ! ([(q + 1) * 4 - 1, (q + 1) * 4 - 2, (q + 1) * 4 - 3, q * 4] ! r)"
    unfolding swap_words_def using assms
    by (subst nth_map) (simp_all add: length_concat comp_def sum_list_triv concat_map_4)
  moreover have "r = 0 \<or> r = 1 \<or> r = 2 \<or> r = 3" using assms(2) by auto
  ultimately show ?thesis by (auto simp: algebra_simps)
qed

text \<open>The big-endian dump reverses the bytes of every 32-bit word; on whole words the reversal
  is its own inverse, and the bytes behind the last whole word are left out of the dump.\<close>

theorem swap_words_involution:
  "length (swap_words buf) = length buf - length buf mod 4 \<and>
   swap_words (swap_words buf) = take (length buf - length buf mod 4) buf"
proof
  have m: "4 * (length buf div 4) = length buf - length buf mod 4"
    by (simp add: minus_mod_eq_mult_div [symmetric])
  then show "length (swap_words buf) = length buf - length buf mod 4"
    by (simp add: length_swap_words)
  show "swap_words (swap_words buf) = take (length buf - length buf mod 4) buf"
  proof (rule nth_equalityI)
    show "length (swap_words (swap_words buf)) = length (take (length buf - length buf mod 4) buf)"
      using m by (simp add: length_swap_words)
    fix i
    assume "i < length (swap_words (swap_words buf))"
    then have i: "i < 4 * (length buf div 4)" by (simp add: length_swap_words)
    define q r where "q = i div 4" and "r = i mod 4"
    have qr: "i = 4 * q + r" "r < 4" "q < length buf div 4" using i by (auto simp: q_def r_def)
    have "swap_words (swap_words buf) ! (4 * q + r) = buf ! (4 * q + r)"
      using qr swap_words_nth [of q "swap_words buf" r] swap_words_nth [of q buf "3 - r"]
      by (simp add: length_swap_words)
    then show "swap_words (swap_words buf) ! i = take (length buf - length buf mod 4) buf ! i"
      using i m qr(1) by simp
  qed
qed

subsection \<open>Sizes\<close>

lemma show_unit_nearest:
  assumes "txt = show_unit n u suf" "0 < u" "u \<le> n" "(u, suf) \<in> S"
  shows "\<exists>q u suf. (u, suf) \<in> S \<and> (u = 1 \<or> u \<le> n) \<and> 2 * \<bar>100 * int n - int q * int u\<bar> \<le> int u \<and>
     txt = (if u dvd n then show_dec (q div 100) else show_hundredths q) @ suf"
proof -
  obtain q where "2 * \<bar>100 * int n - int q * int u\<bar> \<le> int u"
    and "txt = (if u dvd n then show_dec (q div 100) else show_hundredths q) @ suf"
    using show_unit_cases [OF assms(2), of n suf] assms(1) by blast
  with assms(3,4) show ?thesis by blast
qed

text \<open>A size below \<open>2 ^ 53\<close> is shown with the unit that keeps at least one of it, as a whole
  number when it is one and otherwise to the nearest hundredth.\<close>

theorem csize_nearest:
  assumes "unat sz < 2 ^ 53"
  shows "\<exists>q u suf. (u, suf) \<in> {(1, ''B''), (2 ^ 10, ''KB''), (2 ^ 20, ''MB''), (2 ^ 30, ''GB'')} \<and>
     (u = 1 \<or> u \<le> unat sz) \<and> 2 * \<bar>100 * int (unat sz) - int q * int u\<bar> \<le> int u \<and>
     csize sz = (if u dvd unat sz then show_dec (q div 100) else show_hundredths q) @ suf"
proof -
  let ?n = "unat sz"
  have td: "to_double ?n = ?n" using assms by simp
  consider (b) "?n < 2 ^ 10" | (k) "\<not> ?n < 2 ^ 10" "?n < 2 ^ 20"
    | (m) "\<not> ?n < 2 ^ 20" "?n < 2 ^ 30" | (g) "\<not> ?n < 2 ^ 30" by fastforce
  then show ?thesis
  proof cases
    case b
    then show ?thesis
      by (intro exI [of _ "100 * ?n"] exI [of _ 1] exI [of _ "''B''"]) (simp add: csize_def)
  next
    case k
    then have "csize sz = show_unit ?n (2 ^ 10) ''KB''" by (simp add: csize_def)
    then show ?thesis by (rule show_unit_nearest) (use k in auto)
  next
    case m
    then have "csize sz = show_unit ?n (2 ^ 20) ''MB''" by (simp add: csize_def)
    then show ?thesis by (rule show_unit_nearest) (use m in auto)
  next
    case g
    then have "csize sz = show_unit ?n (2 ^ 30) ''GB''" by (simp add: csize_def td)
    then show ?thesis by (rule show_unit_nearest) (use g in auto)
  qed
qed

lemma csize_nearest_witness:
  "unat (1536 :: ulong) < 2 ^ 53 \<and> csize 1536 = ''1.50KB'' \<and>
   (\<exists>q u suf. (u, suf) \<in> {(1, ''B''), (2 ^ 10, ''KB''), (2 ^ 20, ''MB''), (2 ^ 30, ''GB'')} \<and>
     (u = 1 \<or> u \<le> unat (1536 :: ulong)) \<and> 2 * \<bar>100 * int (unat (1536 :: ulong)) - int q * int u\<bar> \<le> int u \<and>
     csize 1536 = (if u dvd unat (1536 :: ulong) then show_dec (q div 100) else show_hundredths q) @ suf)"
proof -
  have "unat (1536 :: ulong) < 2 ^ 53" by simp
  moreover have "csize 1536 = ''1.50KB''"
    by (simp add: csize_def show_unit_def show_fixed_def Let_def round_half_even_def show_dec_def
        digits.simps digit_def pad_left_def char_of_def bit_0)
  ultimately show ?thesis using csize_nearest [of 1536] by blast
qed

subsection \<open>Joined strings\<close>

fun join_space :: "byte list list \<Rightarrow> byte list" where
  "join_space [] = []"
| "join_space [s] = s"
| "join_space (s # ss) = s @ ord CHR '' '' # join_space ss"

lemma join_space_Cons: "ss \<noteq> [] \<Longrightarrow> join_space (s # ss) = s @ ord CHR '' '' # join_space ss"
  by (cases ss) auto

lemma extract_string_loop_step:
  assumes "s \<noteq> []" "0 \<notin> set s"
  shows "extract_string_loop result (s @ 0 # rest) =
     extract_string_loop ((if result = [] then [] else result @ [ord CHR '' '']) @ s) rest"
proof -
  have "hd (s @ 0 # rest) \<noteq> 0" using assms by (cases s) auto
  then show ?thesis
    using assms by (subst extract_string_loop.simps) simp
qed

lemma extract_string_loop_join:
  assumes "\<forall>s \<in> set ss. s \<noteq> [] \<and> 0 \<notin> set s"
  shows "extract_string_loop result (concat (map (\<lambda>s. s @ [0]) ss) @ 0 # rest) =
     Some (if ss = [] then result
           else (if result = [] then [] else result @ [ord CHR '' '']) @ join_space ss)"
  using assms
proof (induction ss arbitrary: result)
  case Nil
  then show ?case by (subst extract_string_loop.simps) simp
next
  case (Cons s ss)
  then have "extract_string_loop result (concat (map (\<lambda>s. s @ [0]) (s # ss)) @ 0 # rest) =
     extract_string_loop ((if result = [] then [] else result @ [ord CHR '' '']) @ s)
       (concat (map (\<lambda>s. s @ [0]) ss) @ 0 # rest)"
    using extract_string_loop_step [of s result "concat (map (\<lambda>s. s @ [0]) ss) @ 0 # rest"] by simp
  also have "\<dots> = Some (if s # ss = [] then result
           else (if result = [] then [] else result @ [ord CHR '' '']) @ join_space (s # ss))"
    using Cons by (cases ss) auto
  finally show ?case .
qed

text \<open>The strings of a double-terminated buffer come out joined by blanks, and nothing behind the
  double terminator is read.\<close>

theorem extract_string_joins:
  assumes "\<forall>s \<in> set ss. s \<noteq> [] \<and> 0 \<notin> set s"
  shows "extract_string (concat (map (\<lambda>s. s @ [0]) ss) @ 0 # rest) = Some (to_string (join_space ss))"
  using extract_string_loop_join [OF assms, of "[]" rest]
  by (cases ss) (simp_all add: extract_string_def)

lemma extract_string_joins_witness:
  "extract_string (concat (map (\<lambda>s. s @ [0]) [to_bytes ''lzo'', to_bytes ''zstd'']) @ 0 # [7]) =
     Some (to_string (join_space [to_bytes ''lzo'', to_bytes ''zstd'']))
   \<and> to_string (join_space [to_bytes ''lzo'', to_bytes ''zstd'']) = ''lzo zstd''"
proof
  have "\<forall>s \<in> set [to_bytes ''lzo'', to_bytes ''zstd'']. s \<noteq> [] \<and> (0 :: byte) \<notin> set s"
    by (simp add: to_bytes_def ord_def)
  then show "extract_string (concat (map (\<lambda>s. s @ [0]) [to_bytes ''lzo'', to_bytes ''zstd'']) @ 0 # [7]) =
     Some (to_string (join_space [to_bytes ''lzo'', to_bytes ''zstd'']))"
    by (rule extract_string_joins)
  show "to_string (join_space [to_bytes ''lzo'', to_bytes ''zstd'']) = ''lzo zstd''"
    by (simp add: to_bytes_def to_string_def)
qed

subsection \<open>Numbers\<close>

lemma is_digit_digit: "d < 10 \<Longrightarrow> is_digit (digit d)"
  by (simp add: is_digit_def digit_def)

lemma is_xdigit_digit: "d < 16 \<Longrightarrow> is_xdigit (digit d)"
  by (auto simp: is_xdigit_def is_digit_def digit_def)

lemma list_all_digits:
  assumes "\<And>d. d < base \<Longrightarrow> P (digit d)" "2 \<le> base"
  shows "list_all P (digits base n)"
  using assms
proof (induction base n rule: digits.induct)
  case (1 base n)
  then show ?case by (subst digits.simps) (auto simp: not_less)
qed

lemma show_dec_digits: "list_all is_digit (show_dec n)"
  by (simp add: show_dec_def list_all_digits is_digit_digit)

lemma show_hex_digits: "list_all is_xdigit (show_hex n)"
  by (simp add: show_hex_def list_all_digits is_xdigit_digit)

lemma is_xdigit_nonzero: "is_xdigit c \<Longrightarrow> c \<noteq> CHR 0x00"
  by (auto simp: is_xdigit_def is_digit_def)

lemma c_str_id: "CHR 0x00 \<notin> set s \<Longrightarrow> c_str s = s"
  by (auto simp: c_str_def takeWhile_eq_all_conv)

lemma list_all_no_nul:
  "list_all is_xdigit s \<Longrightarrow> CHR 0x00 \<notin> set s" "list_all is_digit s \<Longrightarrow> CHR 0x00 \<notin> set s"
  by (auto simp: list_all_iff is_xdigit_def is_digit_def)

text \<open>A string without embedded terminators is a number exactly when it is an optional minus sign
  and decimal digits, or \<open>0x\<close> and hexadecimal digits; the texts of all integers and of all hexadecimal
  naturals are among them.\<close>

theorem isNumber_iff:
  "isNumber str = (\<exists>ds. ds \<noteq> [] \<and> (list_all is_digit ds \<and> c_str str \<in> {ds, ''-'' @ ds} \<or>
       list_all is_xdigit ds \<and> c_str str \<in> {''0x'' @ ds, ''0X'' @ ds})) \<and>
   isNumber (show_dec n) \<and> isNumber (''-'' @ show_dec n) \<and> isNumber (''0x'' @ show_hex n)"
proof -
  have ne: "show_dec n \<noteq> []" "show_hex n \<noteq> []" by (simp_all add: show_dec_def show_hex_def)
  have dash: "\<not> is_digit (CHR ''-'')" by (simp add: is_digit_def)
  have hd: "hd (show_dec n) \<noteq> CHR ''-''"
    using ne dash show_dec_digits [of n] by (cases "show_dec n") auto
  have dec: "matches_decimal s \<longleftrightarrow> (\<exists>ds. ds \<noteq> [] \<and> list_all is_digit ds \<and> s \<in> {ds, ''-'' @ ds})" for s
    using dash by (cases s) (auto simp: matches_decimal_def Let_def split: if_splits)
  have hex: "matches_hex s \<longleftrightarrow> (\<exists>ds. ds \<noteq> [] \<and> list_all is_xdigit ds \<and> s \<in> {''0x'' @ ds, ''0X'' @ ds})" for s
    by (auto simp: matches_hex_def split: list.splits)
  have "isNumber (show_dec n)" "isNumber (''-'' @ show_dec n)" "isNumber (''0x'' @ show_hex n)"
    using show_dec_digits [of n] show_hex_digits [of n] list_all_no_nul [of "show_dec n"]
      list_all_no_nul [of "show_hex n"] ne hd
    by (auto simp: isNumber_def c_str_id dec hex)
  then show ?thesis
    by (auto simp: isNumber_def dec hex)
qed

subsection \<open>Enum listings\<close>

text \<open>gdb prints an enum as \<^verbatim>\<open>enum e {A, B = 5, C}\<close>: the value only where it is not the previous one plus one.\<close>

definition show_int :: "int \<Rightarrow> string" where
  "show_int v = (if v < 0 then ''-'' @ show_dec (nat (- v)) else show_dec (nat v))"

fun enum_item :: "string \<times> int option \<Rightarrow> string" where
  "enum_item (k, None) = k"
| "enum_item (k, Some v) = k @ '' = '' @ show_int v"

fun enum_text :: "(string \<times> int option) list \<Rightarrow> string" where
  "enum_text [] = ''''"
| "enum_text [x] = enum_item x"
| "enum_text (x # xs) = enum_item x @ '', '' @ enum_text xs"

definition clean_key :: "string \<Rightarrow> bool" where
  "clean_key k \<longleftrightarrow> k \<noteq> [] \<and> list_all (\<lambda>c. \<not> is_blank c \<and> c \<notin> {CHR ''='', CHR '','', CHR ''{'', CHR ''}''}) k"

definition int_val :: "int option \<Rightarrow> bool" where
  "int_val ov = (case ov of None \<Rightarrow> True | Some v \<Rightarrow> - (2 ^ 31) \<le> v \<and> v < 2 ^ 31)"

text \<open>The values the reader gives: an enumerator without one gets the number of such enumerators before it.\<close>

fun enum_vals :: "int \<Rightarrow> (string \<times> int option) list \<Rightarrow> (string \<times> ulong) list" where
  "enum_vals c [] = []"
| "enum_vals c ((k, None) # its) = (k, word_of_int c) # enum_vals (c + 1) its"
| "enum_vals c ((k, Some v) # its) = (k, word_of_int v) # enum_vals c its"

lemma digit_val_is_digit: "is_digit c \<Longrightarrow> digit_val c = of_char c - 48"
  by (simp add: is_digit_def digit_val_def)

lemma stoi_digits_foldl:
  "list_all is_digit s \<Longrightarrow> stoi_digits acc s = foldl (\<lambda>a c. 10 * a + digit_val c) acc s"
  by (induction s arbitrary: acc) (auto simp: is_digit_def digit_val_is_digit)

lemma stoi_digits_show_dec: "stoi_digits 0 (show_dec n) = n"
  using stoi_digits_foldl [OF show_dec_digits [of n]] digits_val_digits [of 10 n]
  by (simp add: show_dec_def digits_val_def)

lemma stoi_show_int:
  assumes "- (2 ^ 31) \<le> v" "v < 2 ^ 31"
  shows "stoi (CHR '' '' # show_int v) = Some v"
proof -
  have nb: "is_digit (hd (show_dec n)) \<and> show_dec n \<noteq> []" for n
    using show_dec_digits [of n] by (cases "show_dec n") (auto simp: show_dec_def)
  have sp: "\<not> is_space c \<and> c \<noteq> CHR ''-'' \<and> c \<noteq> CHR ''+''" if "is_digit c" for c
    using that by (auto simp: is_digit_def is_space_def)
  have dw: "dropWhile is_space (show_dec n) = show_dec n" for n
    using nb [of n] sp by (cases "show_dec n") auto
  show ?thesis
    using assms nb [of "nat v"] nb [of "nat (- v)"] sp [of "hd (show_dec (nat v))"] dw [of "nat v"]
    by (auto simp: stoi_def show_int_def Let_def is_space_def stoi_digits_show_dec)
qed

lemma trim_key:
  assumes "k \<noteq> []" "list_all (\<lambda>c. \<not> ws c) k" "list_all ws l" "list_all ws r"
  shows "trim ws (l @ k @ r) = k"
proof -
  have "dropWhile ws (l @ k @ r) = k @ r"
    using assms(1-3) by (cases k) (auto simp: dropWhile_append list_all_iff)
  moreover have "dropWhile ws (rev r @ rev k) = rev k"
    using assms(1,2,4) by (cases k rule: rev_cases) (auto simp: dropWhile_append list_all_iff)
  ultimately show ?thesis by (simp add: trim_def)
qed

lemma find_char_absent: "c \<notin> set s \<Longrightarrow> find_char c s = None"
  by (simp add: find_char_def)

lemma find_char_first: "c \<notin> set s \<Longrightarrow> find_char c (s @ c # t) = Some (length s)"
  by (auto simp: find_char_def takeWhile_append)

lemma enum_items_step:
  assumes "clean_key k" "int_val ov" "set sp \<subseteq> {CHR '' ''}" "k \<notin> dom m"
  shows "enum_items c ((sp @ enum_item (k, ov)) # items) m =
     enum_items (case ov of None \<Rightarrow> c + 1 | Some v \<Rightarrow> c) items
       (m(k \<mapsto> word_of_int (case ov of None \<Rightarrow> c | Some v \<Rightarrow> v)))"
proof -
  have k: "k \<noteq> []" "list_all (\<lambda>c. \<not> is_blank c) k" "CHR ''='' \<notin> set k"
    using assms(1) by (auto simp: clean_key_def list_all_iff)
  have sp: "list_all is_blank sp" "CHR ''='' \<notin> set sp"
    using assms(3) by (auto simp: list_all_iff is_blank_def)
  have t1: "trim is_blank (sp @ k) = k"
    using trim_key [OF k(1,2) sp(1), of "[]"] by simp
  have t2: "trim is_blank (sp @ k @ '' '') = k"
    using trim_key [OF k(1,2) sp(1), of "'' ''"] by (simp add: is_blank_def)
  show ?thesis
  proof (cases ov)
    case None
    have "find_char (CHR ''='') (sp @ k) = None" using k sp by (simp add: find_char_absent)
    then show ?thesis using None t1 assms(4) by (simp add: Let_def)
  next
    case (Some v)
    have "find_char (CHR ''='') (sp @ k @ '' = '' @ show_int v) = Some (length (sp @ k @ '' ''))"
      using k sp find_char_first [of "CHR ''=''" "sp @ k @ '' ''" "CHR '' '' # show_int v"] by simp
    moreover have "stoi (CHR '' '' # show_int v) = Some v"
      using assms(2) Some by (intro stoi_show_int) (auto simp: int_val_def)
    ultimately show ?thesis using Some t2 assms(4) by (simp add: Let_def)
  qed
qed

lemma enum_items_vals:
  assumes "\<forall>(k, ov) \<in> set its. clean_key k \<and> int_val ov" "distinct (map fst its)"
    and "dom m \<inter> fst ` set its = {}" "list_all2 (\<lambda>sp it. set sp \<subseteq> {CHR '' ''}) sps its"
  shows "enum_items c (map2 (\<lambda>sp it. sp @ enum_item it) sps its) m = Some (m ++ map_of (enum_vals c its))"
  using assms
proof (induction its arbitrary: c m sps)
  case Nil
  then show ?case by simp
next
  case (Cons it its)
  obtain k ov where it: "it = (k, ov)" by (cases it)
  obtain sp sps' where sps: "sps = sp # sps'" using Cons.prems(4) by (cases sps) auto
  let ?v = "word_of_int (case ov of None \<Rightarrow> c | Some v \<Rightarrow> v)" and ?c = "case ov of None \<Rightarrow> c + 1 | Some v \<Rightarrow> c"
  have step: "enum_items c (map2 (\<lambda>sp it. sp @ enum_item it) sps (it # its)) m =
     enum_items ?c (map2 (\<lambda>sp it. sp @ enum_item it) sps' its) (m(k \<mapsto> ?v))"
    using Cons.prems enum_items_step [of k ov sp m c] by (auto simp: it sps)
  have "enum_items ?c (map2 (\<lambda>sp it. sp @ enum_item it) sps' its) (m(k \<mapsto> ?v)) =
     Some (m(k \<mapsto> ?v) ++ map_of (enum_vals ?c its))"
  proof (rule Cons.IH)
    show "dom (m(k \<mapsto> ?v)) \<inter> fst ` set its = {}"
      using Cons.prems(2,3) by (simp add: it)
  qed (use Cons.prems in \<open>auto simp: it sps\<close>)
  moreover have "k \<notin> fst ` set (enum_vals ?c its)"
  proof -
    have "fst ` set (enum_vals c' its) = fst ` set its" for c'
      by (induction c' its rule: enum_vals.induct) auto
    then show ?thesis using Cons.prems(2) by (simp add: it)
  qed
  then have "m(k \<mapsto> ?v) ++ map_of (enum_vals ?c its) = m ++ map_of (enum_vals c (it # its))"
    by (cases ov) (auto simp: it map_add_def fun_eq_iff map_of_eq_None_iff [symmetric] split: option.splits)
  ultimately show ?case using step by simp
qed

lemma getlines_last: "s \<noteq> [] \<Longrightarrow> d \<notin> set s \<Longrightarrow> getlines d s = [s]"
proof -
  assume s: "s \<noteq> []" "d \<notin> set s"
  have tw: "takeWhile (\<lambda>c. c \<noteq> d) s = s" using s by (auto simp: takeWhile_eq_all_conv)
  show ?thesis using s by (simp add: getlines.simps [of d s] getlines.simps [of d "[]"] Let_def tw)
qed

lemma getlines_cons: "d \<notin> set s \<Longrightarrow> getlines d (s @ d # t) = s # getlines d t"
proof -
  assume "d \<notin> set s"
  then have "takeWhile (\<lambda>c. c \<noteq> d) (s @ d # t) = s" by (auto simp: takeWhile_append)
  then show ?thesis by (simp add: getlines.simps [of d "s @ d # t"])
qed

lemma show_int_chars: "c \<in> set (show_int v) \<Longrightarrow> is_digit c \<or> c = CHR ''-''"
  using show_dec_digits [of "nat v"] show_dec_digits [of "nat (- v)"]
  by (auto simp: show_int_def list_all_iff split: if_splits)

lemma enum_item_chars:
  assumes "clean_key (fst it)"
  shows "CHR '','' \<notin> set (enum_item it) \<and> CHR ''{'' \<notin> set (enum_item it) \<and>
     CHR ''}'' \<notin> set (enum_item it) \<and> enum_item it \<noteq> []"
proof -
  obtain k ov where it: "it = (k, ov)" by (cases it)
  show ?thesis
    using assms show_int_chars
    by (cases ov) (auto simp: it clean_key_def list_all_iff is_digit_def dest!: show_int_chars)
qed

lemma getlines_enum_text:
  assumes "\<forall>it \<in> set its. clean_key (fst it)" "its \<noteq> []" "set sp \<subseteq> {CHR '' ''}"
  shows "\<exists>sps. list_all2 (\<lambda>sp it. set sp \<subseteq> {CHR '' ''}) sps its \<and>
     getlines (CHR '','') (sp @ enum_text its) = map2 (\<lambda>sp it. sp @ enum_item it) sps its"
  using assms
proof (induction its arbitrary: sp rule: enum_text.induct)
  case 1
  then show ?case by simp
next
  case (2 x)
  then have "CHR '','' \<notin> set (sp @ enum_item x)" "sp @ enum_item x \<noteq> []"
    using enum_item_chars [of x] by auto
  then show ?case
    using 2 by (intro exI [of _ "[sp]"]) (simp add: getlines_last)
next
  case (3 x y ys)
  obtain sps where sps: "list_all2 (\<lambda>sp it. set sp \<subseteq> {CHR '' ''}) sps (y # ys)"
    "getlines (CHR '','') ('' '' @ enum_text (y # ys)) = map2 (\<lambda>sp it. sp @ enum_item it) sps (y # ys)"
    using 3 by (metis list.set(1,2) list.set_intros(2) list.simps(3) order_refl)
  have "CHR '','' \<notin> set (sp @ enum_item x)"
    using 3 enum_item_chars [of x] by auto
  then have "getlines (CHR '','') (sp @ enum_text (x # y # ys)) =
      (sp @ enum_item x) # getlines (CHR '','') ('' '' @ enum_text (y # ys))"
    using getlines_cons [of "CHR '',''" "sp @ enum_item x" "'' '' @ enum_text (y # ys)"] by simp
  then show ?case
    using sps 3(4) by (intro exI [of _ "sp # sps"]) simp
qed

lemma enum_text_braces:
  assumes "\<forall>it \<in> set its. clean_key (fst it)"
  shows "CHR ''{'' \<notin> set (enum_text its) \<and> CHR ''}'' \<notin> set (enum_text its)"
  using assms by (induction its rule: enum_text.induct) (auto dest: enum_item_chars)

lemma enum_content_of:
  assumes "CHR ''{'' \<notin> set pre" "CHR ''}'' \<notin> set pre" "CHR ''}'' \<notin> set body"
    and "length (pre @ ''{'' @ body) < 2 ^ 64"
  shows "enum_content (pre @ ''{'' @ body @ ''}'' @ post) = body"
proof -
  let ?s = "pre @ ''{'' @ body @ ''}'' @ post"
  have b: "find_char (CHR ''{'') ?s = Some (length pre)"
    using find_char_first [OF assms(1), of "body @ ''}'' @ post"] by simp
  have e: "find_char (CHR ''}'') ?s = Some (length (pre @ ''{'' @ body))"
    using assms find_char_first [of "CHR ''}''" "pre @ ''{'' @ body" post] by simp
  have "unat ((of_nat (length (pre @ ''{'' @ body)) :: ulong) - of_nat (length pre) - 1) = length body"
    using assms(4) by (simp add: unat_of_nat)
  moreover have "unat ((of_nat (length pre) :: ulong) + 1) = Suc (length pre)"
  proof -
    have "(of_nat (length pre) :: ulong) + 1 = of_nat (Suc (length pre))" by simp
    moreover have "Suc (length pre) < 2 ^ LENGTH(64)" using assms(4) by simp
    ultimately show ?thesis by (simp only: unat_of_nat_small)
  qed
  ultimately show ?thesis
    unfolding enum_content_def b e by (simp add: npos_def Let_def)
qed

lemma ret_buf_listing:
  assumes "ptype_enum cr e = s @ post" "length s < BUFSIZE * 5"
  shows "\<exists>post'. ret_buf cr e = s @ post'"
  using assms by (simp add: ret_buf_def)

lemma read_enum_list_vals:
  assumes "ptype_enum cr e = pre @ ''{'' @ enum_text its @ ''}'' @ post"
    and "CHR ''{'' \<notin> set pre" "CHR ''}'' \<notin> set pre" "length (pre @ ''{'' @ enum_text its @ ''}'') < BUFSIZE * 5"
    and "\<forall>(k, ov) \<in> set its. clean_key k \<and> int_val ov" "distinct (map fst its)" "its \<noteq> []"
  shows "read_enum_list cr e = Some (map_of (enum_vals 0 its))"
proof -
  have ck: "\<forall>it \<in> set its. clean_key (fst it)" using assms(5) by auto
  obtain post' where r: "ret_buf cr e = pre @ ''{'' @ enum_text its @ ''}'' @ post'"
    using ret_buf_listing [of cr e "pre @ ''{'' @ enum_text its @ ''}''" post] assms(1,4) by auto
  have "enum_content (ret_buf cr e) = enum_text its"
    using assms(2-4) enum_text_braces [OF ck] by (simp only: r) (intro enum_content_of; simp add: BUFSIZE_def)
  moreover obtain sps where "list_all2 (\<lambda>sp it. set sp \<subseteq> {CHR '' ''}) sps its"
    "getlines (CHR '','') (enum_text its) = map2 (\<lambda>sp it. sp @ enum_item it) sps its"
    using getlines_enum_text [OF ck assms(7), of "[]"] by auto
  ultimately show ?thesis
    using enum_items_vals [OF assms(5,6), of Map.empty sps 0] by (simp add: read_enum_list_def)
qed

text \<open>The values C gives: an enumerator without one is the previous one plus one.\<close>

fun c_enum_vals :: "int \<Rightarrow> (string \<times> int option) list \<Rightarrow> (string \<times> ulong) list" where
  "c_enum_vals n [] = []"
| "c_enum_vals n ((k, None) # its) = (k, word_of_int n) # c_enum_vals (n + 1) its"
| "c_enum_vals n ((k, Some v) # its) = (k, word_of_int v) # c_enum_vals (v + 1) its"

abbreviation implicit_first :: "(string \<times> int option) list \<Rightarrow> bool" where
  "implicit_first its \<equiv> sorted_wrt (\<lambda>x y. snd x \<noteq> None \<longrightarrow> snd y \<noteq> None) its"

lemma enum_vals_explicit:
  "\<forall>x \<in> set its. snd x \<noteq> None \<Longrightarrow> enum_vals c its = c_enum_vals n its"
  by (induction n its arbitrary: c rule: c_enum_vals.induct) auto

lemma enum_vals_c: "implicit_first its \<Longrightarrow> enum_vals c its = c_enum_vals c its"
  by (induction c its rule: c_enum_vals.induct) (auto intro: enum_vals_explicit)

text \<open>C36. On gdb's listing of an enum, as long as it fits the buffer and no enumerator without a value stands
  after one with a value, the reader returns every enumerator with the value C gives it, printed or
  the previous one plus one.\<close>

theorem read_enum_list_spec:
  assumes "ptype_enum cr e = pre @ ''{'' @ enum_text its @ ''}'' @ post"
    and "CHR ''{'' \<notin> set pre" "CHR ''}'' \<notin> set pre" "length (pre @ ''{'' @ enum_text its @ ''}'') < BUFSIZE * 5"
    and "\<forall>(k, ov) \<in> set its. clean_key k \<and> int_val ov" "distinct (map fst its)" "its \<noteq> []"
    and "sorted_wrt (\<lambda>x y. snd x \<noteq> None \<longrightarrow> snd y \<noteq> None) its"
  shows "read_enum_list cr e = Some (map_of (c_enum_vals 0 its))"
  using read_enum_list_vals [OF assms(1-7)] enum_vals_c [OF assms(8)] by simp

lemma enum_text_example:
  "enum_text [(''A'', None), (''B'', None), (''C'', Some 5), (''D'', Some 9)] = ''A, B, C = 5, D = 9''"
  by (simp add: show_int_def show_dec_def digits.simps digit_def char_of_def bit_0)

lemma read_enum_list_spec_witness:
  "read_enum_list (empty_session\<lparr>ptype_enum := \<lambda>_. ''enum e {A, B, C = 5, D = 9}''\<rparr>) ''e'' =
     Some (map_of [(''A'', 0), (''B'', 1), (''C'', 5), (''D'', 9)])"
proof -
  have "read_enum_list (empty_session\<lparr>ptype_enum := \<lambda>_. ''enum e {A, B, C = 5, D = 9}''\<rparr>) ''e'' =
     Some (map_of (c_enum_vals 0 [(''A'', None), (''B'', None), (''C'', Some 5), (''D'', Some 9)]))"
    by (rule read_enum_list_spec [where pre = "''enum e ''" and post = "[]"])
      (simp_all add: enum_text_example clean_key_def int_val_def is_blank_def BUFSIZE_def
        del: enum_text.simps enum_item.simps)
  then show ?thesis by simp
qed



end
