(* ===== verification/Zram.thy ===== *)
theory Zram
  imports Walk Text
begin

text \<open>
  The zram reader (\<^verbatim>\<open>src/memory/zraminfo.cpp\<close>, \<^verbatim>\<open>zraminfo.h\<close>): the parse of a zram device, its
  zsmalloc pool and size classes, the parse of the zspages of a class into objects, and the read of
  one page of the device through its table entry. A \<^verbatim>\<open>std::shared_ptr\<close> that may be null is an
  option; where a function may also fail to return, that option is inside another one.
\<close>

section \<open>Data\<close>

record zram_table_entry =
  te_handle :: ulong
  te_flags :: ulong

text \<open>The union of \<^verbatim>\<open>struct zspage\<close> is its \<^verbatim>\<open>flag_bits\<close>; the bit fields are read from it by position.\<close>

record zspage =
  flag_bits :: uint
  zs_inuse :: uint
  zs_freeobj :: uint

text \<open>The union of \<^verbatim>\<open>next\<close> and \<^verbatim>\<open>index\<close> is one field.\<close>

record zobj =
  zo_id :: int
  zo_start :: ulong
  zo_end :: ulong
  zo_handle_addr :: ulong
  zo_pfn :: ulong
  zo_index :: int
  zo_is_free :: bool

record pageinfo =
  pi_addr :: ulong
  pi_obj_list :: "zobj list"

record zpage =
  zp_addr :: ulong
  zp_zspage :: zspage
  zp_obj_index :: int
  zp_page_list :: "pageinfo list"

record size_class =
  sc_addr :: ulong
  sc_fullness_list :: "zpage option list list"
  sc_zspage_parser :: bool
  sc_size :: int
  sc_objs_per_zspage :: int
  sc_pages_per_zspage :: int
  sc_index :: uint
  sc_stats :: "ulong list"

record zs_pool =
  po_addr :: ulong
  po_name :: string
  po_class_list :: "size_class option list"
  po_pages_allocated :: ulong
  po_pages_compacted :: int
  po_isolated_pages :: int
  po_destroying :: bool

record zram_stats =
  compr_data_size :: ulong
  num_reads :: ulong
  num_writes :: ulong
  failed_reads :: ulong
  failed_writes :: ulong
  invalid_io :: ulong
  notify_free :: ulong
  same_pages :: ulong
  huge_pages :: ulong
  huge_pages_since :: ulong
  pages_stored :: ulong
  max_used_pages :: ulong
  writestall :: ulong
  miss_free :: ulong

record zram =
  zr_addr :: ulong
  zr_table :: ulong
  zr_mem_pool :: "zs_pool option"
  zr_zcomp_name :: string
  zr_disk_name :: string
  zr_limit_pages :: ulong
  zr_stats :: zram_stats
  zr_disksize :: ulong
  zr_compressor :: string
  zr_claim :: bool

record zraminfo = plugin +
  ZRAM_FLAG_SHIFT :: int
  ZRAM_FLAG_SAME_BIT :: int
  ZRAM_FLAG_WB_BIT :: int
  ZRAM_COMP_PRIORITY_BIT1 :: int
  ZRAM_COMP_PRIORITY_MASK :: int
  group_cnt :: int
  zram_list :: "zram list"

section \<open>The object\<close>

text \<open>\<^verbatim>\<open>1 << n\<close> as an int, for the shift counts below 32 the sources use.\<close>

definition shl1 :: "int \<Rightarrow> int" where
  "shl1 n = sint (push_bit (nat n) (1 :: uint))"

definition zram_fields :: "init_stmt list" where
  "zram_fields =
    [Field ''zram'' ''table'', Field ''zram'' ''mem_pool'', Field ''zram'' ''comp'', Field ''zram'' ''comps'',
     Field ''zram'' ''disk'', Field ''zram'' ''limit_pages'', Field ''zram'' ''stats'', Field ''zram'' ''disksize'',
     Field ''zram'' ''compressor'', Field ''zram'' ''comp_algs'', Field ''zram'' ''claim'', Struct ''zram'',
     Field ''zs_pool'' ''name'', Field ''zs_pool'' ''size_class'', Field ''zs_pool'' ''pages_allocated'',
     Field ''zs_pool'' ''stats'', Field ''zs_pool'' ''isolated_pages'', Field ''zs_pool'' ''destroying'',
     Struct ''zs_pool'',
     Field ''size_class'' ''fullness_list'', Field ''size_class'' ''size'', Field ''size_class'' ''objs_per_zspage'',
     Field ''size_class'' ''pages_per_zspage'', Field ''size_class'' ''index'', Field ''size_class'' ''stats'',
     Struct ''size_class'',
     Field ''zspage'' ''inuse'', Field ''zspage'' ''freeobj'', Field ''zspage'' ''first_page'',
     Field ''zspage'' ''list'', Field ''zspage'' ''huge'', Struct ''zspage'',
     Field ''zs_size_stat'' ''objs'',
     Field ''zram_stats'' ''compr_data_size'', Field ''zram_stats'' ''num_reads'', Field ''zram_stats'' ''num_writes'',
     Field ''zram_stats'' ''failed_reads'', Field ''zram_stats'' ''failed_writes'', Field ''zram_stats'' ''invalid_io'',
     Field ''zram_stats'' ''notify_free'', Field ''zram_stats'' ''same_pages'', Field ''zram_stats'' ''huge_pages'',
     Field ''zram_stats'' ''huge_pages_since'', Field ''zram_stats'' ''pages_stored'',
     Field ''zram_stats'' ''max_used_pages'', Field ''zram_stats'' ''writestall'', Field ''zram_stats'' ''miss_free'',
     Struct ''zram_stats'',
     Field ''gendisk'' ''disk_name'', Field ''zcomp'' ''name'', Field ''link_free'' ''handle'', Field ''idr'' ''idr_rt'']"

text \<open>
  The constructor, on the object the constructor of the base class leaves. The quotient of
  \<^verbatim>\<open>group_cnt\<close> is taken in \<^verbatim>\<open>size_t\<close> and cut to an int.
\<close>

definition Zraminfo :: "crash \<Rightarrow> zraminfo option" where
  "Zraminfo cr = do {
     base \<leftarrow> ParserPlugin cr;
     let pl = run_inits cr zram_fields
       (plugin.extend base \<lparr>ZRAM_FLAG_SHIFT = 0, ZRAM_FLAG_SAME_BIT = 0, ZRAM_FLAG_WB_BIT = 0,
          ZRAM_COMP_PRIORITY_BIT1 = 0, ZRAM_COMP_PRIORITY_MASK = 0, group_cnt = 0, zram_list = []\<rparr>);
     let shift = (if THIS_KERNEL_VERSION cr \<ge> LINUX 6 1 0 then int (PAGESHIFT cr) + 1 else 24);
     Some (pl\<lparr>ZRAM_FLAG_SHIFT := shift,
              ZRAM_FLAG_SAME_BIT := shl1 (shift + 1),
              ZRAM_FLAG_WB_BIT := shl1 (shift + 2),
              ZRAM_COMP_PRIORITY_BIT1 := shift + 7,
              ZRAM_COMP_PRIORITY_MASK := 3,
              group_cnt := to_int32 (off (field_size pl ''size_class'' ''fullness_list'') div 16)\<rparr>) }"

definition is_zram_enable :: "crash \<Rightarrow> 'a plugin_scheme \<Rightarrow> bool" where
  "is_zram_enable cr pl \<longleftrightarrow>
     \<not> (field_offset pl ''zram'' ''mem_pool'' = -1 \<or> field_offset pl ''size_class'' ''size'' = -1) \<and>
     symbol_exists cr ''zram_index_idr''"

section \<open>Handles and zspages\<close>

definition OBJ_INDEX_BITS :: "crash \<Rightarrow> int" where
  "OBJ_INDEX_BITS cr = 64 - (int (MAX_PHYSMEM_BITS cr) - int (PAGESHIFT cr)) - 1"

definition OBJ_INDEX_MASK :: "crash \<Rightarrow> int" where
  "OBJ_INDEX_MASK cr = shl1 (OBJ_INDEX_BITS cr) - 1"

definition handle_to_location :: "crash \<Rightarrow> ulong \<Rightarrow> ulong \<times> int" where
  "handle_to_location cr handle =
     (let handle = drop_bit 1 handle in
      (drop_bit (nat (OBJ_INDEX_BITS cr)) handle, to_int32 (handle AND off (OBJ_INDEX_MASK cr))))"

text \<open>A bit field of \<open>w\<close> bits that begins at bit \<open>lo\<close>.\<close>

definition bits :: "nat \<Rightarrow> nat \<Rightarrow> uint \<Rightarrow> int" where
  "bits lo w f = uint (take_bit w (drop_bit lo f))"

definition v0_class_id :: "zspage \<Rightarrow> int" where "v0_class_id z = bits 2 9 (flag_bits z)"
definition v0_magic :: "zspage \<Rightarrow> int" where "v0_magic z = bits 14 8 (flag_bits z)"
definition v5_17_class_id :: "zspage \<Rightarrow> int" where "v5_17_class_id z = bits 3 9 (flag_bits z)"
definition v5_17_magic :: "zspage \<Rightarrow> int" where "v5_17_magic z = bits 15 8 (flag_bits z)"
definition v6_6_class_id :: "zspage \<Rightarrow> int" where "v6_6_class_id z = bits 5 9 (flag_bits z)"
definition v6_6_magic :: "zspage \<Rightarrow> int" where "v6_6_magic z = bits 19 8 (flag_bits z)"
definition v6_12_magic :: "zspage \<Rightarrow> int" where "v6_12_magic z = bits 14 8 (flag_bits z)"

definition get_class_id :: "crash \<Rightarrow> 'a plugin_scheme \<Rightarrow> zspage \<Rightarrow> int" where
  "get_class_id cr pl z =
     (if field_offset pl ''zspage'' ''huge'' \<noteq> -1
      then if THIS_KERNEL_VERSION cr \<ge> LINUX 6 6 0 then v6_6_class_id z else v5_17_class_id z
      else v0_class_id z)"

definition zs_magic :: "crash \<Rightarrow> 'a plugin_scheme \<Rightarrow> zspage \<Rightarrow> int" where
  "zs_magic cr pl z =
     (if field_offset pl ''zspage'' ''huge'' \<noteq> -1
      then if THIS_KERNEL_VERSION cr \<ge> LINUX 6 12 0 then v6_12_magic z
           else if THIS_KERNEL_VERSION cr \<ge> LINUX 6 6 0 then v6_6_magic z
           else v5_17_magic z
      else v0_magic z)"

text \<open>The raw read of \<^verbatim>\<open>sizeof(struct zspage)\<close> = 12 bytes into the struct.\<close>

definition zspage_of_bytes :: "byte list \<Rightarrow> zspage option" where
  "zspage_of_bytes buf = do {
     f \<leftarrow> UINT buf 0;
     i \<leftarrow> UINT buf 4;
     o' \<leftarrow> UINT buf 8;
     Some \<lparr>flag_bits = f, zs_inuse = i, zs_freeobj = o'\<rparr> }"

definition get_zspage :: "crash \<Rightarrow> 'a plugin_scheme \<Rightarrow> ulong \<Rightarrow> zspage option" where
  "get_zspage cr pl page =
     (let zspage_addr = read_ulong cr (page + off (field_offset pl ''page'' ''private'')) True in
      if \<not> IS_KVADDR cr zspage_addr then None
      else do {
        buf \<leftarrow> read_struct_into cr zspage_addr 12 True;
        zp \<leftarrow> zspage_of_bytes buf;
        if zs_magic cr pl zp \<noteq> 0x58 then None else Some zp })"

section \<open>Reading an object\<close>

definition read_table_entry :: "crash \<Rightarrow> zram \<Rightarrow> ulong \<Rightarrow> zram_table_entry option" where
  "read_table_entry cr zram_ptr index = do {
     let table_entry_addr = zr_table zram_ptr + index * 16;
     buf \<leftarrow> read_struct_into cr table_entry_addr 16 True;
     h \<leftarrow> ULONG buf 0;
     f \<leftarrow> ULONG buf 8;
     Some \<lparr>te_handle = h, te_flags = f\<rparr> }"

text \<open>
  \<^verbatim>\<open>zram_ptr->mem_pool->class_list[class_idx]\<close>, then dereferenced: a null pool, an index past the end
  of the vector and a null class are no value.
\<close>

definition class_of :: "zram \<Rightarrow> int \<Rightarrow> size_class option" where
  "class_of zram_ptr class_idx = do {
     pool \<leftarrow> zr_mem_pool zram_ptr;
     if class_idx < int (length (po_class_list pool)) then po_class_list pool ! nat class_idx else None }"

abbreviation HugeObject :: "size_class \<Rightarrow> bool" where
  "HugeObject c \<equiv> sc_objs_per_zspage c = 1 \<and> sc_pages_per_zspage c = 1"

text \<open>
  The bytes of the object: in one page, or the end of one page and the start of the next. A null
  result is the inner \<^term>\<open>None\<close> (a page that has no physical address). A failed read is copied from
  a null pointer, and a negative size makes \<^verbatim>\<open>malloc\<close> fail and \<^verbatim>\<open>BZERO\<close> write through null.
\<close>

definition read_object_bytes ::
  "crash \<Rightarrow> 'a plugin_scheme \<Rightarrow> ulong \<Rightarrow> int \<Rightarrow> int \<Rightarrow> byte list option option" where
  "read_object_bytes cr pl page class_size obj_idx =
     (if class_size < 0 then None
      else let page_size = of_nat (PAGESIZE cr); obj_size = off class_size;
        offset = (obj_size * off obj_idx) AND (page_size - 1) in
      if offset + obj_size \<le> page_size
      then let paddr = page_to_phy cr page in
        if paddr = 0 then Some None
        else map_option Some (read_memory cr (paddr + offset) (to_int32 obj_size) False)
      else
        let next = (if field_offset pl ''page'' ''freelist'' \<noteq> -1
                    then read_pointer cr (page + off (field_offset pl ''page'' ''freelist'')) True
                    else read_pointer cr (page + off (field_offset pl ''page'' ''index'')) True);
            size0 = page_size - offset; size1 = obj_size - size0;
            paddr0 = page_to_phy cr page in
        if paddr0 = 0 then Some None
        else do {
          part0 \<leftarrow> read_memory cr (paddr0 + offset) (to_int32 size0) False;
          let paddr1 = page_to_phy cr next;
          if paddr1 = 0 then Some None
          else do {
            part1 \<leftarrow> read_memory cr paddr1 (to_int32 size1) False;
            Some (Some (part0 @ part1)) } })"

definition read_object ::
  "crash \<Rightarrow> 'a plugin_scheme \<Rightarrow> zram \<Rightarrow> zram_table_entry \<Rightarrow> (byte list \<times> int \<times> bool) option option" where
  "read_object cr pl zram_ptr entry =
     (if \<not> IS_KVADDR cr (te_handle entry) then Some None
      else
        let handle = read_ulong cr (te_handle entry) True;
            (pfn, obj_idx) = handle_to_location cr handle;
            page = pfn_to_page cr pfn in
        if \<not> IS_KVADDR cr page then Some None
        else case get_zspage cr pl page of
          None \<Rightarrow> Some None
        | Some zspage_s \<Rightarrow> do {
            class_ptr \<leftarrow> class_of zram_ptr (get_class_id cr pl zspage_s);
            obj \<leftarrow> read_object_bytes cr pl page (sc_size class_ptr) obj_idx;
            case obj of
              None \<Rightarrow> Some None
            | Some obj_buf \<Rightarrow>
                if \<not> HugeObject class_ptr
                then do {
                  handle_addr \<leftarrow> ULONG obj_buf 0;
                  if te_handle entry \<noteq> handle_addr AND NOT 1 then Some None
                  else Some (Some (obj_buf, sc_size class_ptr, False)) }
                else Some (Some (obj_buf, sc_size class_ptr, True)) })"

section \<open>Decompression\<close>

text \<open>
  \<open>dest\<close> after the call: what the decompressor wrote, then what was there before. The decompressors of
  \<^verbatim>\<open>src/lib\<close> are fields of the session, their result code is dropped by the caller. Of a \<open>source\<close>
  with fewer than \<open>compressedSize\<close> bytes left in its buffer the read runs past the end, and a
  decompressor that writes more than \<open>dest\<close> holds writes past the page buffer: neither has a value.
\<close>

definition decompress :: "crash \<Rightarrow> string \<Rightarrow> byte list \<Rightarrow> byte list \<Rightarrow> int \<Rightarrow> byte list option" where
  "decompress cr comp_name source dest compressedSize =
     (if \<not> contains comp_name ''lz4'' \<and> \<not> contains comp_name ''lzo'' then Some dest
      else if compressedSize < 0 \<or> int (length source) < compressedSize then None
      else
        let src = take (nat compressedSize) source;
            written = (if contains comp_name ''lz4'' then LZ4_decompress_safe cr src (length dest)
                       else lzo1x_decompress_safe cr src (length dest)) in
        if length dest < length written then None
        else Some (written @ drop (length written) dest))"

section \<open>Parsing a zspage\<close>

definition parser_zobj :: "crash \<Rightarrow> int \<Rightarrow> ulong \<Rightarrow> ulong \<Rightarrow> ulong \<Rightarrow> zobj" where
  "parser_zobj cr obj_id handle_addr start end' =
     (if handle_addr AND 1 \<noteq> 0
      then let ha = handle_addr AND NOT 1;
               (pfn, index) = handle_to_location cr (read_ulong cr ha True) in
        \<lparr>zo_id = obj_id, zo_start = start, zo_end = end', zo_handle_addr = ha, zo_pfn = pfn,
         zo_index = index, zo_is_free = False\<rparr>
      else \<lparr>zo_id = obj_id, zo_start = start, zo_end = end', zo_handle_addr = handle_addr, zo_pfn = 0,
         zo_index = to_int32 (drop_bit 1 handle_addr), zo_is_free = True\<rparr>)"

text \<open>The object at \<open>obj_start\<close>, whose handle is read from the object itself; a failed read is dereferenced.\<close>

definition zobj_at :: "crash \<Rightarrow> 'a plugin_scheme \<Rightarrow> int \<Rightarrow> ulong \<Rightarrow> ulong \<Rightarrow> zobj option" where
  "zobj_at cr pl obj_index obj_start obj_end = do {
     buf \<leftarrow> read_memory cr (obj_start + off (field_offset pl ''link_free'' ''handle'')) 8 False;
     handle_addr \<leftarrow> ULONG buf 0;
     Some (parser_zobj cr obj_index handle_addr obj_start obj_end) }"

text \<open>The loop over the objects of a page and the part of the last one.\<close>

partial_function (option) zobj_loop ::
  "crash \<Rightarrow> 'a plugin_scheme \<Rightarrow> int \<Rightarrow> ulong \<Rightarrow> int \<Rightarrow> ulong \<Rightarrow> ulong \<Rightarrow> zobj list option" where
  "zobj_loop cr pl class_size page_end obj_index obj_start obj_end =
     (if obj_end < page_end
      then do {
        zsobj \<leftarrow> zobj_at cr pl obj_index obj_start obj_end;
        rest \<leftarrow> zobj_loop cr pl class_size page_end (obj_index + 1) obj_end (obj_end + off class_size);
        Some (zsobj # rest) }
      else do {
        zsobj \<leftarrow> zobj_at cr pl obj_index obj_start page_end;
        Some [zsobj] })"

definition parser_obj :: "crash \<Rightarrow> 'a plugin_scheme \<Rightarrow> ulong \<Rightarrow> size_class \<Rightarrow> zpage \<Rightarrow> zpage option" where
  "parser_obj cr pl page_addr class_ptr zspage_ptr = do {
     let offset = read_int cr (page_addr + off (field_offset pl ''page'' ''units'')) True;
     let page_start = page_to_phy cr page_addr;
     let page_end = page_start + of_nat (PAGESIZE cr);
     objs \<leftarrow>
       (if HugeObject class_ptr
        then Some [parser_zobj cr (zp_obj_index zspage_ptr)
               (read_ulong cr (page_addr + off (field_offset pl ''page'' ''index'')) True) page_start page_end]
        else zobj_loop cr pl (sc_size class_ptr) page_end (zp_obj_index zspage_ptr)
               (page_start + off offset) (page_start + off offset + off (sc_size class_ptr)));
     Some (zspage_ptr\<lparr>zp_obj_index := zp_obj_index zspage_ptr + int (length objs),
       zp_page_list := zp_page_list zspage_ptr @ [\<lparr>pi_addr = page_addr, pi_obj_list = objs\<rparr>]\<rparr>) }"

partial_function (option) parser_pages_loop ::
  "crash \<Rightarrow> 'a plugin_scheme \<Rightarrow> size_class \<Rightarrow> int \<Rightarrow> ulong \<Rightarrow> zpage \<Rightarrow> zpage option" where
  "parser_pages_loop cr pl class_ptr pages page_addr zspage_ptr =
     (if IS_KVADDR cr page_addr
      then do {
        zspage_ptr \<leftarrow> parser_obj cr pl page_addr class_ptr zspage_ptr;
        if pages + 1 = sc_pages_per_zspage class_ptr then Some zspage_ptr
        else parser_pages_loop cr pl class_ptr (pages + 1)
               (read_ulong cr (page_addr + off (field_offset pl ''page'' ''freelist'')) True) zspage_ptr }
      else Some zspage_ptr)"

definition parser_pages :: "crash \<Rightarrow> 'a plugin_scheme \<Rightarrow> ulong \<Rightarrow> size_class \<Rightarrow> zpage \<Rightarrow> zpage option" where
  "parser_pages cr pl first_page class_ptr zspage_ptr = parser_pages_loop cr pl class_ptr 0 first_page zspage_ptr"

definition parser_zpage :: "crash \<Rightarrow> 'a plugin_scheme \<Rightarrow> ulong \<Rightarrow> size_class \<Rightarrow> zpage option option" where
  "parser_zpage cr pl addr class_ptr =
     (if \<not> IS_KVADDR cr addr then Some None
      else case read_struct cr pl addr ''zspage'' True of
        None \<Rightarrow> Some None
      | Some zspage_buf \<Rightarrow> do {
          f \<leftarrow> UINT zspage_buf 0;
          i \<leftarrow> UINT zspage_buf (field_offset pl ''zspage'' ''inuse'');
          o' \<leftarrow> UINT zspage_buf (field_offset pl ''zspage'' ''freeobj'');
          first_page \<leftarrow> ULONG zspage_buf (field_offset pl ''zspage'' ''first_page'');
          zspage_ptr \<leftarrow> parser_pages cr pl first_page class_ptr
            \<lparr>zp_addr = addr, zp_zspage = \<lparr>flag_bits = f, zs_inuse = i, zs_freeobj = o'\<rparr>,
             zp_obj_index = 0, zp_page_list = []\<rparr>;
          Some (Some zspage_ptr) })"

section \<open>Parsing the device\<close>

definition parser_size_class :: "crash \<Rightarrow> 'a plugin_scheme \<Rightarrow> ulong \<Rightarrow> size_class option option" where
  "parser_size_class cr pl addr =
     (if \<not> IS_KVADDR cr addr then Some None
      else case read_struct cr pl addr ''size_class'' True of
        None \<Rightarrow> Some None
      | Some class_buf \<Rightarrow> do {
          sz \<leftarrow> C_INT class_buf (field_offset pl ''size_class'' ''size'');
          objs \<leftarrow> C_INT class_buf (field_offset pl ''size_class'' ''objs_per_zspage'');
          pages \<leftarrow> C_INT class_buf (field_offset pl ''size_class'' ''pages_per_zspage'');
          index \<leftarrow> UINT class_buf (field_offset pl ''size_class'' ''index'');
          let stats_cnt = to_int32 (off (field_size pl ''zs_size_stat'' ''objs'') div 8);
          let stats_addr = addr + off (field_offset pl ''size_class'' ''stats'');
          Some (Some \<lparr>sc_addr = addr, sc_fullness_list = [], sc_zspage_parser = False, sc_size = sz,
            sc_objs_per_zspage = objs, sc_pages_per_zspage = pages, sc_index = index,
            sc_stats = map (\<lambda>i. read_ulong cr (stats_addr + of_nat i * 8) True) [0..<nat stats_cnt]\<rparr>) })"

text \<open>\<^verbatim>\<open>parser_zpage(class_ptr)\<close> fills the fullness lists of a class in place.\<close>

definition fullness_group :: "crash \<Rightarrow> 'a plugin_scheme \<Rightarrow> size_class \<Rightarrow> nat \<Rightarrow> zpage option list option" where
  "fullness_group cr pl class_ptr i = do {
     let group_addr = sc_addr class_ptr + off (field_offset pl ''size_class'' ''fullness_list'') + of_nat i * 16;
     addrs \<leftarrow> for_each_list cr pl group_addr (field_offset pl ''zspage'' ''list'');
     those_opt (map (\<lambda>a. parser_zpage cr pl a class_ptr) addrs) }"

definition parser_zpages :: "crash \<Rightarrow> 'a zraminfo_scheme \<Rightarrow> size_class \<Rightarrow> size_class option" where
  "parser_zpages cr pl class_ptr = do {
     groups \<leftarrow> those_opt (map (fullness_group cr pl class_ptr) [0..<nat (group_cnt pl)]);
     Some (class_ptr\<lparr>sc_fullness_list := sc_fullness_list class_ptr @ groups, sc_zspage_parser := True\<rparr>) }"

text \<open>
  Its callers pass a class of a device of \<^verbatim>\<open>zram_list\<close>, which the list and the caller share: the
  change is one of the list. \<open>parser_zpage_in\<close> is the call on class \<open>j\<close> of the pool of device \<open>i\<close>; a null
  pool or class and a position outside the vectors are dereferenced. \<open>parser_zpage_once\<close> is the call
  under the test the printing commands of \<^verbatim>\<open>zram.cpp\<close> make.
\<close>

definition class_at :: "'a zraminfo_scheme \<Rightarrow> nat \<Rightarrow> nat \<Rightarrow> (zram \<times> zs_pool \<times> size_class) option" where
  "class_at pl i j =
     (if i < length (zram_list pl)
      then do {
        let z = zram_list pl ! i;
        pool \<leftarrow> zr_mem_pool z;
        if j < length (po_class_list pool)
        then do { class_ptr \<leftarrow> po_class_list pool ! j; Some (z, pool, class_ptr) }
        else None }
      else None)"

definition parser_zpage_in :: "crash \<Rightarrow> nat \<Rightarrow> nat \<Rightarrow> 'a zraminfo_scheme \<Rightarrow> 'a zraminfo_scheme option" where
  "parser_zpage_in cr i j pl = do {
     (z, pool, class_ptr) \<leftarrow> class_at pl i j;
     class_ptr \<leftarrow> parser_zpages cr pl class_ptr;
     Some (pl\<lparr>zram_list := (zram_list pl)
       [i := z\<lparr>zr_mem_pool := Some (pool\<lparr>po_class_list := (po_class_list pool)[j := Some class_ptr]\<rparr>)\<rparr>]\<rparr>) }"

definition parser_zpage_once :: "crash \<Rightarrow> nat \<Rightarrow> nat \<Rightarrow> 'a zraminfo_scheme \<Rightarrow> 'a zraminfo_scheme option" where
  "parser_zpage_once cr i j pl = do {
     (_, _, class_ptr) \<leftarrow> class_at pl i j;
     if \<not> sc_zspage_parser class_ptr then parser_zpage_in cr i j pl else Some pl }"

definition pool_classes :: "crash \<Rightarrow> 'a plugin_scheme \<Rightarrow> ulong \<Rightarrow> size_class option list option" where
  "pool_classes cr pl addr =
     (let class_cnt = to_int32 (off (field_size pl ''zs_pool'' ''size_class'') div 8);
          class_addr = (\<lambda>i. read_pointer cr
            (addr + off (field_offset pl ''zs_pool'' ''size_class'') + of_nat i * 8) True) in
      those_opt (map (parser_size_class cr pl)
        (filter (IS_KVADDR cr) (map class_addr [0..<nat class_cnt]))))"

definition parser_mem_pool :: "crash \<Rightarrow> 'a plugin_scheme \<Rightarrow> ulong \<Rightarrow> zs_pool option option" where
  "parser_mem_pool cr pl addr =
     (if \<not> IS_KVADDR cr addr then Some None
      else case read_struct cr pl addr ''zs_pool'' True of
        None \<Rightarrow> Some None
      | Some pool_buf \<Rightarrow> do {
          name_addr \<leftarrow> ULONG pool_buf (field_offset pl ''zs_pool'' ''name'');
          name \<leftarrow> read_cstring cr name_addr 64 True;
          allocated \<leftarrow> C_INT pool_buf (field_offset pl ''zs_pool'' ''pages_allocated'');
          isolated \<leftarrow> (if field_offset pl ''zs_pool'' ''isolated_pages'' \<noteq> -1
                       then C_INT pool_buf (field_offset pl ''zs_pool'' ''isolated_pages'') else Some 0);
          destroying \<leftarrow> (if field_offset pl ''zs_pool'' ''destroying'' \<noteq> -1
                         then BOOL pool_buf (field_offset pl ''zs_pool'' ''destroying'') else Some False);
          compacted \<leftarrow> (case read_struct_into cr (addr + off (field_offset pl ''zs_pool'' ''stats'')) 4 True of
                          None \<Rightarrow> Some 0 | Some buf \<Rightarrow> C_INT buf 0);
          classes \<leftarrow> pool_classes cr pl addr;
          Some (Some \<lparr>po_addr = addr, po_name = name, po_class_list = classes,
            po_pages_allocated = off allocated, po_pages_compacted = compacted,
            po_isolated_pages = isolated, po_destroying = destroying\<rparr>) })"

definition read_zcomp_name :: "crash \<Rightarrow> 'a plugin_scheme \<Rightarrow> ulong \<Rightarrow> string option" where
  "read_zcomp_name cr pl zcomp_addr =
     (if \<not> IS_KVADDR cr zcomp_addr then Some ''''
      else let zcomp_name_addr = read_pointer cr (zcomp_addr + off (field_offset pl ''zcomp'' ''name'')) True in
        if \<not> IS_KVADDR cr zcomp_name_addr then Some '''' else read_cstring cr zcomp_name_addr 64 True)"

definition parse_zcomp_name :: "crash \<Rightarrow> 'a plugin_scheme \<Rightarrow> byte list \<Rightarrow> string option" where
  "parse_zcomp_name cr pl zram_buf =
     (if field_offset pl ''zram'' ''comp'' \<noteq> -1
      then do { a \<leftarrow> ULONG zram_buf (field_offset pl ''zram'' ''comp''); read_zcomp_name cr pl a }
      else if field_offset pl ''zram'' ''comps'' \<noteq> -1
      then do { a \<leftarrow> ULONG zram_buf (field_offset pl ''zram'' ''comps''); read_zcomp_name cr pl a }
      else Some '''')"

definition parse_compressor :: "crash \<Rightarrow> 'a plugin_scheme \<Rightarrow> byte list \<Rightarrow> string option" where
  "parse_compressor cr pl zram_buf =
     (if field_offset pl ''zram'' ''compressor'' \<noteq> -1
      then do { compressor_name \<leftarrow> load 128 zram_buf (field_offset pl ''zram'' ''compressor'');
                extract_string compressor_name }
      else if field_offset pl ''zram'' ''comp_algs'' \<noteq> -1
      then do { name_addr \<leftarrow> ULONG zram_buf (field_offset pl ''zram'' ''comp_algs'');
                if IS_KVADDR cr name_addr then read_cstring cr name_addr 64 True else Some '''' }
      else Some '''')"

text \<open>A counter some kernels do not have stays 0.\<close>

definition stat_field :: "'a plugin_scheme \<Rightarrow> byte list \<Rightarrow> string \<Rightarrow> ulong option" where
  "stat_field pl buf f = ULONG buf (field_offset pl ''zram_stats'' f)"

definition stat_field_opt :: "'a plugin_scheme \<Rightarrow> byte list \<Rightarrow> string \<Rightarrow> ulong option" where
  "stat_field_opt pl buf f = (if field_offset pl ''zram_stats'' f \<noteq> -1 then stat_field pl buf f else Some 0)"

definition parse_zram_stats :: "'a plugin_scheme \<Rightarrow> byte list \<Rightarrow> zram_stats option" where
  "parse_zram_stats pl buf = do {
     s1 \<leftarrow> stat_field pl buf ''compr_data_size'';
     s2 \<leftarrow> stat_field_opt pl buf ''num_reads'';
     s3 \<leftarrow> stat_field_opt pl buf ''num_writes'';
     s4 \<leftarrow> stat_field pl buf ''failed_reads'';
     s5 \<leftarrow> stat_field pl buf ''failed_writes'';
     s6 \<leftarrow> stat_field_opt pl buf ''invalid_io'';
     s7 \<leftarrow> stat_field pl buf ''notify_free'';
     s8 \<leftarrow> stat_field pl buf ''same_pages'';
     s9 \<leftarrow> stat_field pl buf ''huge_pages'';
     s10 \<leftarrow> stat_field_opt pl buf ''huge_pages_since'';
     s11 \<leftarrow> stat_field pl buf ''pages_stored'';
     s12 \<leftarrow> stat_field pl buf ''max_used_pages'';
     s13 \<leftarrow> stat_field pl buf ''writestall'';
     s14 \<leftarrow> stat_field pl buf ''miss_free'';
     Some \<lparr>compr_data_size = s1, num_reads = s2, num_writes = s3, failed_reads = s4, failed_writes = s5,
       invalid_io = s6, notify_free = s7, same_pages = s8, huge_pages = s9, huge_pages_since = s10,
       pages_stored = s11, max_used_pages = s12, writestall = s13, miss_free = s14\<rparr> }"

text \<open>The device as the dump has it; \<^verbatim>\<open>parser_zram\<close> also appends it to \<^verbatim>\<open>zram_list\<close>.\<close>

definition zram_at :: "crash \<Rightarrow> 'a plugin_scheme \<Rightarrow> ulong \<Rightarrow> zram option option" where
  "zram_at cr pl addr =
     (case read_struct cr pl addr ''zram'' True of
        None \<Rightarrow> Some None
      | Some zram_buf \<Rightarrow> do {
          pool_addr \<leftarrow> ULONG zram_buf (field_offset pl ''zram'' ''mem_pool'');
          if \<not> IS_KVADDR cr pool_addr then Some None
          else do {
            table \<leftarrow> ULONG zram_buf (field_offset pl ''zram'' ''table'');
            pool \<leftarrow> parser_mem_pool cr pl pool_addr;
            zcomp_name \<leftarrow> parse_zcomp_name cr pl zram_buf;
            disk_addr \<leftarrow> ULONG zram_buf (field_offset pl ''zram'' ''disk'');
            disk_name \<leftarrow> read_cstring cr (disk_addr + off (field_offset pl ''gendisk'' ''disk_name'')) 32 True;
            compressor \<leftarrow> parse_compressor cr pl zram_buf;
            limit \<leftarrow> ULONG zram_buf (field_offset pl ''zram'' ''limit_pages'');
            disksize \<leftarrow> ULONG zram_buf (field_offset pl ''zram'' ''disksize'');
            claim \<leftarrow> BOOL zram_buf (field_offset pl ''zram'' ''claim'');
            (case read_struct cr pl (addr + off (field_offset pl ''zram'' ''stats'')) ''zram_stats'' True of
               None \<Rightarrow> Some None
             | Some stats_buf \<Rightarrow> do {
                 stats \<leftarrow> parse_zram_stats pl stats_buf;
                 Some (Some \<lparr>zr_addr = addr, zr_table = table, zr_mem_pool = pool, zr_zcomp_name = zcomp_name,
                   zr_disk_name = disk_name, zr_limit_pages = limit, zr_stats = stats, zr_disksize = disksize,
                   zr_compressor = compressor, zr_claim = claim\<rparr>) }) } })"

definition parser_zram :: "crash \<Rightarrow> ulong \<Rightarrow> 'a zraminfo_scheme \<Rightarrow> ('a zraminfo_scheme \<times> zram option) option" where
  "parser_zram cr addr pl = do {
     z \<leftarrow> zram_at cr pl addr;
     case z of None \<Rightarrow> Some (pl, None)
     | Some zram_ptr \<Rightarrow> Some (pl\<lparr>zram_list := zram_list pl @ [zram_ptr]\<rparr>, Some zram_ptr) }"

fun parser_zrams_loop :: "crash \<Rightarrow> ulong list \<Rightarrow> 'a zraminfo_scheme \<Rightarrow> 'a zraminfo_scheme option" where
  "parser_zrams_loop cr [] pl = Some pl"
| "parser_zrams_loop cr (a # as) pl = do { (pl, _) \<leftarrow> parser_zram cr a pl; parser_zrams_loop cr as pl }"

definition parser_zrams :: "crash \<Rightarrow> 'a zraminfo_scheme \<Rightarrow> 'a zraminfo_scheme option" where
  "parser_zrams cr pl = do {
     zram_idr_addr \<leftarrow> symbol_value cr ''zram_index_idr'';
     if \<not> IS_KVADDR cr zram_idr_addr then Some pl
     else parser_zrams_loop cr (for_each_xarray cr (zram_idr_addr + off (field_offset pl ''idr'' ''idr_rt''))) pl }"

section \<open>Reading a page\<close>

text \<open>The page once the device is known. \<^verbatim>\<open>memcpy\<close> of a whole page from a shorter object has no value.\<close>

definition zram_page :: "crash \<Rightarrow> 'a zraminfo_scheme \<Rightarrow> zram \<Rightarrow> ulong \<Rightarrow> byte list option option" where
  "zram_page cr pl zram_ptr index =
     (let total_pages = drop_bit (PAGESHIFT cr) (zr_disksize zram_ptr); page_size = PAGESIZE cr in
      if index > total_pages then Some None
      else case read_table_entry cr zram_ptr index of
        None \<Rightarrow> Some None
      | Some entry \<Rightarrow>
          let page_data = replicate page_size 0 in
          if te_flags entry AND off (ZRAM_FLAG_SAME_BIT pl) \<noteq> 0
          then let val = (if te_handle entry \<noteq> 0 then te_handle entry else 0); n = page_size div 8 in
            Some (Some (replicate n (ucast val) @ drop n page_data))
          else do {
            let comp_len = te_flags entry AND off (shl1 (ZRAM_FLAG_SHIFT pl) - 1);
            obj \<leftarrow> read_object cr pl zram_ptr entry;
            case obj of
              None \<Rightarrow> Some None
            | Some (obj_data, read_len, is_huge) \<Rightarrow> do {
                let data_ptr = (if is_huge then obj_data else drop 8 obj_data);
                if comp_len = of_nat page_size
                then if page_size \<le> length data_ptr then Some (Some (take page_size data_ptr)) else None
                else do {
                  let compress_name = (if zr_compressor zram_ptr = '''' then zr_zcomp_name zram_ptr
                                       else zr_compressor zram_ptr);
                  page_data \<leftarrow> decompress cr compress_name data_ptr page_data (to_int32 comp_len);
                  Some (Some page_data) } } })"

definition read_zram_page ::
  "crash \<Rightarrow> 'a zraminfo_scheme \<Rightarrow> ulong \<Rightarrow> ulong \<Rightarrow> ('a zraminfo_scheme \<times> byte list option) option" where
  "read_zram_page cr pl zram_addr index =
     (if \<not> is_zram_enable cr pl then Some (pl, None)
      else do {
        (pl, zram_ptr) \<leftarrow>
          (case List.find (\<lambda>z. zr_addr z = zram_addr) (zram_list pl) of
             Some z \<Rightarrow> Some (pl, Some z)
           | None \<Rightarrow> parser_zram cr zram_addr pl);
        case zram_ptr of
          None \<Rightarrow> Some (pl, None)
        | Some z \<Rightarrow> do { page \<leftarrow> zram_page cr pl z index; Some (pl, page) } })"

section \<open>Laws: handles and bit fields\<close>

lemma shl1_small: "0 \<le> n \<Longrightarrow> n < 31 \<Longrightarrow> shl1 n = 2 ^ nat n"
proof -
  assume "0 \<le> n" "n < 31"
  then have "(2 :: int) ^ nat n < 2 ^ 31" by (intro power_strict_increasing) auto
  moreover have "push_bit (nat n) (1 :: uint) = word_of_int (2 ^ nat n)"
    by (simp add: push_bit_of_1)
  moreover have "- (2 ^ 31) \<le> (2 :: int) ^ nat n" by (rule order_trans [of _ 0]) simp_all
  ultimately show ?thesis unfolding shl1_def by (simp only: sint_of_int_small)
qed

lemma shl1_mask: "0 \<le> n \<Longrightarrow> n < 31 \<Longrightarrow> off (shl1 n - 1) = (mask (nat n) :: ulong)"
  by (simp add: shl1_small mask_eq_exp_minus_1)

text \<open>A zsmalloc handle holds the frame, the index in the zspage and a tag bit.\<close>

definition zs_handle :: "crash \<Rightarrow> nat \<Rightarrow> nat \<Rightarrow> nat \<Rightarrow> ulong" where
  "zs_handle cr pfn idx tag = of_nat ((pfn * 2 ^ nat (OBJ_INDEX_BITS cr) + idx) * 2 + tag)"

text \<open>C5. Decoding a handle inverts its encoding: for every page frame the physical address width admits and
  every index in range, the frame and the index come back, whatever the tag bit.\<close>

theorem handle_roundtrip:
  assumes "0 \<le> OBJ_INDEX_BITS cr" "OBJ_INDEX_BITS cr < 31"
    and "pfn < 2 ^ (63 - nat (OBJ_INDEX_BITS cr))" "idx < 2 ^ nat (OBJ_INDEX_BITS cr)" "tag < 2"
  shows "handle_to_location cr (zs_handle cr pfn idx tag) = (of_nat pfn, int idx)"
proof -
  define b where "b = nat (OBJ_INDEX_BITS cr)"
  have b: "b < 31" using assms(1,2) by (simp add: b_def)
  let ?m = "pfn * 2 ^ b + idx"
  have "pfn * 2 ^ b + idx < (pfn + 1) * 2 ^ b" using assms(4) by (simp add: b_def)
  also have "\<dots> \<le> 2 ^ (63 - b) * 2 ^ b" using assms(3) by (intro mult_le_mono1) (simp add: b_def)
  also have "\<dots> = 2 ^ 63" using b by (simp flip: power_add)
  finally have m: "?m < 2 ^ 63" .
  then have "?m * 2 + tag < 2 ^ LENGTH(64)" using assms(5) by simp
  then have "unat (zs_handle cr pfn idx tag) = ?m * 2 + tag"
    unfolding zs_handle_def b_def [symmetric] by (rule unat_of_nat_small)
  then have "unat (drop_bit 1 (zs_handle cr pfn idx tag)) = ?m"
    using assms(5) by (simp only: unat_drop_bit_eq) (simp add: drop_bit_eq_div)
  then have d: "drop_bit 1 (zs_handle cr pfn idx tag) = of_nat ?m" by (rule word_eq_of_nat)
  have um: "unat (of_nat ?m :: ulong) = ?m" using m by (intro unat_of_nat_small) simp
  have p: "drop_bit b (of_nat ?m :: ulong) = of_nat pfn"
  proof -
    have "unat (drop_bit b (of_nat ?m :: ulong)) = pfn"
      using assms(4) by (simp only: unat_drop_bit_eq um) (simp add: drop_bit_eq_div b_def)
    then show ?thesis by (rule word_eq_of_nat)
  qed
  have i: "unat (of_nat ?m AND mask b :: ulong) = idx"
    using assms(4) by (simp only: take_bit_eq_mask [symmetric] unsigned_take_bit_eq um)
      (simp add: take_bit_eq_mod b_def)
  have "idx < 2 ^ 31" using assms(4) power_strict_increasing [of b 31 "2::nat"] b by (simp add: b_def)
  then have "to_int32 (of_nat ?m AND mask b) = int idx" using i by (simp add: to_int32_small)
  then show ?thesis
    unfolding handle_to_location_def Let_def d OBJ_INDEX_MASK_def shl1_mask [OF assms(1,2)] b_def [symmetric] p
    by simp
qed

lemma handle_roundtrip_witness:
  "handle_to_location empty_session (zs_handle empty_session 0x80000 5 1) = (0x80000, 5)"
proof -
  have "OBJ_INDEX_BITS empty_session = 27" by (simp add: OBJ_INDEX_BITS_def empty_session_def)
  then show ?thesis using handle_roundtrip [of empty_session "0x80000" 5 1] by simp
qed

text \<open>
  The kernel's layouts of the flag word, as (width, value) fields from bit 0 up; the last field is the
  padding. A layout is chosen by the presence of \<open>huge\<close> and by the kernel version.
\<close>

fun pack :: "(nat \<times> nat) list \<Rightarrow> nat" where
  "pack [] = 0"
| "pack ((w, v) # fs) = v + 2 ^ w * pack fs"

definition zspage_layout :: "crash \<Rightarrow> 'a plugin_scheme \<Rightarrow> nat list" where
  "zspage_layout cr pl =
     (if field_offset pl ''zspage'' ''huge'' = -1 then [2, 9, 3, 8, 10]
      else if THIS_KERNEL_VERSION cr < LINUX 6 6 0 then [1, 2, 9, 3, 8, 9]
      else if THIS_KERNEL_VERSION cr < LINUX 6 12 0 then [1, 4, 9, 5, 8, 5]
      else [1, 4, 9, 8, 10])"

definition class_pos :: "crash \<Rightarrow> 'a plugin_scheme \<Rightarrow> nat" where
  "class_pos cr pl = (if field_offset pl ''zspage'' ''huge'' = -1 then 1 else 2)"

definition magic_pos :: "crash \<Rightarrow> 'a plugin_scheme \<Rightarrow> nat" where
  "magic_pos cr pl = length (zspage_layout cr pl) - 2"

lemma pack_bound: "list_all (\<lambda>(w, v). v < 2 ^ w) fs \<Longrightarrow> pack fs < 2 ^ sum_list (map fst fs)"
proof (induction fs rule: pack.induct)
  case (2 w v fs)
  then have "v + 2 ^ w * pack fs < 2 ^ w * (pack fs + 1)" by simp
  also have "\<dots> \<le> 2 ^ w * 2 ^ sum_list (map fst fs)" using 2 by (intro mult_le_mono2) simp
  finally show ?case by (simp add: power_add)
qed simp

lemma pack_field:
  "list_all (\<lambda>(w, v). v < 2 ^ w) fs \<Longrightarrow> i < length fs \<Longrightarrow>
     pack fs div 2 ^ sum_list (map fst (take i fs)) mod 2 ^ fst (fs ! i) = snd (fs ! i)"
proof (induction fs arbitrary: i rule: pack.induct)
  case (2 w v fs)
  show ?case
  proof (cases i)
    case 0
    with 2 show ?thesis by simp
  next
    case (Suc j)
    have "(v + 2 ^ w * pack fs) div (2 ^ w * 2 ^ k) = pack fs div 2 ^ k" for k
      using 2 by (simp add: div_mult2_eq)
    with 2 Suc show ?thesis by (simp add: power_add)
  qed
qed simp

lemma bits_of_nat: "n < 2 ^ 32 \<Longrightarrow> bits lo w (of_nat n) = int (n div 2 ^ lo mod 2 ^ w)"
proof -
  assume "n < 2 ^ 32"
  then have "unat (of_nat n :: uint) = n" by (intro unat_of_nat_small) simp
  then have "unat (take_bit w (drop_bit lo (of_nat n :: uint))) = n div 2 ^ lo mod 2 ^ w"
    by (simp only: unsigned_take_bit_eq unat_drop_bit_eq) (simp add: drop_bit_eq_div take_bit_eq_mod)
  then show ?thesis unfolding bits_def by (metis of_nat_unat ucast_id)
qed

text \<open>C6. On each of the four kernel layouts of the flag word the class index and the magic number read
  from a zspage are the values the kernel stored, whatever the other fields hold. (The 6.12 layout has
  no bit field of its own for the class; the one of 6.6 lies at the same place.)\<close>

theorem zspage_bit_fields:
  assumes "map fst fs = zspage_layout cr pl" "list_all (\<lambda>(w, v). v < 2 ^ w) fs"
    and "flag_bits z = of_nat (pack fs)"
  shows "get_class_id cr pl z = int (snd (fs ! class_pos cr pl)) \<and>
    zs_magic cr pl z = int (snd (fs ! magic_pos cr pl))"
proof -
  have "sum_list (zspage_layout cr pl) = 32" by (simp add: zspage_layout_def)
  then have p: "pack fs < 2 ^ 32" using pack_bound [OF assms(2)] assms(1) by simp
  have len: "length fs = length (zspage_layout cr pl)" by (metis assms(1) length_map)
  have w: "fst (fs ! i) = zspage_layout cr pl ! i" if "i < length fs" for i
    using that by (metis assms(1) nth_map)
  have t: "map fst (take i fs) = take i (zspage_layout cr pl)" for i
    by (metis assms(1) take_map)
  have f: "bits (sum_list (take i (zspage_layout cr pl))) (zspage_layout cr pl ! i) (flag_bits z) = int (snd (fs ! i))"
    if "i < length fs" for i
    using pack_field [OF assms(2) that] that by (simp add: assms(3) bits_of_nat [OF p] w t)
  have v: "LINUX 6 6 0 < LINUX 6 12 0" by (simp add: LINUX_def)
  have "class_pos cr pl < length fs" "magic_pos cr pl < length fs"
    by (simp_all add: len class_pos_def magic_pos_def zspage_layout_def)
  from this [THEN f] show ?thesis
    using v by (auto simp: class_pos_def magic_pos_def zspage_layout_def get_class_id_def zs_magic_def
        v0_class_id_def v0_magic_def v5_17_class_id_def v5_17_magic_def v6_6_class_id_def v6_6_magic_def
        v6_12_magic_def not_less numeral_eq_Suc split: if_splits)
qed

lemma zspage_bit_fields_witness:
  "let pl = field_init (empty_session\<lparr>MEMBER_OFFSET := \<lambda>_ _. 0\<rparr>) ''zspage'' ''huge'' small_plugin;
       z = \<lparr>flag_bits = of_nat (pack [(1, 1), (4, 6), (9, 254), (5, 0), (8, 0x58), (5, 31)]), zs_inuse = 3, zs_freeobj = 1\<rparr> in
   get_class_id empty_session pl z = 254 \<and> zs_magic empty_session pl z = 0x58"
proof -
  define pl where "pl = field_init (empty_session\<lparr>MEMBER_OFFSET := \<lambda>_ _. 0\<rparr>) ''zspage'' ''huge'' small_plugin"
  have "field_offset pl ''zspage'' ''huge'' = 0"
    by (simp add: pl_def field_init_def type_offset_def Typeinfo_field_def)
  then have l: "zspage_layout empty_session pl = [1, 4, 9, 5, 8, 5]" "class_pos empty_session pl = 2"
      "magic_pos empty_session pl = 4"
    by (simp_all add: zspage_layout_def class_pos_def magic_pos_def empty_session_def LINUX_def)
  show ?thesis
    using zspage_bit_fields [of "[(1, 1), (4, 6), (9, 254), (5, 0), (8, 0x58), (5, 31)]" empty_session pl
        "\<lparr>flag_bits = of_nat (pack [(1, 1), (4, 6), (9, 254), (5, 0), (8, 0x58), (5, 31)]), zs_inuse = 3, zs_freeobj = 1\<rparr>"]
    unfolding Let_def pl_def [symmetric] by (simp add: l)
qed

section \<open>Laws: objects\<close>

text \<open>The page that follows in the zspage, as \<^verbatim>\<open>read_object\<close> finds it.\<close>

definition next_zpage :: "crash \<Rightarrow> 'a plugin_scheme \<Rightarrow> ulong \<Rightarrow> ulong" where
  "next_zpage cr pl page =
     (if field_offset pl ''page'' ''freelist'' \<noteq> -1
      then read_pointer cr (page + off (field_offset pl ''page'' ''freelist'')) True
      else read_pointer cr (page + off (field_offset pl ''page'' ''index'')) True)"

lemma obj_offset:
  assumes "PAGESHIFT cr < 31"
  shows "(off (int s) * off (int idx)) AND (of_nat (PAGESIZE cr) - 1) = (of_nat (s * idx mod PAGESIZE cr) :: ulong)"
proof -
  let ?k = "PAGESHIFT cr"
  have "(of_nat (PAGESIZE cr) - 1 :: ulong) = mask ?k" by (simp add: PAGESIZE_def mask_eq_exp_minus_1)
  then have "(off (int s) * off (int idx)) AND (of_nat (PAGESIZE cr) - 1) = take_bit ?k (of_nat (s * idx) :: ulong)"
    by (simp add: take_bit_eq_mask)
  also have "\<dots> = of_nat (take_bit ?k (s * idx))"
    by (rule take_bit_of_nat)
  finally show ?thesis by (simp add: PAGESIZE_def take_bit_eq_mod)
qed

lemma PAGESIZE_small: "PAGESHIFT cr < 31 \<Longrightarrow> PAGESIZE cr < 2 ^ 31"
  unfolding PAGESIZE_def by (rule power_strict_increasing) simp_all



text \<open>C1. The bytes of an object are those the zspage's memory holds at its place: the object of index
  \<open>idx\<close> in a class of size \<open>s\<close> begins \<open>s * idx\<close> bytes into the zspage, so at that number modulo the page
  size in its page, and continues in the next page of the zspage when it does not fit.\<close>

theorem read_object_bytes_spec:
  assumes "PAGESHIFT cr < 31" "0 < s" "s \<le> PAGESIZE cr"
    and "page_to_phy cr page = p0" "p0 \<noteq> 0" "mem_at cr PHYSADDR p0 page0" "length page0 = PAGESIZE cr"
    and "PAGESIZE cr < s * idx mod PAGESIZE cr + s \<Longrightarrow>
      page_to_phy cr (next_zpage cr pl page) = p1 \<and> p1 \<noteq> 0 \<and> mem_at cr PHYSADDR p1 page1 \<and>
      length page1 = PAGESIZE cr"
  shows "read_object_bytes cr pl page (int s) (int idx) =
    Some (Some (take s (drop (s * idx mod PAGESIZE cr) (page0 @ page1))))"
proof -
  define P where "P = PAGESIZE cr"
  define d where "d = s * idx mod P"
  have P: "P < 2 ^ 31" unfolding P_def by (rule PAGESIZE_small [OF assms(1)])
  have dP: "d < P" using assms(2,3) by (simp add: d_def P_def)
  have offs: "(off (int s) * off (int idx)) AND (of_nat P - 1) = (of_nat d :: ulong)"
    unfolding P_def d_def by (rule obj_offset [OF assms(1)])
  have cmp: "(of_nat d + off (int s) \<le> (of_nat P :: ulong)) \<longleftrightarrow> d + s \<le> P"
  proof -
    have "of_nat d + off (int s) = (of_nat (d + s) :: ulong)" by simp
    moreover have "unat (of_nat (d + s) :: ulong) = d + s" "unat (of_nat P :: ulong) = P"
      using P dP assms(3) by (simp_all add: P_def unat_of_nat_small del: of_nat_add)
    ultimately show ?thesis by (simp only: word_le_nat_alt)
  qed
  show ?thesis
  proof (cases "d + s \<le> P")
    case True
    then have "readmem cr PHYSADDR (p0 + of_nat d) (int s) = Some (take s (drop d page0))"
      using mem_atD [OF assms(6), of s d] assms(2,7) by (simp add: P_def)
    moreover have "to_int32 (off (int s)) = int s"
      using P assms(3) to_int32_of_nat [of s] by (simp add: P_def)
    moreover have "take s (drop d (page0 @ page1)) = take s (drop d page0)"
      using True assms(7) by (simp add: P_def)
    ultimately show ?thesis
      using True assms(4,5) unfolding read_object_bytes_def P_def [symmetric] d_def [symmetric]
      by (simp only: Let_def offs cmp read_memory_def) simp
  next
    case False
    then have n: "page_to_phy cr (next_zpage cr pl page) = p1" "p1 \<noteq> 0" "mem_at cr PHYSADDR p1 page1"
      "length page1 = P"
      using assms(8) by (auto simp: P_def d_def)
    have r0: "readmem cr PHYSADDR (p0 + of_nat d) (int (P - d)) = Some (drop d page0)"
      using mem_atD [OF assms(6), of "P - d" d] dP assms(7) by (simp add: P_def)
    have r1: "readmem cr PHYSADDR p1 (int (d + s - P)) = Some (take (d + s - P) page1)"
      using mem_atD [OF n(3), of "d + s - P" 0] False n(4) assms(3) dP by (simp add: P_def)
    have s0: "of_nat P - of_nat d = (of_nat (P - d) :: ulong)" using dP by (simp add: of_nat_diff)
    have s1: "off (int s) - of_nat (P - d) = (of_nat (d + s - P) :: ulong)"
      using dP False by (simp add: of_nat_diff)
    have t: "to_int32 (of_nat (P - d)) = int (P - d)" "to_int32 (of_nat (d + s - P)) = int (d + s - P)"
      using P dP assms(3) by (simp_all add: to_int32_of_nat P_def del: of_nat_diff)
    have "take s (drop d (page0 @ page1)) = drop d page0 @ take (d + s - P) page1"
      using dP False assms(3,7) by (simp add: P_def add.commute)
    then show ?thesis
      using False assms(4,5) n(1,2) r0 r1 unfolding read_object_bytes_def next_zpage_def [symmetric]
        P_def [symmetric] d_def [symmetric]
      by (simp only: Let_def offs cmp read_memory_def s0 s1 t) simp
  qed
qed

text \<open>A dump of two pages of eight bytes, frames 2 and 3; its kernel memory reads as the address 200.\<close>

definition two_page_session :: crash where
  "two_page_session = empty_session\<lparr>PAGESHIFT := 3,
     readmem := \<lambda>t a n. case t of KVADDR \<Rightarrow> Some [200, 0, 0, 0, 0, 0, 0, 0]
       | PHYSADDR \<Rightarrow> dump_read 16 [1, 2, 3, 4, 5, 6, 7, 8, 9, 10, 11, 12, 13, 14, 15, 16] a n,
     is_page_ptr := \<lambda>p. if p = 100 then Some 16 else if p = 200 then Some 24 else None\<rparr>"

lemma two_page_mem: "mem_at two_page_session PHYSADDR 16 [1, 2, 3, 4, 5, 6, 7, 8, 9, 10, 11, 12, 13, 14, 15, 16]"
  by (rule dump_read_mem_at) (simp_all add: two_page_session_def)

lemma read_object_bytes_spec_witness:
  "read_object_bytes two_page_session small_plugin 100 6 1 = Some (Some [7, 8, 9, 10, 11, 12])"
proof -
  have m0: "mem_at two_page_session PHYSADDR 16 [1, 2, 3, 4, 5, 6, 7, 8]"
    using mem_at_take [OF two_page_mem, of 8] by simp
  have m1: "mem_at two_page_session PHYSADDR 24 [9, 10, 11, 12, 13, 14, 15, 16]"
    using mem_at_drop [OF two_page_mem, of 8] by simp
  have p: "page_to_phy two_page_session 100 = 16" "PAGESHIFT two_page_session = 3" "PAGESIZE two_page_session = 8"
    by (simp_all add: page_to_phy_def PAGESIZE_def two_page_session_def)
  have n: "page_to_phy two_page_session (next_zpage two_page_session small_plugin 100) = 24"
    by (simp add: next_zpage_def read_pointer_def read_memory_def page_to_phy_def two_page_session_def)
  show ?thesis
    using read_object_bytes_spec [of two_page_session 6 100 16 "[1, 2, 3, 4, 5, 6, 7, 8]" 1 small_plugin 24
        "[9, 10, 11, 12, 13, 14, 15, 16]"] m0 m1
    by (simp add: p n)
qed

section \<open>Laws: the objects of a page\<close>

text \<open>
  The objects of one page: numbered from \<open>i\<close>, each beginning where the last one ended, all of
  them \<open>c\<close> bytes long but the last, which the end of the page cuts.
\<close>

fun tiles :: "nat \<Rightarrow> int \<Rightarrow> nat \<Rightarrow> nat \<Rightarrow> zobj list \<Rightarrow> bool" where
  "tiles c i s e [] = False"
| "tiles c i s e [b] = (zo_id b = i \<and> unat (zo_start b) = s \<and> unat (zo_end b) = e \<and> s < e \<and> e \<le> s + c)"
| "tiles c i s e (b # b' # bs) = (zo_id b = i \<and> unat (zo_start b) = s \<and> unat (zo_end b) = s + c \<and> s + c < e \<and>
     tiles c (i + 1) (s + c) e (b' # bs))"

lemma parser_zobj_sel [simp]:
  "zo_id (parser_zobj cr i h a b) = i" "zo_start (parser_zobj cr i h a b) = a" "zo_end (parser_zobj cr i h a b) = b"
  by (simp_all add: parser_zobj_def Let_def split: prod.splits)

lemma zobj_at_sel:
  "zobj_at cr pl i a b = Some z \<Longrightarrow> zo_id z = i \<and> zo_start z = a \<and> zo_end z = b"
  by (auto simp: zobj_at_def bind_eq_Some_conv)

lemma tiles_pos: "tiles c i s e bs \<Longrightarrow> 0 < c"
  by (induction c i s e bs rule: tiles.induct) auto

lemma tiles_length: "tiles c i s e bs \<Longrightarrow> length bs = (e - s + c - 1) div c"
proof (induction c i s e bs rule: tiles.induct)
  case (2 c i s e b)
  then obtain n where "e = s + Suc n" "n < c" using less_iff_Suc_add [of s e] by auto
  then show ?case by (simp add: div_add_self2)
next
  case (3 c i s e b b' bs)
  then obtain n where n: "e = s + c + Suc n" by (auto simp: less_iff_Suc_add)
  have "0 < c" using "3.prems" tiles_pos by blast
  then have "Suc ((n + c) div c) = (c + n + c) div c" by (simp add: div_add_self1 div_add_self2 add.assoc)
  with 3 n show ?case by simp
qed simp

lemma zobj_loop_tiles:
  assumes "0 < c" "unat page_end + c < 2 ^ 64" "unat s < unat page_end"
    and "\<And>i a b. unat s \<le> unat a \<Longrightarrow> unat a < unat page_end \<Longrightarrow> \<exists>z. zobj_at cr pl i a b = Some z"
  shows "\<exists>bs. zobj_loop cr pl (int c) page_end i s (s + of_nat c) = Some bs \<and>
    tiles c i (unat s) (unat page_end) bs"
  using assms(3,4)
proof (induction "unat page_end - unat s" arbitrary: s i rule: less_induct)
  case less
  have e: "unat (s + of_nat c) = unat s + c"
  proof -
    have "s + of_nat c = of_nat (unat s + c)" by simp
    then show ?thesis using less.prems(1) assms(2) by (simp only:) (rule unat_of_nat_small, simp)
  qed
  show ?case
  proof (cases "unat s + c < unat page_end")
    case True
    obtain z where z: "zobj_at cr pl i s (s + of_nat c) = Some z" using less.prems by blast
    have "\<exists>bs. zobj_loop cr pl (int c) page_end (i + 1) (s + of_nat c) (s + of_nat c + of_nat c) = Some bs \<and>
        tiles c (i + 1) (unat (s + of_nat c)) (unat page_end) bs"
      by (rule less.hyps) (use True less.prems assms(1) e in auto)
    then obtain bs where bs: "zobj_loop cr pl (int c) page_end (i + 1) (s + of_nat c) (s + of_nat c + of_nat c) = Some bs"
      "tiles c (i + 1) (unat (s + of_nat c)) (unat page_end) bs" by blast
    then obtain b bs' where b: "bs = b # bs'" by (cases bs) auto
    have "zobj_loop cr pl (int c) page_end i s (s + of_nat c) = Some (z # bs)"
      using True z bs(1) e by (subst zobj_loop.simps) (simp add: word_less_nat_alt)
    then show ?thesis using True bs(2) zobj_at_sel [OF z] e b by auto
  next
    case False
    obtain z where z: "zobj_at cr pl i s page_end = Some z" using less.prems by blast
    have "zobj_loop cr pl (int c) page_end i s (s + of_nat c) = Some [z]"
      using False z e by (subst zobj_loop.simps) (simp add: word_less_nat_alt)
    then show ?thesis using False less.prems(1) zobj_at_sel [OF z] by auto
  qed
qed

text \<open>C3. Parsing a page of an ordinary class returns, and divides the page from its first object on: the
  objects are numbered on from the zspage's count, follow each other without a gap, are all of the
  class's size but the last, and their number is what fits, rounded up.\<close>

theorem parser_obj_tiles:
  assumes "\<not> HugeObject class_ptr" "sc_size class_ptr = int c" "0 < c"
    and "page_to_phy cr page = p" "unat p + PAGESIZE cr + c < 2 ^ 64"
    and "read_int cr (page + off (field_offset pl ''page'' ''units'')) True = int first" "first < PAGESIZE cr"
    and "\<And>a. unat p + first \<le> unat a \<Longrightarrow> unat a < unat p + PAGESIZE cr \<Longrightarrow>
      \<exists>b. length b = 8 \<and> readmem cr PHYSADDR (a + off (field_offset pl ''link_free'' ''handle'')) 8 = Some b"
  shows "\<exists>bs. parser_obj cr pl page class_ptr zp =
      Some (zp\<lparr>zp_obj_index := zp_obj_index zp + int (length bs),
        zp_page_list := zp_page_list zp @ [\<lparr>pi_addr = page, pi_obj_list = bs\<rparr>]\<rparr>) \<and>
    tiles c (zp_obj_index zp) (unat p + first) (unat p + PAGESIZE cr) bs \<and>
    length bs = (PAGESIZE cr - first + c - 1) div c"
proof -
  have u: "unat (p + of_nat k) = unat p + k" if "k \<le> PAGESIZE cr" for k
  proof -
    have "p + of_nat k = of_nat (unat p + k)" by simp
    then show ?thesis using that assms(5) by (simp only:) (rule unat_of_nat_small, simp)
  qed
  have rd: "\<exists>z. zobj_at cr pl i a b = Some z" if a: "unat p + first \<le> unat a" "unat a < unat p + PAGESIZE cr" for i a b
  proof -
    obtain buf where buf: "length buf = 8"
      "readmem cr PHYSADDR (a + off (field_offset pl ''link_free'' ''handle'')) 8 = Some buf"
      using assms(8) a by blast
    then obtain h where "ULONG buf 0 = Some h" using ULONG_Some_iff [of buf 0] by auto
    with buf show ?thesis by (simp add: zobj_at_def read_memory_def)
  qed
  have "\<exists>bs. zobj_loop cr pl (int c) (p + of_nat (PAGESIZE cr)) (zp_obj_index zp) (p + of_nat first)
      (p + of_nat first + of_nat c) = Some bs \<and>
      tiles c (zp_obj_index zp) (unat (p + of_nat first)) (unat (p + of_nat (PAGESIZE cr))) bs"
    by (rule zobj_loop_tiles) (use assms(3,5,7) u rd in auto)
  then obtain bs where bs: "zobj_loop cr pl (int c) (p + of_nat (PAGESIZE cr)) (zp_obj_index zp) (p + of_nat first)
      (p + of_nat first + of_nat c) = Some bs"
      "tiles c (zp_obj_index zp) (unat p + first) (unat p + PAGESIZE cr) bs"
    using u assms(7) by auto
  then have "parser_obj cr pl page class_ptr zp =
      Some (zp\<lparr>zp_obj_index := zp_obj_index zp + int (length bs),
        zp_page_list := zp_page_list zp @ [\<lparr>pi_addr = page, pi_obj_list = bs\<rparr>]\<rparr>)"
    using assms(1,2,4,6) by (auto simp: parser_obj_def Let_def)
  moreover have "length bs = (PAGESIZE cr - first + c - 1) div c" using tiles_length [OF bs(2)] by simp
  ultimately show ?thesis using bs(2) by blast
qed

definition zero_session :: crash where
  "zero_session = empty_session\<lparr>PAGESHIFT := 5, readmem := \<lambda>t a n. Some (replicate (nat n) 0),
     is_page_ptr := \<lambda>_. Some 64, IS_KVADDR := \<lambda>_. True\<rparr>"

definition small_class :: size_class where
  "small_class = \<lparr>sc_addr = 0, sc_fullness_list = [], sc_zspage_parser = False, sc_size = 12, sc_objs_per_zspage = 5,
     sc_pages_per_zspage = 2, sc_index = 0, sc_stats = []\<rparr>"

definition empty_zpage :: zpage where
  "empty_zpage = \<lparr>zp_addr = 0, zp_zspage = \<lparr>flag_bits = 0, zs_inuse = 0, zs_freeobj = 0\<rparr>, zp_obj_index = 0, zp_page_list = []\<rparr>"

lemma parser_obj_tiles_witness:
  "\<exists>bs zp. parser_obj zero_session small_plugin 0 small_class empty_zpage = Some zp \<and> zp_obj_index zp = 3 \<and>
     tiles 12 0 64 96 bs \<and> length bs = 3"
proof -
  have s: "page_to_phy zero_session 0 = 64" "PAGESIZE zero_session = 32"
    "read_int zero_session a True = 0" "readmem zero_session t a 8 = Some (replicate 8 0)" for a t
    by (simp_all add: zero_session_def page_to_phy_def PAGESIZE_def read_int_def read_memory_def)
  show ?thesis
    using parser_obj_tiles [of small_class 12 zero_session 0 64 small_plugin 0 empty_zpage]
    by (auto simp: s small_class_def empty_zpage_def)
qed

section \<open>Laws: the pages of a zspage\<close>

text \<open>The first \<open>n\<close> pages of the chain that begins at \<open>a\<close>, fewer when the chain ends before.\<close>

fun page_run :: "crash \<Rightarrow> 'a plugin_scheme \<Rightarrow> nat \<Rightarrow> ulong \<Rightarrow> ulong list" where
  "page_run cr pl 0 a = []"
| "page_run cr pl (Suc n) a =
     (if IS_KVADDR cr a
      then a # page_run cr pl n (read_ulong cr (a + off (field_offset pl ''page'' ''freelist'')) True) else [])"

lemma length_page_run: "length (page_run cr pl n a) \<le> n"
  by (induction cr pl n a rule: page_run.induct) auto

lemma parser_pages_loop_fold:
  assumes "sc_pages_per_zspage c = int p" "k < p"
  shows "parser_pages_loop cr pl c (int k) a zp =
    fold_opt (\<lambda>a. parser_obj cr pl a c) (page_run cr pl (p - k) a) zp"
  using assms(2)
proof (induction "p - k" arbitrary: k a zp)
  case (Suc n)
  have step: "fold_opt (\<lambda>a. parser_obj cr pl a c) (page_run cr pl n b) zp' =
      (if int k + 1 = int p then Some zp' else parser_pages_loop cr pl c (int k + 1) b zp')" for b zp'
  proof (cases "Suc k < p")
    case True
    then have n: "n = p - Suc k" using Suc.hyps(2) by simp
    show ?thesis using True Suc.hyps(1) [OF n True, of b zp'] by (simp add: ac_simps flip: n)
  next
    case False
    then show ?thesis using Suc.hyps(2) Suc.prems by (cases n) auto
  qed
  have "fold_opt (\<lambda>a. parser_obj cr pl a c) (page_run cr pl n b) =
      (\<lambda>zp'. if int k + 1 = int p then Some zp' else parser_pages_loop cr pl c (int k + 1) b zp')" for b
    by (rule ext) (rule step)
  moreover have "page_run cr pl (p - k) a = page_run cr pl (Suc n) a" by (simp add: Suc.hyps(2))
  ultimately show ?case
    by (subst parser_pages_loop.simps) (simp add: assms(1))
qed simp

definition zpage_objs :: "zpage \<Rightarrow> zobj list" where
  "zpage_objs zp = concat (map pi_obj_list (zp_page_list zp))"

definition numbered :: "zpage \<Rightarrow> bool" where
  "numbered zp \<longleftrightarrow> zp_obj_index zp = int (length (zpage_objs zp)) \<and>
     map zo_id (zpage_objs zp) = map int [0..<length (zpage_objs zp)]"

lemma zobj_loop_ids:
  "zobj_loop cr pl c e i s t = Some bs \<Longrightarrow> map zo_id bs = map (\<lambda>k. i + int k) [0..<length bs]"
proof (rule zobj_loop.raw_induct [where P = "\<lambda>cr pl c e i s t bs.
    map zo_id bs = map (\<lambda>k. i + int k) [0..<length bs]", rotated 1], assumption)
  fix zl :: "crash \<Rightarrow> 'a plugin_scheme \<Rightarrow> int \<Rightarrow> ulong \<Rightarrow> int \<Rightarrow> ulong \<Rightarrow> ulong \<Rightarrow> zobj list option"
    and cr pl c e i s t bs
  assume IH: "\<And>cr pl c e i s t bs. zl cr pl c e i s t = Some bs \<Longrightarrow> map zo_id bs = map (\<lambda>k. i + int k) [0..<length bs]"
    and eq: "(if t < e
        then do { z \<leftarrow> zobj_at cr pl i s t; rest \<leftarrow> zl cr pl c e (i + 1) t (t + off c); Some (z # rest) }
        else do { z \<leftarrow> zobj_at cr pl i s e; Some [z] }) = Some bs"
  have shift: "map (\<lambda>k. i + int k) [0..<Suc n] = i # map (\<lambda>k. (i + 1) + int k) [0..<n]" for i n
    by (subst upt_conv_Cons) (auto simp: map_Suc_upt [symmetric] simp del: map_Suc_upt upt_Suc)
  show "map zo_id bs = map (\<lambda>k. i + int k) [0..<length bs]"
    using eq IH by (auto simp: bind_eq_Some_conv shift dest!: zobj_at_sel split: if_splits simp del: upt_Suc)
qed

lemma numbered_append:
  assumes "numbered zp" "map zo_id bs = map (\<lambda>k. zp_obj_index zp + int k) [0..<length bs]"
    and "n = zp_obj_index zp + int (length bs)"
  shows "numbered (zp\<lparr>zp_obj_index := n, zp_page_list := zp_page_list zp @ [\<lparr>pi_addr = a, pi_obj_list = bs\<rparr>]\<rparr>)"
proof -
  have "map (\<lambda>k. int n + int k) [0..<m] = map int [n..<n + m]" for n m
    by (induction m) auto
  moreover have "zpage_objs (zp\<lparr>zp_obj_index := n, zp_page_list := zp_page_list zp @ [\<lparr>pi_addr = a, pi_obj_list = bs\<rparr>]\<rparr>) =
      zpage_objs zp @ bs" by (simp add: zpage_objs_def)
  ultimately show ?thesis
    using assms upt_add_eq_append [of 0 "length (zpage_objs zp)" "length bs"] unfolding numbered_def by simp
qed

lemma parser_obj_numbered:
  assumes "numbered zp" "parser_obj cr pl a c zp = Some zp'"
  shows "numbered zp'"
proof (cases "HugeObject c")
  case True
  with assms show ?thesis by (auto simp: parser_obj_def Let_def intro!: numbered_append)
next
  case False
  then obtain bs sz e s t where "zobj_loop cr pl sz e (zp_obj_index zp) s t = Some bs"
    "zp' = zp\<lparr>zp_obj_index := zp_obj_index zp + int (length bs),
       zp_page_list := zp_page_list zp @ [\<lparr>pi_addr = a, pi_obj_list = bs\<rparr>]\<rparr>"
    using assms(2) by (auto simp: parser_obj_def Let_def bind_eq_Some_conv)
  then show ?thesis using assms(1) by (auto intro!: numbered_append dest: zobj_loop_ids)
qed

lemma parser_obj_addrs:
  "parser_obj cr pl a c zp = Some zp' \<Longrightarrow> map pi_addr (zp_page_list zp') = map pi_addr (zp_page_list zp) @ [a]"
  by (auto simp: parser_obj_def Let_def bind_eq_Some_conv)

lemma fold_parser_obj_addrs:
  "fold_opt (\<lambda>a. parser_obj cr pl a c) as zp = Some zp' \<Longrightarrow>
     map pi_addr (zp_page_list zp') = map pi_addr (zp_page_list zp) @ as"
  by (induction "as" arbitrary: zp) (auto simp: bind_eq_Some_conv dest: parser_obj_addrs)

text \<open>C31. A parsed zspage holds the pages of the \<open>freelist\<close> chain that begins at the \<open>first_page\<close> of its struct,
  in order, as many as the class says or up to the end of the chain, and its objects are numbered
  0, 1, 2, ... across the pages without a gap.\<close>

theorem parser_zpage_numbered:
  assumes "parser_zpage cr pl addr c = Some (Some zp)" "sc_pages_per_zspage c = int p" "0 < p"
    and "read_struct cr pl addr ''zspage'' True = Some buf"
    and "ULONG buf (field_offset pl ''zspage'' ''first_page'') = Some first"
  shows "numbered zp \<and> length (zp_page_list zp) \<le> p \<and> map pi_addr (zp_page_list zp) = page_run cr pl p first"
proof (intro conjI)
  obtain z where z: "parser_pages cr pl first c z = Some zp" and e: "zp_obj_index z = 0" "zp_page_list z = []"
    using assms(1,4,5) by (auto simp: parser_zpage_def bind_eq_Some_conv split: if_splits)
  have f: "fold_opt (\<lambda>a. parser_obj cr pl a c) (page_run cr pl p first) z = Some zp"
    using z parser_pages_loop_fold [OF assms(2,3), of cr pl first z] by (simp add: parser_pages_def)
  have "numbered z" using e by (simp add: numbered_def zpage_objs_def)
  then show "numbered zp" using f by (rule fold_opt_invariant [where P = numbered, rotated]) (rule parser_obj_numbered)
  show a: "map pi_addr (zp_page_list zp) = page_run cr pl p first" using fold_parser_obj_addrs [OF f] e by simp
  show "length (zp_page_list zp) \<le> p" using length_page_run [of cr pl p first] by (metis a length_map)
qed

text \<open>A zspage of two pages, at 0x40 and 0x80, with three objects or parts of objects in each.\<close>

definition zs_plugin :: plugin where
  "zs_plugin = \<lparr>typetable = [''zspage'' \<mapsto> \<lparr>m_name = '''', m_size = 24, m_offset = 0\<rparr>,
     ''zspage@inuse'' \<mapsto> \<lparr>m_name = '''', m_size = 4, m_offset = 4\<rparr>,
     ''zspage@freeobj'' \<mapsto> \<lparr>m_name = '''', m_size = 4, m_offset = 8\<rparr>,
     ''zspage@first_page'' \<mapsto> \<lparr>m_name = '''', m_size = 8, m_offset = 16\<rparr>,
     ''page@freelist'' \<mapsto> \<lparr>m_name = '''', m_size = 8, m_offset = 8\<rparr>,
     ''page@units'' \<mapsto> \<lparr>m_name = '''', m_size = 4, m_offset = 4\<rparr>,
     ''link_free@handle'' \<mapsto> \<lparr>m_name = '''', m_size = 8, m_offset = 0\<rparr>], kaddr_mask = 0\<rparr>"

definition zs_session :: crash where
  "zs_session = empty_session\<lparr>PAGESHIFT := 5, is_page_ptr := \<lambda>a. Some (8 * a), IS_KVADDR := \<lambda>_. True,
     readmem := \<lambda>t a n. if n = 24 then Some (replicate 16 0 @ [0x40, 0, 0, 0, 0, 0, 0, 0])
       else if a = 0x48 \<and> n = 8 then Some [0x80, 0, 0, 0, 0, 0, 0, 0]
       else if a = 0x84 \<and> n = 4 then Some [4, 0, 0, 0] else Some (replicate (nat n) 0)\<rparr>"

lemma zs_eval:
  "IS_KVADDR zs_session a" "PAGESIZE zs_session = 32" "page_to_phy zs_session a = 8 * a"
  "read_struct zs_session zs_plugin 0x10 ''zspage'' True = Some (replicate 16 0 @ [0x40, 0, 0, 0, 0, 0, 0, 0])"
  "read_ulong zs_session 0x48 True = 0x80" "read_int zs_session 0x44 True = 0" "read_int zs_session 0x84 True = 4"
  "a \<noteq> 0x48 \<Longrightarrow> read_memory zs_session a 8 False = Some (replicate 8 0)"
  "field_offset zs_plugin ''zspage'' ''inuse'' = 4" "field_offset zs_plugin ''zspage'' ''freeobj'' = 8"
  "field_offset zs_plugin ''zspage'' ''first_page'' = 16" "field_offset zs_plugin ''page'' ''freelist'' = 8"
  "field_offset zs_plugin ''page'' ''units'' = 4" "field_offset zs_plugin ''link_free'' ''handle'' = 0"
  by (simp_all add: zs_session_def page_to_phy_def PAGESIZE_def read_struct_def type_size_def read_ulong_def read_int_def
      read_memory_def type_offset_def zs_plugin_def to_int32_def)

lemma zs_parse: "\<exists>zp. parser_zpage zs_session zs_plugin 0x10 small_class = Some (Some zp) \<and> length (zpage_objs zp) = 6"
proof -
  have f: "ULONG (replicate 16 0 @ [0x40, 0, 0, 0, 0, 0, 0, 0]) 16 = Some 0x40" "ULONG (replicate 8 0) 0 = Some 0"
    "UINT (replicate 16 0 @ [0x40, 0, 0, 0, 0, 0, 0, 0]) 0 = Some 0" "UINT (replicate 16 0 @ [0x40, 0, 0, 0, 0, 0, 0, 0]) 4 = Some 0"
    "UINT (replicate 16 0 @ [0x40, 0, 0, 0, 0, 0, 0, 0]) 8 = Some 0"
    by (simp_all add: ULONG_def UINT_def load_def)
  show ?thesis
    by (simp add: parser_zpage_def zs_eval f parser_pages_def parser_pages_loop.simps parser_obj_def zobj_loop.simps
        zobj_at_def small_class_def zpage_objs_def Let_def)
qed

lemma parser_zpage_numbered_witness:
  "\<exists>zp. parser_zpage zs_session zs_plugin 0x10 small_class = Some (Some zp) \<and>
     map zo_id (zpage_objs zp) = [0, 1, 2, 3, 4, 5] \<and> map pi_addr (zp_page_list zp) = [0x40, 0x80]"
proof -
  obtain zp where zp: "parser_zpage zs_session zs_plugin 0x10 small_class = Some (Some zp)" "length (zpage_objs zp) = 6"
    using zs_parse by blast
  have f: "ULONG (replicate 16 0 @ [0x40, 0, 0, 0, 0, 0, 0, 0]) 16 = Some 0x40" by (simp add: ULONG_def load_def)
  have "numbered zp \<and> length (zp_page_list zp) \<le> 2 \<and> map pi_addr (zp_page_list zp) = page_run zs_session zs_plugin 2 0x40"
    by (rule parser_zpage_numbered [OF zp(1) _ _ zs_eval(4)]) (simp_all add: small_class_def zs_eval f)
  then show ?thesis
    using zp by (auto simp: numbered_def zs_eval eval_nat_numeral upt_rec)
qed

section \<open>Laws: the devices read so far\<close>

lemma lookup_zram_list [simp]:
  "type_offset (pl\<lparr>zram_list := zs\<rparr>) t f = type_offset pl t f"
  "field_size (pl\<lparr>zram_list := zs\<rparr>) t f = field_size pl t f"
  "type_size (pl\<lparr>zram_list := zs\<rparr>) t = type_size pl t"
  by (simp_all add: type_offset_def field_size_def type_size_def)

lemma parse_zram_list [simp]:
  "read_struct cr (pl\<lparr>zram_list := zs\<rparr>) = read_struct cr pl"
  "parser_size_class cr (pl\<lparr>zram_list := zs\<rparr>) = parser_size_class cr pl"
  "pool_classes cr (pl\<lparr>zram_list := zs\<rparr>) = pool_classes cr pl"
  "parser_mem_pool cr (pl\<lparr>zram_list := zs\<rparr>) = parser_mem_pool cr pl"
  "read_zcomp_name cr (pl\<lparr>zram_list := zs\<rparr>) = read_zcomp_name cr pl"
  "parse_zcomp_name cr (pl\<lparr>zram_list := zs\<rparr>) = parse_zcomp_name cr pl"
  "parse_compressor cr (pl\<lparr>zram_list := zs\<rparr>) = parse_compressor cr pl"
  "stat_field (pl\<lparr>zram_list := zs\<rparr>) = stat_field pl"
  "stat_field_opt (pl\<lparr>zram_list := zs\<rparr>) = stat_field_opt pl"
  "parse_zram_stats (pl\<lparr>zram_list := zs\<rparr>) = parse_zram_stats pl"
  unfolding read_struct_def [abs_def] parser_size_class_def [abs_def] pool_classes_def [abs_def]
    parser_mem_pool_def [abs_def] read_zcomp_name_def [abs_def] parse_zcomp_name_def [abs_def]
    parse_compressor_def [abs_def] stat_field_def [abs_def] stat_field_opt_def [abs_def]
    parse_zram_stats_def [abs_def] lookup_zram_list by (rule refl)+

lemma zram_at_zram_list [simp]: "zram_at cr (pl\<lparr>zram_list := zs\<rparr>) = zram_at cr pl"
  unfolding fun_eq_iff zram_at_def lookup_zram_list parse_zram_list by simp

lemma zspage_zram_list [simp]:
  "is_zram_enable cr (pl\<lparr>zram_list := zs\<rparr>) = is_zram_enable cr pl"
  "zs_magic cr (pl\<lparr>zram_list := zs\<rparr>) = zs_magic cr pl"
  "get_class_id cr (pl\<lparr>zram_list := zs\<rparr>) = get_class_id cr pl"
  "read_object_bytes cr (pl\<lparr>zram_list := zs\<rparr>) = read_object_bytes cr pl"
  unfolding fun_eq_iff is_zram_enable_def zs_magic_def get_class_id_def read_object_bytes_def lookup_zram_list
  by simp_all

lemma get_zspage_zram_list [simp]: "get_zspage cr (pl\<lparr>zram_list := zs\<rparr>) = get_zspage cr pl"
  unfolding fun_eq_iff get_zspage_def lookup_zram_list zspage_zram_list by simp

lemma read_object_zram_list [simp]: "read_object cr (pl\<lparr>zram_list := zs\<rparr>) = read_object cr pl"
  unfolding fun_eq_iff read_object_def get_zspage_zram_list zspage_zram_list by simp

lemma flags_zram_list:
  "ZRAM_FLAG_SAME_BIT (pl\<lparr>zram_list := zs\<rparr>) = ZRAM_FLAG_SAME_BIT pl"
  "ZRAM_FLAG_SHIFT (pl\<lparr>zram_list := zs\<rparr>) = ZRAM_FLAG_SHIFT pl"
  by simp_all

lemma zram_page_zram_list [simp]: "zram_page cr (pl\<lparr>zram_list := zs\<rparr>) = zram_page cr pl"
  unfolding fun_eq_iff zram_page_def read_object_zram_list flags_zram_list by simp

lemma zram_at_addr: "zram_at cr pl a = Some (Some z) \<Longrightarrow> zr_addr z = a"
  by (auto simp: zram_at_def bind_eq_Some_conv split: option.splits if_splits)

interpretation zl: memo zr_addr "zram_at cr pl"
  for cr :: crash and pl :: "'a zraminfo_scheme"
  by unfold_locales (rule zram_at_addr)

lemma read_zram_page_memo:
  "read_zram_page cr pl a i =
     (if \<not> is_zram_enable cr pl then Some (pl, None)
      else do {
        (tbl, z) \<leftarrow> memo_get zr_addr (zram_at cr pl) a (zram_list pl);
        case z of None \<Rightarrow> Some (pl\<lparr>zram_list := tbl\<rparr>, None)
        | Some z \<Rightarrow> do { page \<leftarrow> zram_page cr pl z i; Some (pl\<lparr>zram_list := tbl\<rparr>, page) } })"
  by (auto simp: read_zram_page_def memo_get_def parser_zram_def split: option.splits)

text \<open>
  The parse of a class's zspages adds to a listed device what \<open>zram_at\<close> does not read. Without it the
  device is the one of the dump, and no page read depends on it.
\<close>

definition fresh_class :: "size_class \<Rightarrow> size_class" where
  "fresh_class c = c\<lparr>sc_fullness_list := [], sc_zspage_parser := False\<rparr>"

definition zram_view :: "zram \<Rightarrow> zram" where
  "zram_view z = z\<lparr>zr_mem_pool :=
     map_option (\<lambda>p. p\<lparr>po_class_list := map (map_option fresh_class) (po_class_list p)\<rparr>) (zr_mem_pool z)\<rparr>"

lemma fresh_class_sel [simp]:
  "sc_addr (fresh_class c) = sc_addr c" "sc_size (fresh_class c) = sc_size c"
  "sc_objs_per_zspage (fresh_class c) = sc_objs_per_zspage c"
  "sc_pages_per_zspage (fresh_class c) = sc_pages_per_zspage c"
  "fresh_class (fresh_class c) = fresh_class c"
  "fresh_class (c\<lparr>sc_fullness_list := l, sc_zspage_parser := b\<rparr>) = fresh_class c"
  by (simp_all add: fresh_class_def)

lemma zram_view_sel [simp]:
  "zr_addr (zram_view z) = zr_addr z" "zr_table (zram_view z) = zr_table z" "zr_disksize (zram_view z) = zr_disksize z"
  "zr_zcomp_name (zram_view z) = zr_zcomp_name z" "zr_compressor (zram_view z) = zr_compressor z"
  by (simp_all add: zram_view_def)

lemma class_of_view: "0 \<le> k \<Longrightarrow> class_of (zram_view z) k = map_option fresh_class (class_of z k)"
  by (cases "zr_mem_pool z") (auto simp: class_of_def zram_view_def)

lemma get_class_id_nonneg: "0 \<le> get_class_id cr pl z"
  by (simp add: get_class_id_def v6_6_class_id_def v5_17_class_id_def v0_class_id_def bits_def)

lemma class_of_view_bind:
  "class_of (zram_view z) (get_class_id cr pl s) \<bind> f = class_of z (get_class_id cr pl s) \<bind> (\<lambda>c. f (fresh_class c))"
  by (cases "class_of z (get_class_id cr pl s)") (simp_all add: class_of_view get_class_id_nonneg)

lemma read_object_view: "read_object cr pl (zram_view z) e = read_object cr pl z e"
  unfolding read_object_def class_of_view_bind fresh_class_sel by (rule refl)

lemma read_table_entry_view: "read_table_entry cr (zram_view z) i = read_table_entry cr z i"
  by (simp add: read_table_entry_def)

lemma zram_page_view: "zram_page cr pl (zram_view z) i = zram_page cr pl z i"
  unfolding zram_page_def zram_view_sel read_table_entry_view read_object_view by (rule refl)

lemma parser_size_class_fresh:
  "parser_size_class cr pl a = Some (Some c) \<Longrightarrow> fresh_class c = c"
  by (auto simp: parser_size_class_def fresh_class_def bind_eq_Some_conv Let_def split: if_splits option.splits)

lemma pool_classes_fresh: "pool_classes cr pl a = Some cs \<Longrightarrow> map (map_option fresh_class) cs = cs"
proof -
  assume "pool_classes cr pl a = Some cs"
  then obtain as where "map (parser_size_class cr pl) as = map Some cs"
    unfolding pool_classes_def Let_def those_opt_eq_Some by blast
  then show ?thesis
  proof (induction "as" arbitrary: cs)
    case (Cons a "as")
    then obtain c cs' where "cs = c # cs'" "parser_size_class cr pl a = Some c" "map (parser_size_class cr pl) as = map Some cs'"
      by (cases cs) auto
    then show ?case using Cons.IH [of cs'] by (cases c) (auto dest: parser_size_class_fresh)
  qed simp
qed

lemma parser_mem_pool_fresh:
  "parser_mem_pool cr pl a = Some (Some p) \<Longrightarrow> p\<lparr>po_class_list := map (map_option fresh_class) (po_class_list p)\<rparr> = p"
  by (auto simp: parser_mem_pool_def bind_eq_Some_conv Let_def pool_classes_fresh split: if_splits option.splits)

lemma zram_at_view:
  assumes "zram_at cr pl a = Some (Some z)"
  shows "zram_view z = z"
proof -
  obtain p where "parser_mem_pool cr pl p = Some (zr_mem_pool z)"
    using assms by (auto simp: zram_at_def bind_eq_Some_conv split: option.splits if_splits)
  then show ?thesis by (cases "zr_mem_pool z") (simp_all add: zram_view_def parser_mem_pool_fresh)
qed

interpretation zv: memo_view zr_addr "zram_at cr pl" zram_view
  for cr :: crash and pl :: "'a zraminfo_scheme"
  by unfold_locales (simp_all add: zram_at_view)

lemma read_zram_page_view:
  assumes "coherent zr_addr (zram_at cr pl) (map zram_view (zram_list pl))"
  shows "map_option snd (read_zram_page cr pl a i) =
    (if \<not> is_zram_enable cr pl then Some None
     else do { z \<leftarrow> zram_at cr pl a; case z of None \<Rightarrow> Some None | Some z \<Rightarrow> zram_page cr pl z i })"
proof -
  from zv.get_view_build [OF assms, of a, symmetric] show ?thesis
    by (cases "memo_get zr_addr (zram_at cr pl) a (zram_list pl)")
      (auto simp: read_zram_page_memo zram_page_view split: option.splits bind_splits)
qed

lemma read_zram_page_result:
  assumes "coherent zr_addr (zram_at cr pl) (zram_list pl)"
  shows "map_option snd (read_zram_page cr pl a i) =
    (if \<not> is_zram_enable cr pl then Some None
     else do { z \<leftarrow> zram_at cr pl a; case z of None \<Rightarrow> Some None | Some z \<Rightarrow> zram_page cr pl z i })"
  by (rule read_zram_page_view [OF zv.coherent_view [OF assms]])

lemma read_zram_page_list:
  assumes "read_zram_page cr pl a i = Some (pl', r)"
  shows "pl' = pl \<or> (\<exists>tbl z. memo_get zr_addr (zram_at cr pl) a (zram_list pl) = Some (tbl, z) \<and>
    pl' = pl\<lparr>zram_list := tbl\<rparr>)"
proof (cases "is_zram_enable cr pl")
  case True
  then obtain tbl z where m: "memo_get zr_addr (zram_at cr pl) a (zram_list pl) = Some (tbl, z)"
    using assms by (cases "memo_get zr_addr (zram_at cr pl) a (zram_list pl)") (auto simp: read_zram_page_memo)
  then have "pl' = pl\<lparr>zram_list := tbl\<rparr>"
    using assms True by (cases z) (auto simp: read_zram_page_memo bind_eq_Some_conv)
  with m show ?thesis by blast
qed (use assms in \<open>simp add: read_zram_page_memo\<close>)

text \<open>The operations of the object that change its list of devices.\<close>

inductive zram_step :: "crash \<Rightarrow> 'a zraminfo_scheme \<Rightarrow> 'a zraminfo_scheme \<Rightarrow> bool" for cr where
  parse_device: "parser_zram cr a pl = Some (pl', r) \<Longrightarrow> zram_step cr pl pl'"
| parse_devices: "parser_zrams cr pl = Some pl' \<Longrightarrow> zram_step cr pl pl'"
| read_page: "read_zram_page cr pl a i = Some (pl', r) \<Longrightarrow> zram_step cr pl pl'"
| parse_zspages: "parser_zpage_in cr i j pl = Some pl' \<Longrightarrow> zram_step cr pl pl'"
| parse_zspages_once: "parser_zpage_once cr i j pl = Some pl' \<Longrightarrow> zram_step cr pl pl'"

abbreviation listed :: "crash \<Rightarrow> 'a zraminfo_scheme \<Rightarrow> bool" where
  "listed cr pl \<equiv> coherent zr_addr (zram_at cr pl) (map zram_view (zram_list pl))"

lemma parser_zram_listed:
  assumes "listed cr pl" "parser_zram cr a pl = Some (pl', r)"
  shows "listed cr pl' \<and> (\<exists>zs. pl' = pl\<lparr>zram_list := zs\<rparr>)"
proof (cases r)
  case None
  then have "pl' = pl" using assms(2) by (auto simp: parser_zram_def bind_eq_Some_conv split: option.splits)
  then show ?thesis using assms(1) by (auto intro: exI [of _ "zram_list pl"])
next
  case (Some z)
  then have "zram_at cr pl a = Some (Some z)" "pl' = pl\<lparr>zram_list := zram_list pl @ [z]\<rparr>"
    using assms(2) by (auto simp: parser_zram_def bind_eq_Some_conv split: option.splits)
  then show ?thesis using assms(1) zram_at_addr [of cr pl a z] zram_at_view [of cr pl a z] by (auto simp: coherent_def)
qed

lemma parser_zrams_loop_listed:
  assumes "listed cr pl" "parser_zrams_loop cr as pl = Some pl'"
  shows "listed cr pl' \<and> (\<exists>zs. pl' = pl\<lparr>zram_list := zs\<rparr>)"
  using assms
proof (induction "as" arbitrary: pl)
  case Nil
  then show ?case by (auto intro: exI [of _ "zram_list pl"])
next
  case (Cons a "as")
  then obtain pl1 r where "parser_zram cr a pl = Some (pl1, r)" "parser_zrams_loop cr as pl1 = Some pl'"
    by (auto simp: bind_eq_Some_conv)
  then show ?case using Cons.IH [of pl1] parser_zram_listed [OF Cons.prems(1)] by fastforce
qed

lemma class_at_Some:
  "class_at pl i j = Some (z, p, c) \<longleftrightarrow> i < length (zram_list pl) \<and> z = zram_list pl ! i \<and> zr_mem_pool z = Some p \<and>
     j < length (po_class_list p) \<and> po_class_list p ! j = Some c"
  by (auto simp: class_at_def bind_eq_Some_conv Let_def)

lemma parser_zpages_fresh: "parser_zpages cr pl c = Some c' \<Longrightarrow> fresh_class c' = fresh_class c"
  by (auto simp: parser_zpages_def bind_eq_Some_conv)

lemma parser_zpage_in_listed:
  assumes "parser_zpage_in cr i j pl = Some pl'"
  shows "\<exists>zs. pl' = pl\<lparr>zram_list := zs\<rparr> \<and> map zram_view zs = map zram_view (zram_list pl)"
proof -
  obtain z p c c' where c: "class_at pl i j = Some (z, p, c)" and c': "parser_zpages cr pl c = Some c'"
    and pl': "pl' = pl\<lparr>zram_list := (zram_list pl)
       [i := z\<lparr>zr_mem_pool := Some (p\<lparr>po_class_list := (po_class_list p)[j := Some c']\<rparr>)\<rparr>]\<rparr>"
    using assms by (auto simp: parser_zpage_in_def bind_eq_Some_conv)
  have "map (map_option fresh_class) ((po_class_list p)[j := Some c']) = map (map_option fresh_class) (po_class_list p)"
    using c parser_zpages_fresh [OF c'] by (simp add: map_update class_at_Some list_update_same_conv)
  moreover have "zr_mem_pool z = Some p" using c by (auto simp: class_at_Some)
  ultimately have "zram_view (z\<lparr>zr_mem_pool := Some (p\<lparr>po_class_list := (po_class_list p)[j := Some c']\<rparr>)\<rparr>) = zram_view z"
    by (simp add: zram_view_def)
  then show ?thesis using c pl' by (auto simp: map_update class_at_Some list_update_same_conv)
qed

lemma zram_step_listed:
  assumes "zram_step cr pl pl'" "listed cr pl"
  shows "listed cr pl' \<and> (\<exists>zs. pl' = pl\<lparr>zram_list := zs\<rparr>)"
  using assms
proof cases
  case (parse_device a r)
  then show ?thesis using parser_zram_listed [OF assms(2)] by blast
next
  case parse_devices
  then show ?thesis
    using assms(2) parser_zrams_loop_listed [OF assms(2)]
    by (auto simp: parser_zrams_def bind_eq_Some_conv split: if_splits intro: exI [of _ "zram_list pl"])
next
  case (read_page a i r)
  from read_zram_page_list [OF this] show ?thesis
    using assms(2) by (auto dest: zv.get_view_coherent intro: exI [of _ "zram_list pl"])
next
  case (parse_zspages i j)
  then show ?thesis using parser_zpage_in_listed assms(2) by fastforce
next
  case (parse_zspages_once i j)
  then have "parser_zpage_in cr i j pl = Some pl' \<or> pl' = pl"
    by (auto simp: parser_zpage_once_def bind_eq_Some_conv split: if_splits)
  then show ?thesis using parser_zpage_in_listed assms(2) by (fastforce intro: exI [of _ "zram_list pl"])
qed

lemma zram_steps_listed:
  assumes "(zram_step cr)\<^sup>*\<^sup>* pl pl'" "listed cr pl"
  shows "listed cr pl' \<and> (\<exists>zs. pl' = pl\<lparr>zram_list := zs\<rparr>)"
  using assms
proof (induction rule: rtranclp_induct)
  case base
  then show ?case by (auto intro: exI [of _ "zram_list pl"])
next
  case (step q q')
  then show ?case using zram_step_listed [OF step.hyps(2)] by fastforce
qed

text \<open>C2. The list of devices read so far changes only the cost of a page read, not its result. Whatever the
  object did before (parsed one device or all, read pages, parsed the zspages of classes of listed
  devices in place), every listed device is, apart from the parsed zspages of its classes, the one
  the dump holds at its address; a page read returns what it would with an empty list; and it adds
  no device twice.\<close>

theorem zram_list_coherent:
  assumes "coherent zr_addr (zram_at cr pl) (map zram_view (zram_list pl))" "(zram_step cr)\<^sup>*\<^sup>* pl pl'"
  shows "coherent zr_addr (zram_at cr pl') (map zram_view (zram_list pl')) \<and>
    map_option snd (read_zram_page cr pl' a i) = map_option snd (read_zram_page cr (pl\<lparr>zram_list := []\<rparr>) a i) \<and>
    (\<forall>pl'' r. read_zram_page cr pl' a i = Some (pl'', r) \<longrightarrow> distinct (map zr_addr (zram_list pl')) \<longrightarrow>
       distinct (map zr_addr (zram_list pl'')))"
proof (intro conjI allI impI)
  obtain zs where l: "listed cr pl'" and pl': "pl' = pl\<lparr>zram_list := zs\<rparr>" using zram_steps_listed [OF assms(2,1)] by blast
  show "listed cr pl'" by (rule l)
  show "map_option snd (read_zram_page cr pl' a i) = map_option snd (read_zram_page cr (pl\<lparr>zram_list := []\<rparr>) a i)"
    using read_zram_page_view [OF l] read_zram_page_view [of cr "pl\<lparr>zram_list := []\<rparr>"] pl' by simp
  show "distinct (map zr_addr (zram_list pl''))"
    if "read_zram_page cr pl' a i = Some (pl'', r)" "distinct (map zr_addr (zram_list pl'))" for pl'' r
    using read_zram_page_list [OF that(1)] that(2) by (auto dest: zl.get_distinct)
qed

definition zram_example :: zraminfo where
  "zram_example = plugin.extend small_plugin
     \<lparr>ZRAM_FLAG_SHIFT = 13, ZRAM_FLAG_SAME_BIT = 2 ^ 14, ZRAM_FLAG_WB_BIT = 2 ^ 15, ZRAM_COMP_PRIORITY_BIT1 = 20,
      ZRAM_COMP_PRIORITY_MASK = 3, group_cnt = 0, zram_list = []\<rparr>"

text \<open>A dump with one device, whose pool has one class of one zspage.\<close>

definition device_session :: crash where
  "device_session = empty_session\<lparr>PAGESHIFT := 5, IS_KVADDR := \<lambda>_. True, symbol_exists := \<lambda>_. True,
     is_page_ptr := \<lambda>_. Some 64, empty_list := \<lambda>_. False, do_list := \<lambda>_. Some [64],
     readmem := \<lambda>t a n. if n = 16 then Some (8 # replicate 15 0)
       else if n = 12 then Some [32, 0, 0, 0, 1, 0, 0, 0, 1, 0, 0, 0] else Some (replicate (nat n) 0)\<rparr>"

definition device_plugin :: zraminfo where
  "device_plugin = zram_example\<lparr>group_cnt := 1, typetable := (\<lambda>_. Some \<lparr>m_name = '''', m_size = 16, m_offset = 0\<rparr>)
     (''zram@compressor'' := None,
      ''zs_pool@size_class'' := Some \<lparr>m_name = '''', m_size = 8, m_offset = 0\<rparr>,
      ''zs_size_stat@objs'' := Some \<lparr>m_name = '''', m_size = 0, m_offset = 0\<rparr>,
      ''size_class'' := Some \<lparr>m_name = '''', m_size = 12, m_offset = 0\<rparr>,
      ''size_class@objs_per_zspage'' := Some \<lparr>m_name = '''', m_size = 4, m_offset = 4\<rparr>,
      ''size_class@pages_per_zspage'' := Some \<lparr>m_name = '''', m_size = 4, m_offset = 8\<rparr>)\<rparr>"

lemma device_mem:
  "readmem device_session t a 16 = Some (8 # replicate 15 0)"
  "readmem device_session t a 12 = Some [32, 0, 0, 0, 1, 0, 0, 0, 1, 0, 0, 0]"
  "n \<noteq> 16 \<Longrightarrow> n \<noteq> 12 \<Longrightarrow> readmem device_session t a n = Some (replicate (nat n) 0)"
  "IS_KVADDR device_session a" "empty_list device_session a = False" "do_list device_session l = Some [64]"
  by (simp_all add: device_session_def)

lemma device_types:
  "type_size device_plugin ''zram'' = 16" "type_size device_plugin ''zs_pool'' = 16"
  "type_size device_plugin ''size_class'' = 12" "type_size device_plugin ''zram_stats'' = 16"
  "type_size device_plugin ''zspage'' = 16" "type_size device_plugin ''list_head'' = 16"
  "field_size device_plugin ''zs_pool'' ''size_class'' = 8" "field_size device_plugin ''zs_size_stat'' ''objs'' = 0"
  by (simp_all add: type_size_def field_size_def device_plugin_def)

lemma device_offsets:
  "type_offset device_plugin ''zram'' ''compressor'' = -1"
  "type_offset device_plugin ''size_class'' ''objs_per_zspage'' = 4"
  "type_offset device_plugin ''size_class'' ''pages_per_zspage'' = 8"
  "type_offset device_plugin ''size_class'' ''size'' = 0" "type_offset device_plugin ''size_class'' ''index'' = 0"
  "type_offset device_plugin ''size_class'' ''stats'' = 0" "type_offset device_plugin ''size_class'' ''fullness_list'' = 0"
  "type_offset device_plugin ''zram_stats'' f = 0" "type_offset device_plugin ''zspage'' f = 0"
  "type_offset device_plugin ''page'' f = 0" "type_offset device_plugin ''list_head'' f = 0"
  "type_offset device_plugin ''gendisk'' f = 0" "type_offset device_plugin ''zcomp'' f = 0"
  "f \<noteq> ''compressor'' \<Longrightarrow> type_offset device_plugin ''zram'' f = 0"
  "f \<noteq> ''size_class'' \<Longrightarrow> type_offset device_plugin ''zs_pool'' f = 0"
  "type_offset device_plugin ''zs_pool'' ''size_class'' = 0"
  by (simp_all add: type_offset_def device_plugin_def)

lemmas device_eval = device_mem device_types device_offsets read_struct_def read_struct_into_def read_memory_def
  read_pointer_def read_ulong_def read_int_def read_cstring_def ULONG_def UINT_def C_INT_def BOOL_def load_def

definition device_class :: size_class where
  "device_class = \<lparr>sc_addr = 0, sc_fullness_list = [], sc_zspage_parser = False, sc_size = 32, sc_objs_per_zspage = 1,
     sc_pages_per_zspage = 1, sc_index = 32, sc_stats = []\<rparr>"

lemma device_class_parse: "parser_size_class device_session device_plugin 0 = Some (Some device_class)"
  by (simp add: parser_size_class_def device_eval device_class_def to_int32_def)

lemma device_parse:
  "\<exists>z p. parser_zram device_session 8 device_plugin = Some (device_plugin\<lparr>zram_list := [z]\<rparr>, Some z) \<and>
     zr_mem_pool z = Some p \<and> po_class_list p = [Some device_class]"
proof -
  have "pool_classes device_session device_plugin 8 = Some [Some device_class]"
    by (simp add: pool_classes_def device_eval device_class_parse to_int32_def)
  then have "\<exists>p. parser_mem_pool device_session device_plugin 8 = Some (Some p) \<and> po_class_list p = [Some device_class]"
    by (simp add: parser_mem_pool_def device_eval)
  moreover have "zram_list device_plugin = []" by (simp add: device_plugin_def zram_example_def plugin.defs)
  ultimately show ?thesis
    by (auto simp: parser_zram_def zram_at_def parse_zcomp_name_def read_zcomp_name_def parse_compressor_def
        parse_zram_stats_def stat_field_def stat_field_opt_def device_eval)
qed

lemma device_zspage:
  "\<exists>zp. parser_zpage device_session (device_plugin\<lparr>zram_list := zs\<rparr>) 64 device_class = Some (Some zp) \<and>
     length (zpage_objs zp) = 1"
  by (simp add: parser_zpage_def device_eval parser_pages_def parser_pages_loop.simps parser_obj_def device_class_def
      page_to_phy_def zpage_objs_def Let_def)

lemma device_zspages:
  "\<exists>zp. parser_zpages device_session (device_plugin\<lparr>zram_list := zs\<rparr>) device_class =
     Some (device_class\<lparr>sc_fullness_list := [[Some zp]], sc_zspage_parser := True\<rparr>) \<and> length (zpage_objs zp) = 1"
proof -
  have "group_cnt device_plugin = 1" by (simp add: device_plugin_def)
  moreover have "for_each_list device_session (device_plugin\<lparr>zram_list := zs\<rparr>) 0 0 = Some [64]"
    by (simp add: for_each_list_def device_eval)
  moreover have "sc_addr device_class = 0" "sc_fullness_list device_class = []" by (simp_all add: device_class_def)
  ultimately show ?thesis
    using device_zspage [of zs] by (auto simp: parser_zpages_def fullness_group_def device_offsets)
qed

lemma zram_list_coherent_witness:
  "\<exists>pl1 pl2 z. parser_zram device_session 8 device_plugin = Some (pl1, Some z) \<and>
     parser_zpage_in device_session 0 0 pl1 = Some pl2 \<and> zram_list pl1 = [z] \<and> zram_list pl2 \<noteq> [z] \<and>
     coherent zr_addr (zram_at device_session pl2) (map zram_view (zram_list pl2)) \<and>
     map_option snd (read_zram_page device_session pl2 8 3) =
       map_option snd (read_zram_page device_session (device_plugin\<lparr>zram_list := []\<rparr>) 8 3)"
proof -
  obtain z p where d: "parser_zram device_session 8 device_plugin = Some (device_plugin\<lparr>zram_list := [z]\<rparr>, Some z)"
    and p: "zr_mem_pool z = Some p" "po_class_list p = [Some device_class]" using device_parse by blast
  let ?pl = "device_plugin\<lparr>zram_list := [z]\<rparr>"
  have e: "zram_list device_plugin = []" by (simp add: device_plugin_def zram_example_def plugin.defs)
  obtain c where c: "parser_zpages device_session ?pl device_class = Some c" "sc_zspage_parser c"
    using device_zspages [of "[z]"] by auto
  define pl2 where "pl2 = device_plugin\<lparr>zram_list := [z\<lparr>zr_mem_pool := Some (p\<lparr>po_class_list := [Some c]\<rparr>)\<rparr>]\<rparr>"
  have s: "parser_zpage_in device_session 0 0 ?pl = Some pl2"
    using p c(1) by (simp add: parser_zpage_in_def class_at_def pl2_def)
  have "zr_mem_pool (hd (zram_list pl2)) \<noteq> zr_mem_pool z"
  proof
    assume "zr_mem_pool (hd (zram_list pl2)) = zr_mem_pool z"
    then have "p\<lparr>po_class_list := [Some c]\<rparr> = p" by (simp add: pl2_def p)
    then have "[Some c] = [Some device_class]" by (metis p(2) zs_pool.select_convs(3) zs_pool.surjective zs_pool.update_convs(3))
    then show False using c(2) by (simp add: device_class_def)
  qed
  then have n: "zram_list pl2 \<noteq> [z]" by auto
  have "(zram_step device_session)\<^sup>*\<^sup>* device_plugin pl2"
    using zram_step.parse_device [OF d] zram_step.parse_zspages [OF s] by (meson converse_rtranclp_into_rtranclp r_into_rtranclp)
  then have "coherent zr_addr (zram_at device_session pl2) (map zram_view (zram_list pl2)) \<and>
     map_option snd (read_zram_page device_session pl2 8 3) =
       map_option snd (read_zram_page device_session (device_plugin\<lparr>zram_list := []\<rparr>) 8 3)"
    using zram_list_coherent [of device_session device_plugin pl2 8 3] by (simp add: e)
  with d s n show ?thesis by (intro exI [of _ ?pl] exI [of _ pl2] exI [of _ z]) simp
qed

section \<open>Laws: the contents of a page\<close>

lemma decompress_length: "decompress cr nm src dest n = Some out \<Longrightarrow> length out = length dest"
  by (auto simp: decompress_def Let_def split: if_splits)

lemma zram_page_size:
  assumes "zram_page cr pl z i = Some (Some page)"
  shows "length page = PAGESIZE cr"
proof -
  have i: "\<not> drop_bit (PAGESHIFT cr) (zr_disksize z) < i"
    using assms by (rule contrapos_pn) (simp add: zram_page_def)
  then obtain e where e: "read_table_entry cr z i = Some e"
    using assms by (cases "read_table_entry cr z i") (simp_all add: zram_page_def)
  show ?thesis
  proof (cases "te_flags e AND off (ZRAM_FLAG_SAME_BIT pl) = 0")
    case False
    then have "page = replicate (PAGESIZE cr div 8) (ucast (te_handle e)) @ drop (PAGESIZE cr div 8) (replicate (PAGESIZE cr) 0)"
      using assms i e by (simp add: zram_page_def Let_def split: if_splits)
    then show ?thesis by simp
  next
    case True
    then obtain d n h where "read_object cr pl z e = Some (Some (d, n, h))"
      using assms i e by (cases "read_object cr pl z e") (auto simp: zram_page_def Let_def split: option.splits)
    then show ?thesis
      using assms i e True by (simp add: zram_page_def Let_def bind_eq_Some_conv split: if_splits)
        (auto dest: decompress_length)
  qed
qed

text \<open>C4. A page that did not compress is the object's own bytes after the handle, and a compressed one is what
  the device's decompressor makes of the \<open>comp_len\<close> bytes after the handle; the length is the low
  \<open>ZRAM_FLAG_SHIFT\<close> bits of the entry's flags. A name with lz4 in it selects the lz4 decompressor, one with
  lzo but not lz4 the lzo one, and with any other name the page is left zero. When the decompressor
  gives the page back that was compressed, so does the read.\<close>

theorem zram_page_contents:
  assumes "i \<le> drop_bit (PAGESHIFT cr) (zr_disksize z)"
    and "read_table_entry cr z i = Some e" "te_flags e AND off (ZRAM_FLAG_SAME_BIT pl) = 0"
    and "0 \<le> ZRAM_FLAG_SHIFT pl" "ZRAM_FLAG_SHIFT pl < 31" "PAGESHIFT cr < 31"
    and "read_object cr pl z e = Some (Some (hdr @ dat @ pad, n, huge))"
    and "length hdr = (if huge then 0 else 8)"
    and "unat (take_bit (nat (ZRAM_FLAG_SHIFT pl)) (te_flags e)) = length dat"
    and "name = (if zr_compressor z = '''' then zr_zcomp_name z else zr_compressor z)"
    and "length page = PAGESIZE cr"
    and "page = (if length dat = PAGESIZE cr then dat
         else if contains name ''lz4'' then LZ4_decompress_safe cr dat (PAGESIZE cr)
         else if contains name ''lzo'' then lzo1x_decompress_safe cr dat (PAGESIZE cr)
         else replicate (PAGESIZE cr) 0)"
  shows "zram_page cr pl z i = Some (Some page)"
proof -
  have l: "te_flags e AND off (shl1 (ZRAM_FLAG_SHIFT pl) - 1) = of_nat (length dat)"
    unfolding shl1_mask [OF assms(4,5)] take_bit_eq_mask [symmetric] using assms(9) by (rule word_eq_of_nat)
  have "length dat < 2 ^ nat (ZRAM_FLAG_SHIFT pl)"
    using assms(9) by (metis take_bit_nat_less_exp unsigned_take_bit_eq)
  also have "(2 :: nat) ^ nat (ZRAM_FLAG_SHIFT pl) < 2 ^ 31"
    using assms(4,5) by (intro power_strict_increasing) auto
  finally have d: "length dat < 2 ^ 31" .
  have "unat (of_nat (length dat) :: ulong) = length dat" "unat (of_nat (PAGESIZE cr) :: ulong) = PAGESIZE cr"
    using d PAGESIZE_small [OF assms(6)] by (simp_all add: unat_of_nat_small)
  then have c: "(of_nat (length dat) = (of_nat (PAGESIZE cr) :: ulong)) \<longleftrightarrow> length dat = PAGESIZE cr" by metis
  have t: "(if huge then hdr @ dat @ pad else drop 8 (hdr @ dat @ pad)) = dat @ pad" using assms(8) by auto
  show ?thesis
  proof (cases "length dat = PAGESIZE cr")
    case True
    then show ?thesis
      using assms(1,2,3,7,10-12) unfolding zram_page_def Let_def by (simp add: l [simplified] t not_less)
  next
    case False
    have "to_int32 (of_nat (length dat)) = int (length dat)" by (rule to_int32_of_nat [OF d])
    with False show ?thesis
      using assms(1,2,3,7,10-12) unfolding zram_page_def Let_def
      by (auto simp add: l [simplified] c t not_less decompress_def)
  qed
qed

text \<open>A device of pages of eight bytes that stores its first page as it is, in a class of huge objects.\<close>

definition huge_session :: crash where
  "huge_session = empty_session\<lparr>PAGESHIFT := 3, IS_KVADDR := \<lambda>_. True, symbol_exists := \<lambda>_. True,
     phys_to_page := \<lambda>_. Some 100, is_page_ptr := \<lambda>_. Some 16,
     readmem := \<lambda>t a n. case t of PHYSADDR \<Rightarrow> dump_read 16 [1, 2, 3, 4, 5, 6, 7, 8] a n
       | KVADDR \<Rightarrow> if n = 16 then Some [0, 0x20, 0, 0, 0, 0, 0, 0, 8, 0, 0, 0, 0, 0, 0, 0]
           else if n = 12 then Some [0, 0, 0x16, 0, 1, 0, 0, 0, 0, 0, 0, 0] else Some (replicate 8 0)\<rparr>"

definition huge_class :: size_class where
  "huge_class = \<lparr>sc_addr = 0, sc_fullness_list = [], sc_zspage_parser = False, sc_size = 8, sc_objs_per_zspage = 1,
     sc_pages_per_zspage = 1, sc_index = 0, sc_stats = []\<rparr>"

definition example_zram :: zram where
  "example_zram = \<lparr>zr_addr = 8, zr_table = 0x1000,
     zr_mem_pool = Some \<lparr>po_addr = 0, po_name = '''', po_class_list = [Some huge_class], po_pages_allocated = 0,
       po_pages_compacted = 0, po_isolated_pages = 0, po_destroying = False\<rparr>,
     zr_zcomp_name = ''lz4'', zr_disk_name = ''zram0'', zr_limit_pages = 0,
     zr_stats = \<lparr>compr_data_size = 0, num_reads = 0, num_writes = 0, failed_reads = 0, failed_writes = 0,
       invalid_io = 0, notify_free = 0, same_pages = 0, huge_pages = 0, huge_pages_since = 0, pages_stored = 0,
       max_used_pages = 0, writestall = 0, miss_free = 0\<rparr>,
     zr_disksize = 64, zr_compressor = '''', zr_claim = True\<rparr>"

lemma example_offsets: "type_offset zram_example ''zspage'' ''huge'' = -1" "type_offset zram_example ''page'' f = -1"
  by (simp_all add: type_offset_def zram_example_def small_plugin_def plugin.defs)

lemma example_flags: "ZRAM_FLAG_SHIFT zram_example = 13" "ZRAM_FLAG_SAME_BIT zram_example = 2 ^ 14"
  by (simp_all add: zram_example_def plugin.defs)

lemma huge_read_object:
  "read_object huge_session zram_example example_zram \<lparr>te_handle = 0x2000, te_flags = 8\<rparr> =
     Some (Some ([1, 2, 3, 4, 5, 6, 7, 8], 8, True))"
proof -
  have r: "read_ulong huge_session a True = 0" "read_struct_into huge_session a 12 True = Some [0, 0, 0x16, 0, 1, 0, 0, 0, 0, 0, 0, 0]"
      "IS_KVADDR huge_session a" "page_to_phy huge_session a = 16" "phy_to_page huge_session a = 100"
      "OBJ_INDEX_BITS huge_session = 18" "PAGESIZE huge_session = 8" for a
    by (simp_all add: huge_session_def read_ulong_def read_memory_def read_struct_into_def page_to_phy_def
        phy_to_page_def OBJ_INDEX_BITS_def PAGESIZE_def empty_session_def)
  have h: "handle_to_location huge_session 0 = (0, 0)"
    by (simp add: handle_to_location_def r OBJ_INDEX_MASK_def shl1_def to_int32_def)
  have z: "get_zspage huge_session zram_example a = Some \<lparr>flag_bits = 0x160000, zs_inuse = 1, zs_freeobj = 0\<rparr>" for a
    by (simp add: get_zspage_def r zspage_of_bytes_def UINT_def load_def zs_magic_def example_offsets v0_magic_def bits_def
        take_bit_eq_mod drop_bit_eq_div)
  have c: "get_class_id huge_session zram_example \<lparr>flag_bits = 0x160000, zs_inuse = 1, zs_freeobj = 0\<rparr> = 0"
    by (simp add: get_class_id_def example_offsets v0_class_id_def bits_def take_bit_eq_mod drop_bit_eq_div)
  have k: "class_of example_zram 0 = Some huge_class" by (simp add: class_of_def example_zram_def)
  have b: "read_object_bytes huge_session zram_example a 8 0 = Some (Some [1, 2, 3, 4, 5, 6, 7, 8])" for a
    by (simp add: read_object_bytes_def r read_memory_def to_int32_def)
      (simp add: huge_session_def dump_read_def)
  show ?thesis by (simp add: read_object_def r h z c k b pfn_to_page_def huge_class_def)
qed

text \<open>The same device with a class of objects of 24 bytes and the lzo compressor: the object of its first
  page is the handle with its tag, two compressed bytes and what is left of the slot.\<close>

definition lzo_session :: crash where
  "lzo_session = huge_session\<lparr>PAGESHIFT := 5,
     lzo1x_decompress_safe := \<lambda>src n. concat (map (replicate (n div length src)) src),
     readmem := \<lambda>t a n. case t of PHYSADDR \<Rightarrow> dump_read 16 ([1, 0x20, 0, 0, 0, 0, 0, 0, 0xaa, 0xbb] @ replicate 14 7) a n
       | KVADDR \<Rightarrow> if n = 16 then Some [0, 0x20, 0, 0, 0, 0, 0, 0, 2, 0, 0, 0, 0, 0, 0, 0]
           else if n = 12 then Some [0, 0, 0x16, 0, 1, 0, 0, 0, 0, 0, 0, 0] else Some (replicate 8 0)\<rparr>"

definition lzo_zram :: zram where
  "lzo_zram = example_zram\<lparr>zr_compressor := ''lzo-rle'',
     zr_mem_pool := map_option (\<lambda>p. p\<lparr>po_class_list := [Some (huge_class\<lparr>sc_size := 24, sc_objs_per_zspage := 4,
       sc_pages_per_zspage := 3\<rparr>)]\<rparr>) (zr_mem_pool example_zram)\<rparr>"

lemma lzo_read_object:
  "read_object lzo_session zram_example lzo_zram \<lparr>te_handle = 0x2000, te_flags = 2\<rparr> =
     Some (Some ([1, 0x20, 0, 0, 0, 0, 0, 0] @ [0xaa, 0xbb] @ replicate 14 7, 24, False))"
proof -
  have r: "read_ulong lzo_session a True = 0" "read_struct_into lzo_session a 12 True = Some [0, 0, 0x16, 0, 1, 0, 0, 0, 0, 0, 0, 0]"
      "IS_KVADDR lzo_session a" "page_to_phy lzo_session a = 16" "phy_to_page lzo_session a = 100"
      "OBJ_INDEX_BITS lzo_session = 20" "PAGESIZE lzo_session = 32" for a
    by (simp_all add: lzo_session_def huge_session_def read_ulong_def read_memory_def read_struct_into_def page_to_phy_def
        phy_to_page_def OBJ_INDEX_BITS_def PAGESIZE_def empty_session_def)
  have h: "handle_to_location lzo_session 0 = (0, 0)"
    by (simp add: handle_to_location_def r OBJ_INDEX_MASK_def shl1_def to_int32_def)
  have z: "get_zspage lzo_session zram_example a = Some \<lparr>flag_bits = 0x160000, zs_inuse = 1, zs_freeobj = 0\<rparr>" for a
    by (simp add: get_zspage_def r zspage_of_bytes_def UINT_def load_def zs_magic_def example_offsets v0_magic_def bits_def
        take_bit_eq_mod drop_bit_eq_div)
  have c: "get_class_id lzo_session zram_example \<lparr>flag_bits = 0x160000, zs_inuse = 1, zs_freeobj = 0\<rparr> = 0"
    by (simp add: get_class_id_def example_offsets v0_class_id_def bits_def take_bit_eq_mod drop_bit_eq_div)
  have k: "class_of lzo_zram 0 = Some (huge_class\<lparr>sc_size := 24, sc_objs_per_zspage := 4, sc_pages_per_zspage := 3\<rparr>)"
    by (simp add: class_of_def lzo_zram_def example_zram_def)
  have b: "read_object_bytes lzo_session zram_example a 24 0 =
      Some (Some ([1, 0x20, 0, 0, 0, 0, 0, 0, 0xaa, 0xbb] @ replicate 14 7))" for a
    by (simp add: read_object_bytes_def r read_memory_def to_int32_def)
      (simp add: lzo_session_def dump_read_def)
  have "ULONG (1 # 0x20 # 0 # 0 # 0 # 0 # 0 # 0 # 0xaa # 0xbb # replicate 14 7) 0 = Some 0x2001"
    by (simp add: ULONG_def load_def)
  then show ?thesis by (simp add: read_object_def r h z c k b pfn_to_page_def)
qed

lemma zram_page_contents_witness:
  "zram_page lzo_session zram_example lzo_zram 2 = Some (Some (replicate 16 0xaa @ replicate 16 0xbb)) \<and>
   zram_page huge_session zram_example example_zram 3 = Some (Some [1, 2, 3, 4, 5, 6, 7, 8])"
proof
  have e: "read_table_entry lzo_session lzo_zram 2 = Some \<lparr>te_handle = 0x2000, te_flags = 2\<rparr>"
    by (simp add: read_table_entry_def read_struct_into_def lzo_session_def ULONG_def load_def)
  have p: "PAGESHIFT lzo_session = 5" "PAGESIZE lzo_session = 32" "zr_disksize lzo_zram = 64" "zr_compressor lzo_zram = ''lzo-rle''"
    "lzo1x_decompress_safe lzo_session [0xaa, 0xbb] 32 = replicate 16 0xaa @ replicate 16 0xbb"
    by (simp_all add: lzo_session_def PAGESIZE_def lzo_zram_def example_zram_def numeral_2_eq_2 [symmetric])
  have n: "\<not> contains ''lzo-rle'' ''lz4''" "contains ''lzo-rle'' ''lzo''" by code_simp+
  show "zram_page lzo_session zram_example lzo_zram 2 = Some (Some (replicate 16 0xaa @ replicate 16 0xbb))"
  proof (rule zram_page_contents [OF _ e, where pl = zram_example])
    show "read_object lzo_session zram_example lzo_zram \<lparr>te_handle = 0x2000, te_flags = 2\<rparr> =
        Some (Some ([1, 0x20, 0, 0, 0, 0, 0, 0] @ [0xaa, 0xbb] @ replicate 14 7, 24, False))" by (rule lzo_read_object)
    show "''lzo-rle'' = (if zr_compressor lzo_zram = [] then zr_zcomp_name lzo_zram else zr_compressor lzo_zram)"
      by (simp add: p)
  qed (simp_all add: p n example_flags take_bit_eq_mod)
next
  have e: "read_table_entry huge_session example_zram 3 = Some \<lparr>te_handle = 0x2000, te_flags = 8\<rparr>"
    by (simp add: read_table_entry_def read_struct_into_def huge_session_def ULONG_def load_def)
  have p: "PAGESHIFT huge_session = 3" "PAGESIZE huge_session = 8" "zr_disksize example_zram = 64"
    by (simp_all add: huge_session_def PAGESIZE_def example_zram_def)
  show "zram_page huge_session zram_example example_zram 3 = Some (Some [1, 2, 3, 4, 5, 6, 7, 8])"
    using zram_page_contents [of 3 huge_session example_zram _ zram_example "[]" "[1, 2, 3, 4, 5, 6, 7, 8]" "[]" 8 True
        _ "[1, 2, 3, 4, 5, 6, 7, 8]", OF _ e] huge_read_object
    by (simp add: p example_flags)
qed

text \<open>What zram means by a same-filled page: the element, a machine word, repeated over the page.\<close>

definition same_filled :: "nat \<Rightarrow> ulong \<Rightarrow> byte list" where
  "same_filled page_size element = concat (replicate (page_size div 8) (le_bytes 8 (unat element)))"

lemma same_filled_tail: "0 < n \<Longrightarrow> drop (8 * (n - 1)) (concat (replicate n (le_bytes 8 v))) = le_bytes 8 v"
proof (induction n)
  case (Suc n)
  have "length (concat (replicate m (le_bytes 8 v))) = 8 * m" for m by (induction m) auto
  then show ?case using Suc replicate_append_same [of n "le_bytes 8 v"] by (cases n) auto
qed simp

lemma le_bytes_zero: "le_bytes n v = replicate n 0 \<Longrightarrow> v < 256 ^ n \<Longrightarrow> v = 0"
  using le_nat_le_bytes [of n v] by simp

text \<open>C32. A same-filled page is not restored: the entry's low byte is written to the first eighth of the
  page and the rest stays zero, so that the page returned is the one zram means only when the element
  is zero.\<close>

theorem zram_same_page:
  assumes "i \<le> drop_bit (PAGESHIFT cr) (zr_disksize z)" "read_table_entry cr z i = Some e"
    and "te_flags e AND off (ZRAM_FLAG_SAME_BIT pl) \<noteq> 0" "4 \<le> PAGESHIFT cr"
  shows "zram_page cr pl z i = Some (Some (replicate (PAGESIZE cr div 8) (ucast (te_handle e)) @
      replicate (PAGESIZE cr - PAGESIZE cr div 8) 0)) \<and>
    (zram_page cr pl z i = Some (Some (same_filled (PAGESIZE cr) (te_handle e))) \<longleftrightarrow> te_handle e = 0)"
proof -
  define P where "P = PAGESIZE cr"
  let ?r = "replicate (P div 8) (ucast (te_handle e) :: byte) @ replicate (P - P div 8) 0"
  have 1: "zram_page cr pl z i = Some (Some ?r)"
    using assms(1,2,3) by (simp add: zram_page_def Let_def not_less P_def)
  have "P = 2 ^ (PAGESHIFT cr - 3) * 8"
    using assms(4) power_add [of "2::nat" "PAGESHIFT cr - 3" 3] by (simp add: P_def PAGESIZE_def)
  then obtain n where n: "P = n * 8" "2 \<le> n"
    using assms(4) power_increasing [of 1 "PAGESHIFT cr - 3" "2::nat"] by auto
  have "?r = same_filled P (te_handle e) \<longleftrightarrow> te_handle e = 0"
  proof
    assume "?r = same_filled P (te_handle e)"
    then have "drop (8 * (n - 1)) ?r = le_bytes 8 (unat (te_handle e))"
      using same_filled_tail [of n "unat (te_handle e)"] n by (simp add: same_filled_def)
    then have "le_bytes 8 (unat (te_handle e)) = replicate (7 * n - (8 * (n - 1) - n)) 0"
      using n by simp
    then have "le_bytes 8 (unat (te_handle e)) = replicate 8 0" by (metis length_le_bytes length_replicate)
    then show "te_handle e = 0" using le_bytes_zero [of 8 "unat (te_handle e)"] unat_less_power [of "te_handle e"]
      by (simp add: unat_eq_zero)
  next
    assume h: "te_handle e = 0"
    have "le_bytes m 0 = replicate m 0" for m by (induction m) auto
    then have "concat (replicate m (le_bytes 8 0)) = replicate (8 * m) 0" for m
      by (induction m) (auto simp: replicate_add [symmetric])
    with h n show "?r = same_filled P (te_handle e)"
      by (simp add: same_filled_def replicate_add [symmetric] mult.commute)
  qed
  with 1 show ?thesis by (simp add: P_def)
qed

definition same_session :: crash where
  "same_session = empty_session\<lparr>PAGESHIFT := 5, symbol_exists := \<lambda>_. True,
     readmem := \<lambda>t a n. Some [0x41, 0, 0, 0, 0, 0, 0, 0, 0, 0x40, 0, 0, 0, 0, 0, 0]\<rparr>"

lemma same_entry: "read_table_entry same_session example_zram 2 = Some \<lparr>te_handle = 0x41, te_flags = 0x4000\<rparr>"
  by (simp add: read_table_entry_def read_struct_into_def same_session_def ULONG_def load_def)

lemma zram_same_page_witness:
  "zram_page same_session zram_example example_zram 2 = Some (Some (replicate 4 0x41 @ replicate 28 0)) \<and>
   zram_page same_session zram_example example_zram 2 \<noteq> Some (Some (same_filled 32 0x41))"
proof -
  have "PAGESHIFT same_session = 5" "PAGESIZE same_session = 32" "zr_disksize example_zram = 64"
    by (simp_all add: same_session_def PAGESIZE_def example_zram_def)
  then show ?thesis
    using zram_same_page [OF _ same_entry, of zram_example] by (auto simp: example_flags)
qed

section \<open>Laws: the classes of a pool\<close>

definition class_addr :: "crash \<Rightarrow> 'a plugin_scheme \<Rightarrow> ulong \<Rightarrow> nat \<Rightarrow> ulong" where
  "class_addr cr pl addr i =
     read_pointer cr (addr + off (field_offset pl ''zs_pool'' ''size_class'') + of_nat i * 8) True"

definition class_cnt :: "'a plugin_scheme \<Rightarrow> nat" where
  "class_cnt pl = nat (to_int32 (off (field_size pl ''zs_pool'' ''size_class'') div 8))"







end
