(* ===== verification/Swap.thy ===== *)
theory Swap
  imports Zram
begin

text \<open>
  The reader of a task's user memory (\<^verbatim>\<open>src/memory/swapinfo.cpp\<close>, \<^verbatim>\<open>swapinfo.h\<close>): a page is taken from
  the frame the page table names, from the swap cache, or from the zram device it was swapped to.
  Pages are read one at a time and joined; a page that cannot be had is read as zeros.
\<close>

section \<open>Data\<close>

text \<open>\<^verbatim>\<open>struct swap_extent\<close> without its tree links, the first 24 of its 48 bytes.\<close>

record swap_extent =
  start_page :: ulong
  nr_pages :: ulong
  start_block :: ulong

record swap_info =
  si_addr :: ulong
  si_swap_space :: ulong
  si_pages :: uint
  si_inuse_pages :: uint
  si_bdev :: ulong
  si_swap_file :: string

text \<open>The object holds its zram reader by a pointer nobody else writes through.\<close>

record swapinfo = plugin +
  zram_ptr :: zraminfo
  swap_list :: "swap_info list"
  nr_swap :: int

definition swap_fields :: "init_stmt list" where
  "swap_fields =
    [Field ''swap_info_struct'' ''pages'', Field ''swap_info_struct'' ''inuse_pages'',
     Field ''swap_info_struct'' ''swap_file'', Field ''swap_info_struct'' ''swap_vfsmnt'',
     Field ''swap_info_struct'' ''old_block_size'', Field ''swap_info_struct'' ''bdev'',
     Field ''swap_info_struct'' ''swap_extent_root'', Field ''block_device'' ''bd_disk'',
     Field ''gendisk'' ''private_data'', Field ''swap_extent'' ''rb_node'', Field ''block_device'' ''bd_start_sect'',
     Field ''block_device'' ''bd_part'', Field ''hd_struct'' ''start_sect'', Struct ''swap_info_struct'',
     Field ''address_space'' ''i_pages'', Field ''address_space'' ''page_tree'', Struct ''address_space'']"

definition Swapinfo_with :: "crash \<Rightarrow> zraminfo \<Rightarrow> swapinfo option" where
  "Swapinfo_with cr zram = do {
     base \<leftarrow> ParserPlugin cr;
     Some (run_inits cr swap_fields (plugin.extend base \<lparr>zram_ptr = zram, swap_list = [], nr_swap = 0\<rparr>)) }"

definition Swapinfo :: "crash \<Rightarrow> swapinfo option" where
  "Swapinfo cr = do { zram \<leftarrow> Zraminfo cr; Swapinfo_with cr zram }"

definition swap_zram_enable :: "crash \<Rightarrow> swapinfo \<Rightarrow> bool" where
  "swap_zram_enable cr sw = is_zram_enable cr (zram_ptr sw)"

section \<open>Swap entries\<close>

text \<open>
  The search for the extent of an offset: each extent is read over the one before, a failed read
  leaves zeros and goes on, the loop stops at the first that holds the offset. What the variable holds
  at the end is used, found or not; it is indeterminate (\<^term>\<open>None\<close>) when the tree is empty.
\<close>

definition extent_of_bytes :: "byte list \<Rightarrow> swap_extent option" where
  "extent_of_bytes buf = do {
     p \<leftarrow> ULONG buf 24;
     n \<leftarrow> ULONG buf 32;
     b \<leftarrow> ULONG buf 40;
     Some \<lparr>start_page = p, nr_pages = n, start_block = b\<rparr> }"

fun find_extent :: "crash \<Rightarrow> ulong \<Rightarrow> ulong list \<Rightarrow> swap_extent option \<Rightarrow> swap_extent option" where
  "find_extent cr offset [] extent = extent"
| "find_extent cr offset (a # as) extent =
     (case Option.bind (read_struct_into cr a 48 True) extent_of_bytes of
        None \<Rightarrow> find_extent cr offset as (Some \<lparr>start_page = 0, nr_pages = 0, start_block = 0\<rparr>)
      | Some e \<Rightarrow>
          if start_page e < offset \<and> offset < start_page e + nr_pages e then Some e
          else find_extent cr offset as (Some e))"

definition pte_handle_index :: "crash \<Rightarrow> 'a plugin_scheme \<Rightarrow> swap_info \<Rightarrow> ulong \<Rightarrow> ulong option" where
  "pte_handle_index cr pl swap_ptr pte_val = do {
     let offset = swp_offset cr pte_val;
     let root = read_pointer cr (si_addr swap_ptr + off (field_offset pl ''swap_info_struct'' ''swap_extent_root'')) True;
     swap_extent_list \<leftarrow> for_each_rbtree cr root (field_offset pl ''swap_extent'' ''rb_node'');
     extent \<leftarrow> find_extent cr offset swap_extent_list None;
     let start_sect =
       (if THIS_KERNEL_VERSION cr \<ge> LINUX 5 10 0
        then read_ulonglong cr (si_bdev swap_ptr + off (field_offset pl ''block_device'' ''bd_start_sect'')) True
        else read_ulong cr
          (read_ulong cr (si_bdev swap_ptr + off (field_offset pl ''block_device'' ''bd_part'')) True
             + off (field_offset pl ''hd_struct'' ''start_sect'')) True);
     Some (start_sect + (start_block extent + (offset - start_page extent))) }"

definition lookup_swap_cache :: "crash \<Rightarrow> 'a plugin_scheme \<Rightarrow> ulong \<Rightarrow> ulong option" where
  "lookup_swap_cache cr pl pte_val =
     (if \<not> symbol_exists cr ''swapper_spaces'' then Some 0
      else do {
        sym \<leftarrow> symbol_value cr ''swapper_spaces'';
        let offset = swp_offset cr pte_val;
        let swp_space = read_pointer cr (sym + swp_type cr pte_val * 8) True
              + drop_bit 14 offset * off (type_size pl ''address_space'');
        if \<not> IS_KVADDR cr swp_space then Some 0
        else
          let is_xarray = (MEMBER_TYPE_NAME cr ''address_space'' ''i_pages'' = ''xarray'');
              i_pages_offset = (if field_offset pl ''address_space'' ''i_pages'' = -1
                                then field_offset pl ''address_space'' ''page_tree''
                                else field_offset pl ''address_space'' ''i_pages'') in
          if is_xarray
          then (case xarray_search cr (swp_space + off i_pages_offset) offset of
                  None \<Rightarrow> Some 0 | Some v \<Rightarrow> Some (if v AND 1 \<noteq> 0 then 0 else v))
          else (case radix_tree_search cr (swp_space + off i_pages_offset) offset of
                  None \<Rightarrow> Some 0 | Some v \<Rightarrow> Some (if v AND 2 \<noteq> 0 then 0 else v)) })"

text \<open>\<^verbatim>\<open>present\<close> is an int: the result of the mask is cut to 32 bits.\<close>

definition is_swap_pte :: "crash \<Rightarrow> ulong \<Rightarrow> bool" where
  "is_swap_pte cr pte \<longleftrightarrow> pte \<noteq> 0 \<and> to_int32 (pte AND (1 OR PTE_PROT_NONE cr)) = 0"

section \<open>Swap areas\<close>

text \<open>
  One round of the loop over the swap areas; \<open>buf\<close> is the local path buffer, which keeps its contents
  between rounds and is indeterminate before the first path is written.
\<close>

definition swap_path :: "crash \<Rightarrow> 'a plugin_scheme \<Rightarrow> byte list \<Rightarrow> string option \<Rightarrow> string option option" where
  "swap_path cr pl swap_info_buf buf = do {
     swap_file \<leftarrow> ULONG swap_info_buf (field_offset pl ''swap_info_struct'' ''swap_file'');
     if \<not> IS_KVADDR cr swap_file then Some buf
     else if field_offset pl ''swap_info_struct'' ''swap_vfsmnt'' \<noteq> -1
     then do { vfsmnt \<leftarrow> ULONG swap_info_buf (field_offset pl ''swap_info_struct'' ''swap_vfsmnt'');
               Some (Some (get_pathname cr swap_file vfsmnt)) }
     else if field_offset pl ''swap_info_struct'' ''old_block_size'' \<noteq> -1
     then Some (Some (get_pathname cr (file_to_dentry cr swap_file) (file_to_vfsmnt cr swap_file)))
     else Some (Some (get_pathname cr swap_file 0)) }"

fun swap_info_loop ::
  "crash \<Rightarrow> 'a plugin_scheme \<Rightarrow> ulong \<Rightarrow> ulong \<Rightarrow> nat list \<Rightarrow> string option \<Rightarrow> swap_info list option" where
  "swap_info_loop cr pl swap_info_addr swp_space [] buf = Some []"
| "swap_info_loop cr pl swap_info_addr swp_space (i # is) buf =
     (let addr = read_pointer cr (swap_info_addr + of_nat i * 8) True in
      if \<not> IS_KVADDR cr addr then swap_info_loop cr pl swap_info_addr swp_space is buf
      else case read_struct cr pl addr ''swap_info_struct'' True of
        None \<Rightarrow> swap_info_loop cr pl swap_info_addr swp_space is buf
      | Some swap_info_buf \<Rightarrow> do {
          pages \<leftarrow> UINT swap_info_buf (field_offset pl ''swap_info_struct'' ''pages'');
          inuse \<leftarrow> UINT swap_info_buf (field_offset pl ''swap_info_struct'' ''inuse_pages'');
          buf \<leftarrow> swap_path cr pl swap_info_buf buf;
          swap_file \<leftarrow> buf;
          bdev \<leftarrow> ULONG swap_info_buf (field_offset pl ''swap_info_struct'' ''bdev'');
          rest \<leftarrow> swap_info_loop cr pl swap_info_addr swp_space is buf;
          Some (\<lparr>si_addr = addr, si_swap_space = read_pointer cr (swp_space + of_nat i * 8) True,
            si_pages = pages, si_inuse_pages = inuse, si_bdev = bdev, si_swap_file = swap_file\<rparr> # rest) })"

definition parser_swap_info :: "crash \<Rightarrow> 'a swapinfo_scheme \<Rightarrow> 'a swapinfo_scheme option" where
  "parser_swap_info cr sw =
     (if \<not> symbol_exists cr ''nr_swapfiles'' then Some sw
      else if \<not> symbol_exists cr ''swap_info'' then Some sw
      else do {
        swap_info_addr \<leftarrow> symbol_value cr ''swap_info'';
        nr_sym \<leftarrow> symbol_value cr ''nr_swapfiles'';
        let nr = read_int cr nr_sym True;
        swp_space \<leftarrow> symbol_value cr ''swapper_spaces'';
        areas \<leftarrow> swap_info_loop cr sw swap_info_addr swp_space [0..<nat nr] None;
        Some (sw\<lparr>nr_swap := nr, swap_list := swap_list sw @ areas\<rparr>) })"

definition get_swap_info :: "crash \<Rightarrow> 'a swapinfo_scheme \<Rightarrow> ulong \<Rightarrow> swap_info option option" where
  "get_swap_info cr sw pte_val =
     (if \<not> symbol_exists cr ''swap_info'' then Some None
      else do {
        sym \<leftarrow> symbol_value cr ''swap_info'';
        let swap_addr = (if SWAPINFO_V2 cr then read_pointer cr (sym + swp_type cr pte_val * 8) True
                         else sym + off (type_size sw ''swap_info_struct'') * swp_type cr pte_val);
        if \<not> IS_KVADDR cr swap_addr then Some None
        else Some (List.find (\<lambda>s. si_addr s = swap_addr) (swap_list sw)) })"

definition get_zram_addr :: "crash \<Rightarrow> 'a plugin_scheme \<Rightarrow> swap_info \<Rightarrow> ulong" where
  "get_zram_addr cr pl swap_ptr =
     (if \<not> contains (si_swap_file swap_ptr) ''zram'' then 0
      else if \<not> IS_KVADDR cr (si_bdev swap_ptr) then 0
      else let bd_disk = read_pointer cr (si_bdev swap_ptr + off (field_offset pl ''block_device'' ''bd_disk'')) True in
        if \<not> IS_KVADDR cr bd_disk then 0
        else read_pointer cr (bd_disk + off (field_offset pl ''gendisk'' ''private_data'')) True)"

section \<open>One page\<close>

text \<open>
  The page behind a swap entry: from the swap cache, or from the zram device of its swap area. A swap
  area that is no zram device has no readable pages.
\<close>

definition read_swap_pte :: "crash \<Rightarrow> 'a swapinfo_scheme \<Rightarrow> ulong \<Rightarrow> ('a swapinfo_scheme \<times> byte list option) option" where
  "read_swap_pte cr sw pte = do {
     swap_page \<leftarrow> lookup_swap_cache cr sw pte;
     if IS_KVADDR cr swap_page
     then Some (sw, read_memory cr (page_to_phy cr swap_page) (int (PAGESIZE cr)) False)
     else do {
       area \<leftarrow> get_swap_info cr sw pte;
       case area of
         None \<Rightarrow> Some (sw, None)
       | Some swap_ptr \<Rightarrow>
           let zram_addr = get_zram_addr cr sw swap_ptr in
           if \<not> IS_KVADDR cr zram_addr then Some (sw, None)
           else do {
             index \<leftarrow> pte_handle_index cr sw swap_ptr pte;
             (zram, page) \<leftarrow> read_zram_page cr (zram_ptr sw) zram_addr index;
             Some (sw\<lparr>zram_ptr := zram\<rparr>, page) } } }"

text \<open>The swap areas are parsed when the first page is read.\<close>

definition ensure_swap_list :: "crash \<Rightarrow> 'a swapinfo_scheme \<Rightarrow> 'a swapinfo_scheme option" where
  "ensure_swap_list cr sw = do {
     sym \<leftarrow> symbol_value cr ''nr_swapfiles'';
     let sw = sw\<lparr>nr_swap := read_int cr sym True\<rparr>;
     if length (swap_list sw) = 0 \<and> 0 < nr_swap sw then parser_swap_info cr sw else Some sw }"

definition page_start_of :: "crash \<Rightarrow> ulong \<Rightarrow> ulong" where
  "page_start_of cr uvaddr = uvaddr AND NOT (of_nat (PAGESIZE cr) - 1)"

definition do_swap_page ::
  "crash \<Rightarrow> ulong \<Rightarrow> 'a swapinfo_scheme \<Rightarrow> ulong \<Rightarrow> ('a swapinfo_scheme \<times> byte list option) option" where
  "do_swap_page cr task_addr sw uvaddr = do {
     sw \<leftarrow> ensure_swap_list cr sw;
     case task_to_context cr task_addr of
       None \<Rightarrow> Some (sw, None)
     | Some tc \<Rightarrow>
         let page_start = page_start_of cr uvaddr in
         if \<not> IS_UVADDR cr page_start tc then Some (sw, None)
         else
           let (page_exist, paddr) = uvtop cr tc page_start in
           if page_exist then Some (sw, read_memory cr paddr (int (PAGESIZE cr)) False)
           else if is_swap_pte cr paddr then read_swap_pte cr sw paddr
           else Some (sw, None) }"

section \<open>Memory across pages\<close>

text \<open>
  The loop of \<^verbatim>\<open>uread_memory\<close> over any source of pages \<open>fetch\<close>: the part of each page up to its end or
  to the end of the range. The result vector starts out as zeros and a missing page leaves them.
\<close>

definition page_offset :: "nat \<Rightarrow> ulong \<Rightarrow> nat" where
  "page_offset k uvaddr = unat (uvaddr AND (of_nat (2 ^ k) - 1))"

lemma page_offset_mod: "page_offset k uvaddr = unat uvaddr mod 2 ^ k"
proof -
  have "uvaddr AND (of_nat (2 ^ k) - 1) = take_bit k uvaddr"
    by (simp add: take_bit_eq_mask mask_eq_exp_minus_1)
  then have "page_offset k uvaddr = unat (take_bit k uvaddr)" by (simp only: page_offset_def)
  also have "\<dots> = take_bit k (unat uvaddr)" by (rule unsigned_take_bit_eq)
  finally show ?thesis by (simp only: take_bit_eq_mod)
qed

function pages_loop ::
  "('s \<Rightarrow> ulong \<Rightarrow> ('s \<times> byte list option) option) \<Rightarrow> nat \<Rightarrow> 's \<Rightarrow> ulong \<Rightarrow> nat \<Rightarrow> ('s \<times> byte list) option" where
  "pages_loop fetch k s uvaddr remain =
     (if remain = 0 then Some (s, [])
      else do {
        (s, buf_page) \<leftarrow> fetch s uvaddr;
        let offset_in_page = page_offset k uvaddr;
        let read_len = min remain (2 ^ k - offset_in_page);
        part \<leftarrow> (case buf_page of
                   None \<Rightarrow> Some (replicate read_len 0)
                 | Some b \<Rightarrow> if offset_in_page + read_len \<le> length b
                             then Some (take read_len (drop offset_in_page b)) else None);
        (s, rest) \<leftarrow> pages_loop fetch k s (uvaddr + of_nat read_len) (remain - read_len);
        Some (s, part @ rest) })"
  by pat_completeness auto
termination
proof (relation "measure (\<lambda>(fetch, k, s, uvaddr, remain). remain)", simp, clarsimp)
  fix k and uvaddr :: ulong and remain :: nat
  assume "0 < remain"
  moreover have "page_offset k uvaddr < 2 ^ k" by (simp add: page_offset_mod)
  ultimately show "remain - min remain (2 ^ k - page_offset k uvaddr) < remain" by simp
qed

declare pages_loop.simps [simp del]

definition uread_memory ::
  "crash \<Rightarrow> ulong \<Rightarrow> 'a swapinfo_scheme \<Rightarrow> ulong \<Rightarrow> int \<Rightarrow> ('a swapinfo_scheme \<times> byte list) option" where
  "uread_memory cr task_addr sw uvaddr len =
     (if len < 0 then None else pages_loop (do_swap_page cr task_addr) (PAGESHIFT cr) sw uvaddr (nat len))"

text \<open>\<^verbatim>\<open>uread_cstring\<close> copies the buffer only when it is empty.\<close>

definition uread_cstring ::
  "crash \<Rightarrow> ulong \<Rightarrow> 'a swapinfo_scheme \<Rightarrow> ulong \<Rightarrow> int \<Rightarrow> ('a swapinfo_scheme \<times> string) option" where
  "uread_cstring cr task_addr sw uvaddr len = do {
     (sw, buf) \<leftarrow> uread_memory cr task_addr sw uvaddr len;
     if length buf = 0 then Some (sw, to_string buf) else Some (sw, '''') }"

text \<open>A scalar: the bytes of its size, decoded; an empty buffer would give the default.\<close>

definition uread_scalar ::
  "crash \<Rightarrow> ulong \<Rightarrow> 'a swapinfo_scheme \<Rightarrow> ulong \<Rightarrow> int \<Rightarrow> (byte list \<Rightarrow> 'r option) \<Rightarrow> 'r \<Rightarrow> ('a swapinfo_scheme \<times> 'r) option" where
  "uread_scalar cr task_addr sw uvaddr len decode dflt = do {
     (sw, buf) \<leftarrow> uread_memory cr task_addr sw uvaddr len;
     if length buf = 0 then Some (sw, dflt) else do { r \<leftarrow> decode buf; Some (sw, r) } }"

definition C_LONG :: "byte list \<Rightarrow> int \<Rightarrow> int option" where
  "C_LONG buf o' = map_option sint (ULONG buf o')"

definition C_SHORT :: "byte list \<Rightarrow> int \<Rightarrow> int option" where
  "C_SHORT buf o' = map_option sint (USHORT buf o')"

definition uread_bool where "uread_bool cr t sw a = uread_scalar cr t sw a 1 (\<lambda>b. BOOL b 0) False"
definition uread_int where "uread_int cr t sw a = uread_scalar cr t sw a 4 (\<lambda>b. C_INT b 0) 0"
definition uread_uint where "uread_uint cr t sw a = uread_scalar cr t sw a 4 (\<lambda>b. UINT b 0) 0"
definition uread_long where "uread_long cr t sw a = uread_scalar cr t sw a 8 (\<lambda>b. C_LONG b 0) 0"
definition uread_ulong where "uread_ulong cr t sw a = uread_scalar cr t sw a 8 (\<lambda>b. ULONG b 0) 0"
definition uread_ulonglong where "uread_ulonglong cr t sw a = uread_scalar cr t sw a 8 (\<lambda>b. ULONG b 0) 0"
definition uread_ushort where "uread_ushort cr t sw a = uread_scalar cr t sw a 2 (\<lambda>b. USHORT b 0) 0"
definition uread_short where "uread_short cr t sw a = uread_scalar cr t sw a 2 (\<lambda>b. C_SHORT b 0) 0"
definition uread_pointer where "uread_pointer cr t sw a = uread_scalar cr t sw a 8 (\<lambda>b. ULONG b 0) 0"
definition uread_byte where "uread_byte cr t sw a = uread_scalar cr t sw a 1 (\<lambda>b. UCHAR b 0) 0"

section \<open>Sources of pages\<close>

text \<open>The byte at an address, given the pages by their first address; a missing page reads as zeros.\<close>

definition page_byte :: "(ulong \<Rightarrow> byte list option) \<Rightarrow> nat \<Rightarrow> ulong \<Rightarrow> byte" where
  "page_byte page k a = (case page (a AND NOT (mask k)) of None \<Rightarrow> 0 | Some b \<Rightarrow> b ! (unat a mod 2 ^ k))"

lemma within_page:
  fixes a :: ulong
  assumes "k \<le> 64" "unat a mod 2 ^ k + i < 2 ^ k"
  shows "(a + of_nat i) AND NOT (mask k) = a AND NOT (mask k)"
    and "unat (a + of_nat i) mod 2 ^ k = unat a mod 2 ^ k + i"
proof -
  let ?q = "unat a div 2 ^ k"
  have a: "unat a = ?q * 2 ^ k + unat a mod 2 ^ k" by (rule div_mult_mod_eq [symmetric])
  have "?q < 2 ^ (64 - k)"
    using unat_less_power [of a] assms(1) by (simp add: less_mult_imp_div_less flip: power_add)
  then have "(?q + 1) * 2 ^ k \<le> 2 ^ (64 - k) * 2 ^ k" by (intro mult_le_mono1) simp
  then have "(?q + 1) * 2 ^ k \<le> 2 ^ 64" using assms(1) by (simp flip: power_add)
  then have "unat a + i < 2 ^ 64" using assms(2) a by simp
  moreover have "a + of_nat i = of_nat (unat a + i)" by simp
  ultimately have u: "unat (a + of_nat i) = unat a + i" by (simp only:) (rule unat_of_nat_small, simp)
  have s: "unat a + i = ?q * 2 ^ k + (unat a mod 2 ^ k + i)" using a by simp
  show "unat (a + of_nat i) mod 2 ^ k = unat a mod 2 ^ k + i"
    unfolding u s using assms(2) by simp
  have "unat (a + of_nat i) div 2 ^ k = ?q"
    unfolding u s using assms(2) by simp
  then have "drop_bit k (unat (a + of_nat i)) = drop_bit k (unat a)" by (simp only: drop_bit_eq_div)
  then have "drop_bit k (a + of_nat i) = drop_bit k a" by (simp only: word_unat_eq_iff unat_drop_bit_eq)
  moreover have "w AND NOT (mask k) = push_bit k (drop_bit k w)" for w :: ulong
    by (rule bit_eqI) (auto simp: bit_simps)
  ultimately show "(a + of_nat i) AND NOT (mask k) = a AND NOT (mask k)" by simp
qed

locale page_source =
  fixes fetch :: "'s \<Rightarrow> ulong \<Rightarrow> ('s \<times> byte list option) option"
    and inv :: "'s \<Rightarrow> bool"
    and page :: "ulong \<Rightarrow> byte list option"
    and k :: nat
  assumes fetch_inv: "inv s \<Longrightarrow> fetch s a = Some (s', r) \<Longrightarrow> inv s'"
    and fetch_page: "inv s \<Longrightarrow> fetch s a = Some (s', r) \<Longrightarrow> r = page (a AND NOT (mask k))"
begin

lemma part_bytes:
  assumes bits: "k \<le> 64" and "inv s" "fetch s a = Some (s', r)" "n \<le> 2 ^ k - page_offset k a"
    and "(case r of None \<Rightarrow> Some (replicate n 0)
      | Some b \<Rightarrow> if page_offset k a + n \<le> length b then Some (take n (drop (page_offset k a) b)) else None) = Some part"
  shows "part = map (\<lambda>i. page_byte page k (a + of_nat i)) [0..<n]"
proof (rule nth_equalityI)
  show "length part = length (map (\<lambda>i. page_byte page k (a + of_nat i)) [0..<n])"
    using assms(5) by (auto split: option.splits if_splits)
  fix i
  assume "i < length part"
  then have i: "i < n" using assms(5) by (auto split: option.splits if_splits)
  have o': "page_offset k a < 2 ^ k" by (simp add: page_offset_mod)
  then have "unat a mod 2 ^ k + i < 2 ^ k" using i assms(4) by (simp add: page_offset_mod)
  note w = within_page [OF bits this]
  show "part ! i = map (\<lambda>i. page_byte page k (a + of_nat i)) [0..<n] ! i"
    using assms(5) i fetch_page [OF assms(2,3)] w
    by (auto simp: page_byte_def page_offset_mod split: option.splits if_splits)
qed

lemma loop_bytes:
  assumes bits: "k \<le> 64" and "inv s" "pages_loop fetch k s a n = Some (s', bs)"
  shows "inv s' \<and> bs = map (\<lambda>i. page_byte page k (a + of_nat i)) [0..<n]"
  using assms(2,3)
proof (induction n arbitrary: s a bs rule: less_induct)
  case (less n)
  show ?case
  proof (cases "n = 0")
    case True
    with less.prems show ?thesis by (simp add: pages_loop.simps)
  next
    case False
    define m where "m = min n (2 ^ k - page_offset k a)"
    obtain s1 r part rest where f: "fetch s a = Some (s1, r)"
      and part: "(case r of None \<Rightarrow> Some (replicate m 0)
        | Some b \<Rightarrow> if page_offset k a + m \<le> length b then Some (take m (drop (page_offset k a) b)) else None) = Some part"
      and rest: "pages_loop fetch k s1 (a + of_nat m) (n - m) = Some (s', rest)" and bs: "bs = part @ rest"
      using less.prems(2) False unfolding m_def
      by (subst (asm) pages_loop.simps) (auto simp: bind_eq_Some_conv Let_def)
    have "page_offset k a < 2 ^ k" by (simp add: page_offset_mod)
    then have m: "0 < m" "m \<le> n" "m \<le> 2 ^ k - page_offset k a" using False by (auto simp: m_def)
    have p: "part = map (\<lambda>i. page_byte page k (a + of_nat i)) [0..<m]"
      by (rule part_bytes [OF bits less.prems(1) f m(3) part])
    have "inv s' \<and> rest = map (\<lambda>i. page_byte page k (a + of_nat m + of_nat i)) [0..<n - m]"
      using less.IH [OF _ fetch_inv [OF less.prems(1) f] rest] m by simp
    moreover have "map (\<lambda>i. page_byte page k (a + of_nat m + of_nat i)) [0..<n - m] =
        map (\<lambda>i. page_byte page k (a + of_nat i)) [m..<n]"
      using m(2) by (intro nth_equalityI) (auto simp: add.assoc)
    moreover have "[0..<n] = [0..<m] @ [m..<n]" using m(2) upt_add_eq_append [of 0 m "n - m"] by simp
    ultimately show ?thesis using bs p by simp
  qed
qed

lemma loop_returns:
  assumes "inv s" and total: "\<And>s a. inv s \<Longrightarrow> \<exists>s' r. fetch s a = Some (s', r)"
    and len: "\<And>a b. page a = Some b \<Longrightarrow> length b = 2 ^ k"
  shows "\<exists>s' bs. pages_loop fetch k s a n = Some (s', bs)"
  using assms(1)
proof (induction n arbitrary: s a rule: less_induct)
  case (less n)
  show ?case
  proof (cases "n = 0")
    case True
    then show ?thesis by (simp add: pages_loop.simps)
  next
    case False
    define m where "m = min n (2 ^ k - page_offset k a)"
    have "page_offset k a < 2 ^ k" by (simp add: page_offset_mod)
    then have m: "0 < m" "page_offset k a + m \<le> 2 ^ k" using False by (auto simp: m_def)
    obtain s1 r where f: "fetch s a = Some (s1, r)" using total less.prems by blast
    have "\<exists>part. (case r of None \<Rightarrow> Some (replicate m 0)
        | Some b \<Rightarrow> if page_offset k a + m \<le> length b then Some (take m (drop (page_offset k a) b)) else None) = Some part"
      using fetch_page [OF less.prems f] len m by (auto split: option.splits)
    moreover obtain s2 rest where "pages_loop fetch k s1 (a + of_nat m) (n - m) = Some (s2, rest)"
      using less.IH [of "n - m" s1 "a + of_nat m"] m False fetch_inv [OF less.prems f] by auto
    ultimately show ?thesis
      using False f unfolding m_def by (subst pages_loop.simps) (auto simp: Let_def)
  qed
qed

end

section \<open>The state between reads\<close>

text \<open>
  The object after some reads differs from the fresh one \<open>sw\<close> only in what it has parsed: the zram
  devices \<open>zs\<close>, the swap areas \<open>l\<close> and their number.
\<close>

definition with_caches :: "'a swapinfo_scheme \<Rightarrow> zram list \<Rightarrow> swap_info list \<Rightarrow> int \<Rightarrow> 'a swapinfo_scheme" where
  "with_caches sw zs l n = sw\<lparr>zram_ptr := (zram_ptr sw)\<lparr>zram_list := zs\<rparr>, swap_list := l, nr_swap := n\<rparr>"

lemma lookup_with_caches [simp]:
  "type_offset (with_caches sw zs l n) t f = type_offset sw t f"
  "type_size (with_caches sw zs l n) t = type_size sw t"
  by (cases sw; simp add: with_caches_def type_offset_def type_size_def)+

lemma with_caches_sel [simp]:
  "zram_ptr (with_caches sw zs l n) = (zram_ptr sw)\<lparr>zram_list := zs\<rparr>"
  "swap_list (with_caches sw zs l n) = l" "nr_swap (with_caches sw zs l n) = n"
  "with_caches (with_caches sw zs l n) zs' l' n' = with_caches sw zs' l' n'"
  "(with_caches sw zs l n)\<lparr>nr_swap := m\<rparr> = with_caches sw zs l m"
  "(with_caches sw zs l n)\<lparr>swap_list := l'\<rparr> = with_caches sw zs l' n"
  "(with_caches sw zs l n)\<lparr>zram_ptr := (zram_ptr sw)\<lparr>zram_list := zs'\<rparr>\<rparr> = with_caches sw zs' l n"
  by (cases sw; simp add: with_caches_def)+

lemma read_with_caches [simp]:
  "read_struct cr (with_caches sw zs l n) = read_struct cr sw"
  "lookup_swap_cache cr (with_caches sw zs l n) = lookup_swap_cache cr sw"
  "pte_handle_index cr (with_caches sw zs l n) = pte_handle_index cr sw"
  "get_zram_addr cr (with_caches sw zs l n) = get_zram_addr cr sw"
  "swap_path cr (with_caches sw zs l n) = swap_path cr sw"
  unfolding read_struct_def [abs_def] lookup_swap_cache_def [abs_def] pte_handle_index_def [abs_def]
    get_zram_addr_def [abs_def] swap_path_def [abs_def] lookup_with_caches by (rule refl)+

lemma swap_info_loop_with_caches [simp]:
  "swap_info_loop cr (with_caches sw zs l n) a b is buf = swap_info_loop cr sw a b is buf"
proof (induction "is" arbitrary: buf)
  case (Cons i "is")
  show ?case
    unfolding swap_info_loop.simps read_with_caches lookup_with_caches Cons.IH by (rule refl)
qed simp

text \<open>What the first read makes of the swap areas.\<close>

definition parsed_areas :: "crash \<Rightarrow> 'a swapinfo_scheme \<Rightarrow> swap_info list option" where
  "parsed_areas cr sw = map_option swap_list (ensure_swap_list cr (with_caches sw [] [] 0))"

definition swap_state :: "crash \<Rightarrow> 'a swapinfo_scheme \<Rightarrow> 'a swapinfo_scheme \<Rightarrow> bool" where
  "swap_state cr sw0 sw \<longleftrightarrow> (\<exists>zs l n. sw = with_caches sw0 zs l n \<and>
     coherent zr_addr (zram_at cr (zram_ptr sw0)) zs \<and> (l = [] \<or> parsed_areas cr sw0 = Some l))"

lemma parser_swap_info_with_caches:
  assumes "symbol_value cr ''nr_swapfiles'' = Some y"
  shows "parser_swap_info cr (with_caches sw zs [] (read_int cr y True)) =
    map_option (\<lambda>l. with_caches sw zs l (read_int cr y True))
      (map_option swap_list (parser_swap_info cr (with_caches sw [] [] (read_int cr y True))))"
  unfolding parser_swap_info_def swap_info_loop_with_caches with_caches_sel assms
  by (simp add: Let_def option.map_comp o_def map_option_bind)

lemma ensure_with_caches:
  assumes "l = [] \<or> parsed_areas cr sw = Some l"
  shows "ensure_swap_list cr (with_caches sw zs l n) =
    (case parsed_areas cr sw of None \<Rightarrow> None
     | Some l' \<Rightarrow> map_option (\<lambda>a. with_caches sw zs l' (read_int cr a True)) (symbol_value cr ''nr_swapfiles''))"
proof (cases "symbol_value cr ''nr_swapfiles''")
  case None
  then show ?thesis by (simp add: parsed_areas_def ensure_swap_list_def)
next
  case (Some y)
  then have "ensure_swap_list cr (with_caches sw zs' l' n') =
      (if l' = [] \<and> 0 < read_int cr y True then parser_swap_info cr (with_caches sw zs' [] (read_int cr y True))
       else Some (with_caches sw zs' l' (read_int cr y True)))" for zs' l' n'
    by (simp add: ensure_swap_list_def Let_def)
  then show ?thesis
    using assms parser_swap_info_with_caches [OF Some, of sw zs] unfolding parsed_areas_def
    by (auto simp: Some split: option.splits)
qed

lemma read_zram_page_state:
  assumes "coherent zr_addr (zram_at cr z0) zs" "read_zram_page cr (z0\<lparr>zram_list := zs\<rparr>) a i = Some (z, r)"
  shows "\<exists>zs'. z = z0\<lparr>zram_list := zs'\<rparr> \<and> coherent zr_addr (zram_at cr z0) zs'"
  using read_zram_page_list [OF assms(2)] assms(1) by (auto dest: zl.get_coherent)

text \<open>The pages of a fresh object; they do not depend on what has been read before.\<close>

definition user_page :: "crash \<Rightarrow> ulong \<Rightarrow> 'a swapinfo_scheme \<Rightarrow> ulong \<Rightarrow> byte list option" where
  "user_page cr task_addr sw a =
     (case do_swap_page cr task_addr (with_caches sw [] [] 0) a of Some (_, r) \<Rightarrow> r | None \<Rightarrow> None)"

lemma read_swap_pte_caches:
  assumes "coherent zr_addr (zram_at cr (zram_ptr sw)) zs"
    and "read_swap_pte cr (with_caches sw zs l n) pte = Some (sw', r)"
  shows "\<exists>zs'. sw' = with_caches sw zs' l n \<and> coherent zr_addr (zram_at cr (zram_ptr sw)) zs' \<and>
    map_option snd (read_swap_pte cr (with_caches sw [] l n) pte) = Some r"
proof -
  have g: "get_swap_info cr (with_caches sw zs l n) pte = get_swap_info cr (with_caches sw [] l n) pte"
    unfolding get_swap_info_def lookup_with_caches with_caches_sel by (rule refl)
  have e: "map_option snd (read_zram_page cr ((zram_ptr sw)\<lparr>zram_list := zs\<rparr>) a i) =
      map_option snd (read_zram_page cr ((zram_ptr sw)\<lparr>zram_list := []\<rparr>) a i)" for a i
    using read_zram_page_result [of cr "(zram_ptr sw)\<lparr>zram_list := zs\<rparr>"]
      read_zram_page_result [of cr "(zram_ptr sw)\<lparr>zram_list := []\<rparr>"] assms(1) by simp
  obtain c where c: "lookup_swap_cache cr sw pte = Some c"
    using assms(2) by (auto simp: read_swap_pte_def bind_eq_Some_conv)
  show ?thesis
  proof (cases "IS_KVADDR cr c")
    case True
    then show ?thesis using assms c by (auto simp: read_swap_pte_def)
  next
    case False
    then obtain area where area: "get_swap_info cr (with_caches sw zs l n) pte = Some area"
      using assms(2) c by (auto simp: read_swap_pte_def bind_eq_Some_conv)
    show ?thesis
    proof (cases "\<exists>a. area = Some a \<and> IS_KVADDR cr (get_zram_addr cr sw a)")
      case True
      then obtain a where a: "area = Some a" "IS_KVADDR cr (get_zram_addr cr sw a)" by blast
      from assms(2) obtain i z where i: "pte_handle_index cr sw a pte = Some i"
        and z: "read_zram_page cr ((zram_ptr sw)\<lparr>zram_list := zs\<rparr>) (get_zram_addr cr sw a) i = Some (z, r)"
        and sw': "sw' = (with_caches sw zs l n)\<lparr>zram_ptr := z\<rparr>"
        using c False area a by (auto simp: read_swap_pte_def bind_eq_Some_conv)
      obtain zs' where zs': "z = (zram_ptr sw)\<lparr>zram_list := zs'\<rparr>" "coherent zr_addr (zram_at cr (zram_ptr sw)) zs'"
        using read_zram_page_state [OF assms(1) z] by blast
      obtain z' where "read_zram_page cr ((zram_ptr sw)\<lparr>zram_list := []\<rparr>) (get_zram_addr cr sw a) i = Some (z', r)"
        using e [of "get_zram_addr cr sw a" i] unfolding z
        by (cases "read_zram_page cr ((zram_ptr sw)\<lparr>zram_list := []\<rparr>) (get_zram_addr cr sw a) i") auto
      then have "map_option snd (read_swap_pte cr (with_caches sw [] l n) pte) = Some r"
        using c False area a i g by (simp add: read_swap_pte_def)
      then show ?thesis using sw' zs' by auto
    next
      case no: False
      then show ?thesis using assms c False area g
        by (auto simp: read_swap_pte_def split: option.splits if_splits)
    qed
  qed
qed

lemma page_start_idem [simp]:
  "page_start_of cr (a AND NOT (mask (PAGESHIFT cr))) = a AND NOT (mask (PAGESHIFT cr))"
  "page_start_of cr a = a AND NOT (mask (PAGESHIFT cr))"
  by (simp_all add: page_start_of_def PAGESIZE_def mask_eq_exp_minus_1 and.assoc)

lemma do_swap_page_state:
  assumes "swap_state cr sw0 sw" "do_swap_page cr task sw a = Some (sw', r)"
  shows "swap_state cr sw0 sw' \<and> r = user_page cr task sw0 (a AND NOT (mask (PAGESHIFT cr)))"
proof -
  obtain zs l n where sw: "sw = with_caches sw0 zs l n" and zs: "coherent zr_addr (zram_at cr (zram_ptr sw0)) zs"
    and l: "l = [] \<or> parsed_areas cr sw0 = Some l" using assms(1) by (auto simp: swap_state_def)
  obtain l' y where l': "parsed_areas cr sw0 = Some l'" and y: "symbol_value cr ''nr_swapfiles'' = Some y"
    using assms(2) ensure_with_caches [OF l, of zs n] unfolding sw do_swap_page_def
    by (auto simp: bind_eq_Some_conv split: option.splits)
  let ?w = "\<lambda>zs. with_caches sw0 zs l' (read_int cr y True)"
  have e: "ensure_swap_list cr sw = Some (?w zs)" "ensure_swap_list cr (with_caches sw0 [] [] 0) = Some (?w [])"
    using ensure_with_caches [OF l, of zs n] ensure_with_caches [of "[]" cr sw0 "[]" 0] l' y by (simp_all add: sw)
  have st: "swap_state cr sw0 (?w zs')" if "coherent zr_addr (zram_at cr (zram_ptr sw0)) zs'" for zs'
    using that l' by (auto simp: swap_state_def)
  show ?thesis
  proof (cases "\<exists>tc pte. task_to_context cr task = Some tc \<and> IS_UVADDR cr (a AND NOT (mask (PAGESHIFT cr))) tc \<and>
      uvtop cr tc (a AND NOT (mask (PAGESHIFT cr))) = (False, pte) \<and> is_swap_pte cr pte")
    case True
    then obtain tc pte where t: "task_to_context cr task = Some tc" "IS_UVADDR cr (a AND NOT (mask (PAGESHIFT cr))) tc"
      "uvtop cr tc (a AND NOT (mask (PAGESHIFT cr))) = (False, pte)" "is_swap_pte cr pte" by blast
    then have "read_swap_pte cr (?w zs) pte = Some (sw', r)" using assms(2) e by (simp add: do_swap_page_def)
    then obtain zs' where "sw' = ?w zs'" "coherent zr_addr (zram_at cr (zram_ptr sw0)) zs'"
      "map_option snd (read_swap_pte cr (?w []) pte) = Some r"
      using read_swap_pte_caches [OF zs] by blast
    then show ?thesis using st t e by (auto simp: user_page_def do_swap_page_def split: option.splits)
  next
    case False
    then have "sw' = ?w zs \<and> r = user_page cr task sw0 (a AND NOT (mask (PAGESHIFT cr)))"
      using assms(2) e by (auto simp: user_page_def do_swap_page_def Let_def split: option.splits prod.splits if_splits)
    then show ?thesis using st [OF zs] by simp
  qed
qed

interpretation um: page_source "do_swap_page cr task" "swap_state cr sw0" "user_page cr task sw0" "PAGESHIFT cr"
  for cr :: crash and task :: ulong and sw0 :: "'a swapinfo_scheme"
  by unfold_locales (use do_swap_page_state in blast)+

lemma user_page_length:
  assumes "readmem_ok cr" "user_page cr task sw a = Some b"
  shows "length b = 2 ^ PAGESHIFT cr"
proof -
  have m: "length b = PAGESIZE cr" if "read_memory cr p (int (PAGESIZE cr)) False = Some b" for p b
    using readmem_okD [OF assms(1)] that by (fastforce simp: read_memory_def)
  have z: "length b = PAGESIZE cr" if "read_zram_page cr z p i = Some (z', Some b)" for z z' :: zraminfo and p i b
    using that by (auto simp: read_zram_page_memo bind_eq_Some_conv zram_page_size split: if_splits option.splits)
  have s: "length b = PAGESIZE cr" if "read_swap_pte cr q pte = Some (q', Some b)" for q q' :: "'a swapinfo_scheme" and pte
    using that by (auto simp: read_swap_pte_def Let_def bind_eq_Some_conv m dest: z split: if_splits option.splits)
  obtain q where d: "do_swap_page cr task (with_caches sw [] [] 0) a = Some (q, Some b)"
    using assms(2) by (auto simp: user_page_def split: option.splits prod.splits)
  then obtain s1 tc where e: "ensure_swap_list cr (with_caches sw [] [] 0) = Some s1" "task_to_context cr task = Some tc"
    "IS_UVADDR cr (page_start_of cr a) tc"
    by (auto simp: do_swap_page_def Let_def bind_eq_Some_conv split: option.splits if_splits)
  obtain ex pa where u: "uvtop cr tc (page_start_of cr a) = (ex, pa)" by force
  have "length b = PAGESIZE cr"
    using d e u by (cases ex; cases "is_swap_pte cr pa") (auto simp: do_swap_page_def Let_def m dest: s)
  then show ?thesis by (simp add: PAGESIZE_def)
qed

section \<open>Properties\<close>

text \<open>C7. A read of user memory is exact: whatever was read before, the bytes returned are those of the task's
  pages at the consecutive addresses, across page boundaries, with zeros for pages that cannot be had,
  and the object stays in a state for which this holds. When no page read fails to return, the read
  returns.\<close>

theorem uread_memory_bytes:
  assumes "PAGESHIFT cr \<le> 64" "swap_state cr sw0 sw"
  shows "(\<forall>sw' bs. uread_memory cr task sw a len = Some (sw', bs) \<longrightarrow>
       swap_state cr sw0 sw' \<and>
       bs = map (\<lambda>i. page_byte (user_page cr task sw0) (PAGESHIFT cr) (a + of_nat i)) [0..<nat len]) \<and>
    (readmem_ok cr \<and> 0 \<le> len \<and> (\<forall>s a. swap_state cr sw0 s \<longrightarrow> do_swap_page cr task s a \<noteq> None) \<longrightarrow>
       (\<exists>r. uread_memory cr task sw a len = Some r))"
proof (intro conjI allI impI)
  fix sw' bs
  assume "uread_memory cr task sw a len = Some (sw', bs)"
  then have "pages_loop (do_swap_page cr task) (PAGESHIFT cr) sw a (nat len) = Some (sw', bs)"
    by (simp add: uread_memory_def split: if_splits)
  from um.loop_bytes [OF assms(1,2) this]
  show "swap_state cr sw0 sw'" "bs = map (\<lambda>i. page_byte (user_page cr task sw0) (PAGESHIFT cr) (a + of_nat i)) [0..<nat len]"
    by simp_all
next
  assume h: "readmem_ok cr \<and> 0 \<le> len \<and> (\<forall>s a. swap_state cr sw0 s \<longrightarrow> do_swap_page cr task s a \<noteq> None)"
  have "\<exists>s' bs. pages_loop (do_swap_page cr task) (PAGESHIFT cr) sw a (nat len) = Some (s', bs)"
    by (rule um.loop_returns [OF assms(2)]) (use h user_page_length in auto)
  then show "\<exists>r. uread_memory cr task sw a len = Some r" using h by (simp add: uread_memory_def)
qed

text \<open>A string read from user memory is always empty: the bytes are copied only when there are none.\<close>

theorem uread_cstring_empty:
  assumes "uread_cstring cr task sw a len = Some (sw', s)"
  shows "s = ''''"
  using assms by (auto simp: uread_cstring_def to_string_def bind_eq_Some_conv split: if_splits)

text \<open>The extent a swap offset is looked up in is the first that holds it past its first page, otherwise the
  last one of the tree: the first page of an extent does not count as in it.\<close>

theorem find_extent_spec:
  assumes "\<forall>a \<in> set as. Option.bind (read_struct_into cr a 48 True) extent_of_bytes = Some (ext a)" "as \<noteq> []"
  shows "find_extent cr offset as None =
    Some (case List.find (\<lambda>e. start_page e < offset \<and> offset < start_page e + nr_pages e) (map ext as) of
      Some e \<Rightarrow> e | None \<Rightarrow> last (map ext as))"
proof -
  have "find_extent cr offset as x = (case List.find (\<lambda>e. start_page e < offset \<and> offset < start_page e + nr_pages e) (map ext as) of
      Some e \<Rightarrow> Some e | None \<Rightarrow> if as = [] then x else Some (last (map ext as)))" for x
    using assms(1) by (induction "as" arbitrary: x) (auto split: option.splits)
  with assms(2) show ?thesis by (auto split: option.splits)
qed

text \<open>On kernels that mark an inaccessible page by a bit above the lower half of the entry (bit 58 on most
  arm64 kernels) the mark is lost in an int: every entry without the valid bit counts as a swap entry,
  pages protected from access included.\<close>

theorem is_swap_pte_prot_none:
  assumes "PTE_PROT_NONE cr = push_bit 58 1"
  shows "(is_swap_pte cr pte \<longleftrightarrow> pte \<noteq> 0 \<and> \<not> bit pte 0) \<and> is_swap_pte cr (push_bit 58 1)"
proof -
  have "to_int32 (pte AND (1 OR PTE_PROT_NONE cr)) = 0 \<longleftrightarrow> \<not> bit pte 0" for pte
  proof -
    have "(ucast (pte AND (1 OR push_bit 58 1)) :: uint) = (if bit pte 0 then 1 else 0)"
    proof (rule bit_eqI)
      fix n
      have "bit (1 OR push_bit 58 1 :: ulong) n \<longleftrightarrow> n = 0 \<or> n = 58"
        by (simp only: bit_simps) auto
      then show "bit (ucast (pte AND (1 OR push_bit 58 1)) :: uint) n \<longleftrightarrow> bit (if bit pte 0 then 1 else 0 :: uint) n"
        by (simp only: bit_ucast_iff bit_and_iff) (auto simp: bit_simps)
    qed
    then show ?thesis unfolding to_int32_def assms by simp
  qed
  then show ?thesis by (auto simp: is_swap_pte_def bit_simps)
qed

section \<open>Examples\<close>

text \<open>A task whose first two pages of eight bytes lie in frames 2 and 3.\<close>

definition user_session :: crash where
  "user_session = empty_session\<lparr>PAGESHIFT := 3, symbol_value := \<lambda>_. Some 0xffff000000000000,
     readmem := \<lambda>t a n. if n \<le> 0 then None else (case t of KVADDR \<Rightarrow> Some (replicate (nat n) 0)
       | PHYSADDR \<Rightarrow> dump_read 16 [1, 2, 3, 4, 5, 6, 7, 8, 9, 10, 11, 12, 13, 14, 15, 16] a n),
     task_to_context := \<lambda>t. Some \<lparr>tc_task = t, tc_thread_info = 0, tc_pid = 1, tc_comm = ''init'', tc_mm_struct = 0\<rparr>,
     IS_UVADDR := \<lambda>_ _. True, uvtop := \<lambda>_ a. (True, a + 16)\<rparr>"

definition swap_example :: swapinfo where
  "swap_example = plugin.extend small_plugin \<lparr>zram_ptr = zram_example, swap_list = [], nr_swap = 0\<rparr>"

lemma user_session_read_int: "read_int user_session a True = 0"
  by (simp add: read_int_def read_memory_def user_session_def)

lemma swap_state_fresh [simp]: "swap_state cr sw (with_caches sw [] [] n)"
  unfolding swap_state_def by (rule exI [of _ "[]"], rule exI [of _ "[]"], rule exI [of _ n]) simp

lemma user_session_page:
  "do_swap_page user_session t s a =
     Some (s\<lparr>nr_swap := 0\<rparr>, read_memory user_session (page_start_of user_session a + 16) 8 False)"
proof -
  have "ensure_swap_list user_session s = Some (s\<lparr>nr_swap := 0\<rparr>)"
    by (simp add: ensure_swap_list_def user_session_read_int) (simp add: user_session_def)
  moreover have "PAGESIZE user_session = 8" by (simp add: PAGESIZE_def user_session_def)
  ultimately show ?thesis by (simp add: do_swap_page_def del: page_start_idem) (simp add: user_session_def)
qed

lemma user_session_pages:
  "user_page user_session t s 0 = Some [1, 2, 3, 4, 5, 6, 7, 8]"
  "user_page user_session t s 8 = Some [9, 10, 11, 12, 13, 14, 15, 16]"
  by (simp_all add: user_page_def user_session_page read_memory_def page_start_of_def del: page_start_idem)
    (simp_all add: user_session_def PAGESIZE_def dump_read_def)

lemma user_session_readmem_ok: "readmem_ok user_session"
  by (auto simp: readmem_ok_def user_session_def dest: dump_read_length split: memtype.splits if_splits)

lemma uread_memory_bytes_witness:
  "\<exists>sw'. uread_memory user_session 7 (with_caches swap_example [] [] 0) 5 6 = Some (sw', [6, 7, 8, 9, 10, 11])"
proof -
  have k: "PAGESHIFT user_session = 3" by (simp add: user_session_def)
  have u: "[0..<6] = [0, 1, 2, 3, 4, 5 :: nat]" by (simp add: upt_rec)
  have "map (\<lambda>i. page_byte (user_page user_session 7 swap_example) 3 (5 + of_nat i)) [0..<6] = [6, 7, 8, 9, 10, 11]"
    unfolding u by (simp add: page_byte_def user_session_pages mask_eq_exp_minus_1)
  then show ?thesis
    using uread_memory_bytes [of user_session swap_example "with_caches swap_example [] [] 0" 7 5 6]
    by (auto simp: k user_session_readmem_ok user_session_page)
qed

lemma uread_cstring_empty_witness:
  "\<exists>sw' s. uread_cstring user_session 7 (with_caches swap_example [] [] 0) 5 6 = Some (sw', s) \<and> s = ''''"
proof -
  let ?s = "with_caches swap_example [] [] 0"
  have "\<exists>s' bs. pages_loop (do_swap_page user_session 7) (PAGESHIFT user_session) ?s 5 6 = Some (s', bs)"
    by (rule um.loop_returns [of user_session swap_example])
      (simp_all add: user_session_page user_page_length [OF user_session_readmem_ok])
  then have "\<exists>sw' s. uread_cstring user_session 7 ?s 5 6 = Some (sw', s)"
    by (auto simp: uread_cstring_def uread_memory_def)
  then show ?thesis using uread_cstring_empty by blast
qed

text \<open>Two extents of four pages each; offset 0, the first page of the first one, is looked up in the second.\<close>

definition extent_session :: crash where
  "extent_session = empty_session\<lparr>readmem := \<lambda>t a n.
     Some (replicate 24 0 @ (if a = 0x1000 then [0, 0, 0, 0, 0, 0, 0, 0] else [4, 0, 0, 0, 0, 0, 0, 0])
       @ [4, 0, 0, 0, 0, 0, 0, 0] @ (if a = 0x1000 then [0, 1, 0, 0, 0, 0, 0, 0] else [0, 2, 0, 0, 0, 0, 0, 0]))\<rparr>"

lemma find_extent_spec_witness:
  "find_extent extent_session 0 [0x1000, 0x2000] None = Some \<lparr>start_page = 4, nr_pages = 4, start_block = 0x200\<rparr>"
proof -
  let ?ext = "\<lambda>a. if a = 0x1000 then \<lparr>start_page = 0, nr_pages = 4, start_block = 0x100\<rparr>
    else \<lparr>start_page = 4, nr_pages = 4, start_block = 0x200\<rparr>"
  have "\<forall>a \<in> set [0x1000, 0x2000]. Option.bind (read_struct_into extent_session a 48 True) extent_of_bytes = Some (?ext a)"
    by (simp add: read_struct_into_def extent_session_def extent_of_bytes_def ULONG_def load_def)
  from find_extent_spec [OF this, of 0] show ?thesis by simp
qed

lemma is_swap_pte_prot_none_witness:
  "is_swap_pte (empty_session\<lparr>PTE_PROT_NONE := push_bit 58 1\<rparr>) (push_bit 58 1)"
  using is_swap_pte_prot_none [of "empty_session\<lparr>PTE_PROT_NONE := push_bit 58 1\<rparr>"] by simp

end
