(* ===== verification/UTask.thy ===== *)
theory UTask
  imports Swap
begin

text \<open>
  A task's user space (\<^verbatim>\<open>src/utils/utask.cpp\<close>, \<^verbatim>\<open>utask.h\<close>): its memory areas with the files they map,
  its auxiliary vector, reads through a per-area copy of the memory, and the decoders of the C++
  containers found there. The areas are shared by several vectors and by the map of files, so they are
  kept once, in \<open>vma_list\<close>, and referred to by their position.
\<close>

section \<open>Data\<close>

record vma_struct =
  vm_name :: string
  vm_addr :: ulong
  vm_start :: ulong
  vm_end :: ulong
  vm_size :: ulong
  vm_flags :: ulong
  vm_file :: ulong
  vm_pgoff :: ulong
  anon_name :: ulong
  anon_vma :: ulong
  vm_data :: "byte list"

record mm_struct =
  mm_count :: int
  mm_pgd :: ulong
  start_code :: ulong
  end_code :: ulong
  start_data :: ulong
  end_data :: ulong
  start_brk :: ulong
  mm_brk :: ulong
  start_stack :: ulong
  arg_start :: ulong
  arg_end :: ulong
  env_start :: ulong
  env_end :: ulong
  mm_flags :: ulong

record file_vma =
  fv_text :: "nat option"
  fv_data :: "nat list"
  fv_bss :: "nat option"

text \<open>The object is built with a swap reader; the pointer to it is never null.\<close>

record utask = plugin +
  compat :: bool
  pointer_size :: nat
  ut_tc :: "task_context option"
  swap_ptr :: swapinfo
  mm_ptr :: "mm_struct option"
  vma_list :: "vma_struct list"
  anon_list :: "nat list"
  file_list :: "nat list"
  task_files :: "ulong list"
  auxv_list :: "ulong \<rightharpoonup> ulong"
  file_map :: "string \<rightharpoonup> file_vma"
  min_rw_vma_addr :: ulong
  max_rw_vma_addr :: ulong
  vaddr_mask :: ulong

definition utask_fields :: "init_stmt list" where
  "utask_fields =
    [Field ''task_struct'' ''state'', Field ''task_struct'' ''__state'', Field ''task_struct'' ''real_parent'',
     Field ''task_struct'' ''pid'', Field ''task_struct'' ''static_prio'', Field ''task_struct'' ''flags'',
     Field ''task_struct'' ''cred'', Field ''task_struct'' ''thread_pid'', Field ''task_struct'' ''signal'',
     Field ''task_struct'' ''thread_node'', Field ''task_struct'' ''thread_info'',
     Field ''mm_struct'' ''saved_auxv'', Field ''mm_struct'' ''mm_count'', Field ''mm_struct'' ''start_code'',
     Field ''mm_struct'' ''end_code'', Field ''mm_struct'' ''start_data'', Field ''mm_struct'' ''end_data'',
     Field ''mm_struct'' ''start_brk'', Field ''mm_struct'' ''brk'', Field ''mm_struct'' ''start_stack'',
     Field ''mm_struct'' ''env_start'', Field ''mm_struct'' ''env_end'', Field ''mm_struct'' ''flags'',
     Field ''mm_struct'' ''pgd'', Field ''mm_struct'' ''saved_auxv'',
     Field ''cred'' ''uid'', Field ''cred'' ''gid'',
     Field ''vm_area_struct'' ''vm_mm'', Field ''vm_area_struct'' ''vm_start'', Field ''vm_area_struct'' ''vm_end'',
     Field ''vm_area_struct'' ''vm_pgoff'', Field ''vm_area_struct'' ''anon_name'',
     Field ''vm_area_struct'' ''anon_vma'', Field ''vm_area_struct'' ''vm_flags'',
     Field ''vm_area_struct'' ''vm_file'', Field ''vm_area_struct'' ''detached'',
     Field ''file'' ''f_vfsmnt'', Field ''file'' ''f_dentry'', Field ''file'' ''f_path'', Field ''file'' ''f_mapping'',
     Field ''file'' ''f_inode'', Field ''task_struct'' ''files'', Field ''fdtable'' ''max_fds'',
     Field ''fdtable'' ''fd'', Field ''files_struct'' ''fdt'', Field ''path'' ''dentry'', Field ''path'' ''mnt'',
     Field ''anon_vma_name'' ''name'', Field ''thread_info'' ''flags'']"

section \<open>Construction\<close>

definition mm_of_bytes :: "'a plugin_scheme \<Rightarrow> byte list \<Rightarrow> mm_struct option" where
  "mm_of_bytes pl buf = do {
     pgd \<leftarrow> ULONG buf (field_offset pl ''mm_struct'' ''pgd'');
     cnt \<leftarrow> ULONG buf (field_offset pl ''mm_struct'' ''mm_count'');
     sc \<leftarrow> ULONG buf (field_offset pl ''mm_struct'' ''start_code'');
     ec \<leftarrow> ULONG buf (field_offset pl ''mm_struct'' ''end_code'');
     sd \<leftarrow> ULONG buf (field_offset pl ''mm_struct'' ''start_data'');
     ed \<leftarrow> ULONG buf (field_offset pl ''mm_struct'' ''end_data'');
     sb \<leftarrow> ULONG buf (field_offset pl ''mm_struct'' ''start_brk'');
     bk \<leftarrow> ULONG buf (field_offset pl ''mm_struct'' ''brk'');
     ss \<leftarrow> ULONG buf (field_offset pl ''mm_struct'' ''start_stack'');
     as \<leftarrow> ULONG buf (field_offset pl ''mm_struct'' ''arg_start'');
     ae \<leftarrow> ULONG buf (field_offset pl ''mm_struct'' ''arg_end'');
     es \<leftarrow> ULONG buf (field_offset pl ''mm_struct'' ''env_start'');
     ee \<leftarrow> ULONG buf (field_offset pl ''mm_struct'' ''env_end'');
     fl \<leftarrow> ULONG buf (field_offset pl ''mm_struct'' ''flags'');
     Some \<lparr>mm_count = to_int32 cnt, mm_pgd = pgd, start_code = sc, end_code = ec, start_data = sd, end_data = ed,
       start_brk = sb, mm_brk = bk, start_stack = ss, arg_start = as, arg_end = ae, env_start = es, env_end = ee,
       mm_flags = fl\<rparr> }"

text \<open>An early return leaves a null \<open>mm_ptr\<close>, the 8-byte pointers of the initialiser and a zero mask.\<close>

definition init_mm_struct :: "crash \<Rightarrow> task_context \<Rightarrow> utask \<Rightarrow> utask option" where
  "init_mm_struct cr tc ut =
     (case read_struct cr ut (tc_mm_struct tc) ''mm_struct'' True of
        None \<Rightarrow> Some ut
      | Some buf \<Rightarrow> do {
          mm \<leftarrow> mm_of_bytes ut buf;
          let thread_info = fill_thread_info cr (tc_thread_info tc);
          c \<leftarrow> (if field_offset ut ''thread_info'' ''flags'' \<noteq> -1
                then do { f \<leftarrow> ULONG thread_info (field_offset ut ''thread_info'' ''flags'');
                          Some (compat ut \<or> f AND push_bit 22 1 \<noteq> 0) }
                else Some (compat ut));
          msk \<leftarrow> (if \<not> c then va_mask cr else Some (GENMASK_ULL 31 0));
          Some (ut\<lparr>mm_ptr := Some mm, compat := c, pointer_size := (if \<not> c then 8 else 4), vaddr_mask := msk\<rparr>) })"

text \<open>
  The loop over the auxiliary vector. An entry of type 0 is skipped by \<^verbatim>\<open>continue\<close> without stepping to
  the next entry, so the remaining rounds look at that entry again.
\<close>

definition auxv_entry :: "bool \<Rightarrow> ulong \<Rightarrow> byte list \<Rightarrow> nat \<Rightarrow> (ulong \<times> ulong) option" where
  "auxv_entry is32 msk buf i =
     (if \<not> is32 then do {
        t \<leftarrow> ULONG buf (int (16 * i));
        v \<leftarrow> ULONG buf (int (16 * i + 8));
        Some (t AND msk, v AND msk) }
      else do {
        t \<leftarrow> UINT buf (int (8 * i));
        v \<leftarrow> UINT buf (int (8 * i + 4));
        Some (ucast t AND msk, ucast v AND msk) })"

fun auxv_loop :: "bool \<Rightarrow> ulong \<Rightarrow> byte list \<Rightarrow> nat \<Rightarrow> nat \<Rightarrow> (ulong \<rightharpoonup> ulong) \<Rightarrow> (ulong \<rightharpoonup> ulong) option" where
  "auxv_loop is32 msk buf 0 pos m = Some m"
| "auxv_loop is32 msk buf (Suc n) pos m = do {
     (type, val) \<leftarrow> auxv_entry is32 msk buf pos;
     if type = 0 then auxv_loop is32 msk buf n pos m
     else auxv_loop is32 msk buf n (Suc pos) (m(type \<mapsto> val)) }"

definition read_auxv :: "crash \<Rightarrow> task_context \<Rightarrow> 'a plugin_scheme \<Rightarrow> byte list option" where
  "read_auxv cr tc pl = read_memory cr (tc_mm_struct tc + off (field_offset pl ''mm_struct'' ''saved_auxv''))
     (field_size pl ''mm_struct'' ''saved_auxv'') True"

definition init_auxv :: "crash \<Rightarrow> task_context \<Rightarrow> utask \<Rightarrow> utask option" where
  "init_auxv cr tc ut =
     (let auxv_size = off (field_size ut ''mm_struct'' ''saved_auxv'');
          data_size = (if \<not> compat ut then 16 else 8);
          auxv_cnt = to_int32 (auxv_size div data_size) in
      case read_auxv cr tc ut of
        None \<Rightarrow> Some ut
      | Some auxv_buf \<Rightarrow> do {
          m \<leftarrow> auxv_loop (compat ut) (vaddr_mask ut) auxv_buf (nat auxv_cnt) 0 (auxv_list ut);
          Some (ut\<lparr>auxv_list := m\<rparr>) })"

section \<open>Memory areas\<close>

definition vma_of_bytes :: "'a plugin_scheme \<Rightarrow> ulong \<Rightarrow> byte list \<Rightarrow> vma_struct option" where
  "vma_of_bytes pl vma_addr buf = do {
     st \<leftarrow> ULONG buf (field_offset pl ''vm_area_struct'' ''vm_start'');
     en \<leftarrow> ULONG buf (field_offset pl ''vm_area_struct'' ''vm_end'');
     fi \<leftarrow> ULONG buf (field_offset pl ''vm_area_struct'' ''vm_file'');
     fl \<leftarrow> ULONG buf (field_offset pl ''vm_area_struct'' ''vm_flags'');
     pg \<leftarrow> ULONG buf (field_offset pl ''vm_area_struct'' ''vm_pgoff'');
     an \<leftarrow> ULONG buf (field_offset pl ''vm_area_struct'' ''anon_name'');
     av \<leftarrow> ULONG buf (field_offset pl ''vm_area_struct'' ''anon_vma'');
     Some \<lparr>vm_name = '''', vm_addr = vma_addr, vm_start = st, vm_end = en, vm_size = en - st, vm_flags = fl,
       vm_file = fi, vm_pgoff = pg, anon_name = an, anon_vma = av, vm_data = []\<rparr> }"

text \<open>The path of the mapped file, \<^term>\<open>Some None\<close> when its dentry is invalid.\<close>

definition vma_file_path :: "crash \<Rightarrow> 'a plugin_scheme \<Rightarrow> ulong \<Rightarrow> string option option" where
  "vma_file_path cr pl file = do {
     let file_buf = fill_file_cache cr file;
     dentry \<leftarrow> ULONG file_buf (field_offset pl ''file'' ''f_path'' + field_offset pl ''path'' ''dentry'');
     if \<not> IS_KVADDR cr dentry then Some None
     else if field_offset pl ''file'' ''f_path'' \<noteq> -1 \<and> field_offset pl ''path'' ''dentry'' \<noteq> -1 \<and>
             field_offset pl ''path'' ''mnt'' \<noteq> -1
     then do { vfsmnt \<leftarrow> ULONG file_buf (field_offset pl ''file'' ''f_path'' + field_offset pl ''path'' ''mnt'');
               Some (Some (get_pathname cr dentry vfsmnt)) }
     else Some (Some (get_pathname cr dentry 0)) }"

definition VM_READ :: ulong where "VM_READ = 1"
definition VM_EXEC :: ulong where "VM_EXEC = 4"

text \<open>The area at position \<open>i\<close> of a file: the text when it is readable and executable, data otherwise.\<close>

definition add_file_vma :: "(string \<rightharpoonup> file_vma) \<Rightarrow> nat \<Rightarrow> vma_struct \<Rightarrow> string \<rightharpoonup> file_vma" where
  "add_file_vma fm i vma =
     (let file_ptr = (case fm (vm_name vma) of Some f \<Rightarrow> f
                      | None \<Rightarrow> \<lparr>fv_text = None, fv_data = [], fv_bss = None\<rparr>);
          file_ptr = (if vm_flags vma AND VM_READ \<noteq> 0 \<and> vm_flags vma AND VM_EXEC \<noteq> 0
                      then file_ptr\<lparr>fv_text := Some i\<rparr>
                      else file_ptr\<lparr>fv_data := fv_data file_ptr @ [i]\<rparr>) in
      fm(vm_name vma \<mapsto> file_ptr))"

text \<open>The name of an area no file backs; the name of a kernel 5.4 area is itself in user memory.\<close>

definition anon_vma_named ::
  "crash \<Rightarrow> task_context \<Rightarrow> utask \<Rightarrow> vma_struct \<Rightarrow> (swapinfo \<times> vma_struct) option" where
  "anon_vma_named cr tc ut vma =
     (if anon_name vma \<noteq> 0
      then if IS_KVADDR cr (anon_name vma)
        then do {
          s \<leftarrow> (if field_offset ut ''anon_vma_name'' ''name'' \<noteq> -1
                then read_cstring cr (anon_name vma + off (field_offset ut ''anon_vma_name'' ''name'')) 1024 True
                else read_cstring cr (anon_name vma) 1024 True);
          Some (swap_ptr ut, vma\<lparr>vm_name := ''[anon:'' @ s @ '']''\<rparr>) }
        else if IS_UVADDR cr (anon_name vma) tc
        then do {
          let a = anon_name vma AND (USERSPACE_TOP cr - 1);
          (sw, s) \<leftarrow> Swap.uread_cstring cr (tc_task tc) (swap_ptr ut) a 1024;
          Some (sw, vma\<lparr>anon_name := a, vm_name := ''[anon:'' @ s @ '']''\<rparr>) }
        else Some (swap_ptr ut, vma)
      else do {
        mm \<leftarrow> mm_ptr ut;
        let vma = (if vm_end vma > start_brk mm \<and> vm_start vma < mm_brk mm then vma\<lparr>vm_name := ''[heap]''\<rparr> else vma);
        let vma = (if vm_end vma \<ge> start_stack mm \<and> vm_start vma \<le> start_stack mm
                   then vma\<lparr>vm_name := ''[stack]''\<rparr> else vma);
        Some (swap_ptr ut, vma) })"

text \<open>
  One round of \<^verbatim>\<open>init_vma\<close>; \<open>last\<close> is the file of the last file area, of which an area named bss is the
  bss.
\<close>

definition init_vma_step ::
  "crash \<Rightarrow> task_context \<Rightarrow> ulong \<Rightarrow> utask \<times> string option \<Rightarrow> (utask \<times> string option) option" where
  "init_vma_step cr tc vma_addr = (\<lambda>(ut, last).
     case read_struct cr ut vma_addr ''vm_area_struct'' True of
       None \<Rightarrow> Some (ut, last)
     | Some vma_buf \<Rightarrow> do {
         vma \<leftarrow> vma_of_bytes ut vma_addr vma_buf;
         let i = length (vma_list ut);
         if IS_KVADDR cr (vm_file vma)
         then do {
           path \<leftarrow> vma_file_path cr ut (vm_file vma);
           case path of
             None \<Rightarrow> Some (ut\<lparr>vma_list := vma_list ut @ [vma]\<rparr>, last)
           | Some name \<Rightarrow>
               let vma = vma\<lparr>vm_name := name\<rparr> in
               Some (ut\<lparr>file_map := add_file_vma (file_map ut) i vma, file_list := file_list ut @ [i],
                        vma_list := vma_list ut @ [vma]\<rparr>, Some name) }
         else do {
           (sw, vma) \<leftarrow> anon_vma_named cr tc ut vma;
           let fm = (case last of
                       Some f \<Rightarrow> if contains (vm_name vma) ''bss''
                         then (file_map ut)(f := map_option (\<lambda>fv. fv\<lparr>fv_bss := Some i\<rparr>) (file_map ut f))
                         else file_map ut
                     | None \<Rightarrow> file_map ut);
           Some (ut\<lparr>swap_ptr := sw, file_map := fm, anon_list := anon_list ut @ [i],
                    vma_list := vma_list ut @ [vma]\<rparr>, last) } })"

definition init_vma :: "crash \<Rightarrow> task_context \<Rightarrow> utask \<Rightarrow> utask option" where
  "init_vma cr tc ut = do {
     addrs \<leftarrow> for_each_vma cr ut (tc_task tc);
     (ut, _) \<leftarrow> fold_opt (init_vma_step cr tc) addrs (ut, None);
     Some ut }"

section \<open>The object\<close>

definition blank_utask :: "plugin \<Rightarrow> swapinfo \<Rightarrow> task_context option \<Rightarrow> utask" where
  "blank_utask base swap tc = plugin.extend base
     \<lparr>compat = False, pointer_size = 8, ut_tc = tc, swap_ptr = swap, mm_ptr = None, vma_list = [], anon_list = [],
      file_list = [], task_files = [], auxv_list = Map.empty, file_map = Map.empty, min_rw_vma_addr = - 1,
      max_rw_vma_addr = 0, vaddr_mask = 0\<rparr>"

definition rw_bounds :: "utask \<Rightarrow> utask" where
  "rw_bounds ut =
     (let vmas = map (\<lambda>i. vma_list ut ! i) (anon_list ut) in
      ut\<lparr>min_rw_vma_addr := fold (\<lambda>v m. min m (vm_start v)) vmas (min_rw_vma_addr ut),
         max_rw_vma_addr := fold (\<lambda>v m. max m (vm_end v)) vmas (max_rw_vma_addr ut)\<rparr>)"

definition UTask :: "crash \<Rightarrow> swapinfo \<Rightarrow> ulong \<Rightarrow> utask option" where
  "UTask cr swap addr = do {
     base \<leftarrow> ParserPlugin cr;
     case task_to_context cr addr of
       None \<Rightarrow> Some (blank_utask base swap None)
     | Some tc \<Rightarrow> do {
         let ut = run_inits cr utask_fields (blank_utask base swap (Some tc));
         ut \<leftarrow> init_mm_struct cr tc ut;
         ut \<leftarrow> init_auxv cr tc ut;
         ut \<leftarrow> init_vma cr tc ut;
         let ut = ut\<lparr>task_files := for_each_task_files cr ut (Some tc)\<rparr>;
         Some (rw_bounds ut) } }"

text \<open>
  The constructor from a pid builds a temporary object in its last statement and drops it; the object
  itself keeps its initial members, and the swap reader what the temporary made it parse.
\<close>

definition UTask_pid :: "crash \<Rightarrow> swapinfo \<Rightarrow> int \<Rightarrow> utask option" where
  "UTask_pid cr swap pid = do {
     base \<leftarrow> ParserPlugin cr;
     case pid_to_context cr pid of
       None \<Rightarrow> Some (blank_utask base swap None)
     | Some tc \<Rightarrow> do {
         tmp \<leftarrow> UTask cr swap (tc_task tc);
         Some (blank_utask base (swap_ptr tmp) (Some tc)) } }"

section \<open>Queries\<close>

definition is_contains :: "vma_struct \<Rightarrow> ulong \<Rightarrow> bool" where
  "is_contains vma addr \<longleftrightarrow> vm_start vma \<le> addr \<and> addr < vm_end vma"

definition for_each_anon_vma :: "utask \<Rightarrow> nat list" where
  "for_each_anon_vma ut = anon_list ut"

definition for_each_data_vma :: "utask \<Rightarrow> string \<Rightarrow> nat list" where
  "for_each_data_vma ut filename = (case file_map ut filename of Some f \<Rightarrow> fv_data f | None \<Rightarrow> [])"

definition get_bss_vma :: "utask \<Rightarrow> string \<Rightarrow> nat option" where
  "get_bss_vma ut filename = (case file_map ut filename of Some f \<Rightarrow> fv_bss f | None \<Rightarrow> None)"

definition get_text_vma :: "utask \<Rightarrow> string \<Rightarrow> nat option" where
  "get_text_vma ut filename = (case file_map ut filename of Some f \<Rightarrow> fv_text f | None \<Rightarrow> None)"

definition get_phdr_vma :: "utask \<Rightarrow> string \<Rightarrow> nat option" where
  "get_phdr_vma ut filename =
     (let data_list = for_each_data_vma ut filename in
      if data_list \<noteq> [] then Some (hd (sort_key (\<lambda>i. vm_start (vma_list ut ! i)) data_list)) else None)"

text \<open>The first area that holds the address, in the order of the areas.\<close>

definition get_vma :: "utask \<Rightarrow> ulong \<Rightarrow> nat option" where
  "get_vma ut addr = List.find (\<lambda>i. is_contains (vma_list ut ! i) addr) [0..<length (vma_list ut)]"

definition get_auxv :: "utask \<Rightarrow> ulong \<Rightarrow> utask \<times> ulong" where
  "get_auxv ut name =
     (case auxv_list ut name of Some v \<Rightarrow> (ut, v) | None \<Rightarrow> (ut\<lparr>auxv_list := (auxv_list ut)(name \<mapsto> 0)\<rparr>, 0))"

definition set_auxv :: "utask \<Rightarrow> ulong \<Rightarrow> ulong \<Rightarrow> utask" where
  "set_auxv ut name val = ut\<lparr>auxv_list := (auxv_list ut)(name \<mapsto> val)\<rparr>"

text \<open>The lowest area of a library; a file with no text area is dereferenced through a null pointer.\<close>

definition get_min_vma_start :: "utask \<Rightarrow> string \<Rightarrow> ulong option" where
  "get_min_vma_start ut libname =
     (case file_map ut libname of
        None \<Rightarrow> Some 0
      | Some f \<Rightarrow> do {
          t \<leftarrow> fv_text f;
          Some (hd (sort (map (\<lambda>i. vm_start (vma_list ut ! i)) (fv_data f @ [t])))) })"

section \<open>Reading\<close>

definition read_vma_data :: "crash \<Rightarrow> utask \<Rightarrow> vma_struct \<Rightarrow> (utask \<times> byte list) option" where
  "read_vma_data cr ut vma = do {
     tc \<leftarrow> ut_tc ut;
     (sw, bs) \<leftarrow> uread_memory cr (tc_task tc) (swap_ptr ut) (vm_start vma) (to_int32 (vm_size vma));
     Some (ut\<lparr>swap_ptr := sw\<rparr>, bs) }"

text \<open>The contents of area \<open>i\<close> are read when they are first needed and kept.\<close>

definition load_vma :: "crash \<Rightarrow> utask \<Rightarrow> nat \<Rightarrow> utask option" where
  "load_vma cr ut i =
     (if vm_data (vma_list ut ! i) = []
      then do {
        (ut, bs) \<leftarrow> read_vma_data cr ut (vma_list ut ! i);
        Some (ut\<lparr>vma_list := (vma_list ut)[i := (vma_list ut ! i)\<lparr>vm_data := bs\<rparr>]\<rparr>) }
      else Some ut)"

definition read_data :: "crash \<Rightarrow> utask \<Rightarrow> ulong \<Rightarrow> int \<Rightarrow> (utask \<times> byte list) option" where
  "read_data cr ut addr len =
     (case get_vma ut addr of
        None \<Rightarrow> do {
          tc \<leftarrow> ut_tc ut;
          (sw, bs) \<leftarrow> uread_memory cr (tc_task tc) (swap_ptr ut) addr len;
          Some (ut\<lparr>swap_ptr := sw\<rparr>, bs) }
      | Some i \<Rightarrow> do {
          ut \<leftarrow> load_vma cr ut i;
          let vma = vma_list ut ! i;
          if vm_data vma = [] then Some (ut, [])
          else do {
            let remain = to_int32 (vm_end vma - addr);
            let len = (if remain < len then remain else len);
            let o' = unat (addr - vm_start vma);
            if len < 0 \<or> length (vm_data vma) < o' + nat len then None
            else Some (ut, take (nat len) (drop o' (vm_data vma))) } })"

text \<open>The string ends at its terminator; without one in the buffer the read runs on.\<close>

definition ut_cstring :: "crash \<Rightarrow> utask \<Rightarrow> ulong \<Rightarrow> int \<Rightarrow> (utask \<times> string) option" where
  "ut_cstring cr ut addr len = do {
     (ut, buf) \<leftarrow> read_data cr ut addr len;
     if length buf = 0 then Some (ut, '''')
     else if 0 \<in> set buf then Some (ut, to_string (cstr buf)) else None }"

definition ut_scalar ::
  "crash \<Rightarrow> utask \<Rightarrow> ulong \<Rightarrow> int \<Rightarrow> (byte list \<Rightarrow> 'r option) \<Rightarrow> 'r \<Rightarrow> (utask \<times> 'r) option" where
  "ut_scalar cr ut addr len decode dflt = do {
     (ut, buf) \<leftarrow> read_data cr ut addr len;
     if length buf = 0 then Some (ut, dflt) else do { r \<leftarrow> decode buf; Some (ut, r) } }"

definition ut_bool where "ut_bool cr ut a = ut_scalar cr ut a 1 (\<lambda>b. BOOL b 0) False"
definition ut_int where "ut_int cr ut a = ut_scalar cr ut a 4 (\<lambda>b. C_INT b 0) 0"
definition ut_uint where "ut_uint cr ut a = ut_scalar cr ut a 4 (\<lambda>b. UINT b 0) 0"
definition ut_long where "ut_long cr ut a = ut_scalar cr ut a 8 (\<lambda>b. C_LONG b 0) 0"
definition ut_ulonglong where "ut_ulonglong cr ut a = ut_scalar cr ut a 8 (\<lambda>b. ULONG b 0) 0"
definition ut_ushort where "ut_ushort cr ut a = ut_scalar cr ut a 2 (\<lambda>b. USHORT b 0) 0"
definition ut_short where "ut_short cr ut a = ut_scalar cr ut a 2 (\<lambda>b. C_SHORT b 0) 0"
definition ut_byte where "ut_byte cr ut a = ut_scalar cr ut a 1 (\<lambda>b. UCHAR b 0) 0"

definition ut_ulong :: "crash \<Rightarrow> utask \<Rightarrow> ulong \<Rightarrow> (utask \<times> ulong) option" where
  "ut_ulong cr ut a = ut_scalar cr ut a (int (pointer_size ut))
     (\<lambda>b. if pointer_size ut = 4 then map_option ucast (UINT b 0) else ULONG b 0) 0"

text \<open>\<^verbatim>\<open>VOID_PTR\<close> loads 8 bytes whatever the pointer size of the task.\<close>

definition ut_pointer :: "crash \<Rightarrow> utask \<Rightarrow> ulong \<Rightarrow> (utask \<times> ulong) option" where
  "ut_pointer cr ut a = ut_scalar cr ut a (int (pointer_size ut))
     (\<lambda>b. map_option (\<lambda>v. v AND vaddr_mask ut) (ULONG b 0)) 0"

definition read_start_args :: "crash \<Rightarrow> utask \<Rightarrow> (utask \<times> string) option" where
  "read_start_args cr ut = do {
     mm \<leftarrow> mm_ptr ut;
     (ut, args) \<leftarrow> ut_cstring cr ut (arg_start mm) (to_int32 (arg_end mm - arg_start mm));
     if args = '''' then do { tc \<leftarrow> ut_tc ut; Some (ut, tc_comm tc) } else Some (ut, args) }"

section \<open>Containers of the C++ library\<close>

text \<open>
  The loops take the reader of the object as an argument \<open>rd\<close>; \<open>ps\<close> is the size of a pointer and \<open>isu\<close>
  the test for a user address.
\<close>

fun stdlist_loop ::
  "('s \<Rightarrow> ulong \<Rightarrow> ('s \<times> ulong) option) \<Rightarrow> (ulong \<Rightarrow> bool) \<Rightarrow> ulong \<Rightarrow> ulong \<Rightarrow> ulong \<Rightarrow> nat \<Rightarrow> 's \<Rightarrow> ulong
     \<Rightarrow> ('s \<times> ulong list) option" where
  "stdlist_loop rd isu msk ps tail_node 0 s current = Some (s, [])"
| "stdlist_loop rd isu msk ps tail_node (Suc n) s current =
     (if \<not> isu current then Some (s, [])
      else do {
        (s, p) \<leftarrow> rd s current;
        (s, x) \<leftarrow> rd s (current + ps);
        let prev_node = p AND msk;
        let next_node = x AND msk;
        if next_node = 0 \<or> prev_node = tail_node then Some (s, [])
        else do {
          (s, rest) \<leftarrow> stdlist_loop rd isu msk ps tail_node n s next_node;
          Some (s, (current + 2 * ps) # rest) } })"

definition stdlist_walk ::
  "('s \<Rightarrow> ulong \<Rightarrow> ('s \<times> ulong) option) \<Rightarrow> (ulong \<Rightarrow> bool) \<Rightarrow> ulong \<Rightarrow> ulong \<Rightarrow> 's \<Rightarrow> ulong
     \<Rightarrow> ('s \<times> ulong list) option" where
  "stdlist_walk rd isu msk ps s a = do {
     (s, t) \<leftarrow> rd s a;
     (s, x) \<leftarrow> rd s (a + ps);
     (s, n) \<leftarrow> rd s (a + 2 * ps);
     stdlist_loop rd isu msk ps (t AND msk) (unat (n AND msk)) s (x AND msk) }"

definition for_each_stdlist :: "crash \<Rightarrow> utask \<Rightarrow> ulong \<Rightarrow> (utask \<times> ulong list) option" where
  "for_each_stdlist cr ut stdlist_addr = do {
     tc \<leftarrow> ut_tc ut;
     stdlist_walk (ut_ulong cr) (\<lambda>a. IS_UVADDR cr a tc) (vaddr_mask ut) (of_nat (pointer_size ut)) ut stdlist_addr }"

definition for_each_stdvector :: "crash \<Rightarrow> utask \<Rightarrow> ulong \<Rightarrow> ulong \<Rightarrow> (utask \<times> ulong list) option" where
  "for_each_stdvector cr ut std_vec_addr key_size = do {
     tc \<leftarrow> ut_tc ut;
     (ut, begin') \<leftarrow> ut_pointer cr ut std_vec_addr;
     (ut, end') \<leftarrow> ut_pointer cr ut (std_vec_addr + of_nat (pointer_size ut));
     vec \<leftarrow> chain_walk (\<lambda>a. a < end' \<and> IS_UVADDR cr a tc \<and> a \<noteq> 0) (\<lambda>a. a + key_size) begin';
     Some (ut, vec) }"

definition for_each_stdstring :: "crash \<Rightarrow> utask \<Rightarrow> ulong \<Rightarrow> (utask \<times> string) option" where
  "for_each_stdstring cr ut std_string_addr = do {
     (ut, data) \<leftarrow> ut_byte cr ut std_string_addr;
     (ut, a, len) \<leftarrow>
       (if data AND 1 \<noteq> 0
        then do {
          (ut, len) \<leftarrow> ut_uint cr ut (std_string_addr + of_nat (pointer_size ut));
          (ut, a) \<leftarrow> ut_pointer cr ut (std_string_addr + 2 * of_nat (pointer_size ut));
          Some (ut, a, sint len) }
        else Some (ut, std_string_addr + 1, uint (drop_bit 1 data)));
     (ut, str) \<leftarrow> read_data cr ut a len;
     Some (ut, to_string str) }"

definition emplace :: "('k \<rightharpoonup> 'v) \<Rightarrow> 'k \<Rightarrow> 'v \<Rightarrow> 'k \<rightharpoonup> 'v" where
  "emplace m k v = (case m k of None \<Rightarrow> m(k \<mapsto> v) | Some _ \<Rightarrow> m)"

definition emplace_node :: "(ulong \<Rightarrow> bool) \<Rightarrow> ulong \<Rightarrow> ulong \<Rightarrow> (ulong \<rightharpoonup> ulong) \<Rightarrow> ulong \<rightharpoonup> ulong" where
  "emplace_node isu key_addr key_size m =
     (if isu key_addr \<and> isu (key_addr + key_size) then emplace m key_addr (key_addr + key_size) else m)"

fun stdunmap_loop ::
  "('s \<Rightarrow> ulong \<Rightarrow> ('s \<times> ulong) option) \<Rightarrow> (ulong \<Rightarrow> bool) \<Rightarrow> ulong \<Rightarrow> ulong \<Rightarrow> nat \<Rightarrow> 's \<Rightarrow> ulong \<Rightarrow> (ulong \<rightharpoonup> ulong)
     \<Rightarrow> ('s \<times> (ulong \<rightharpoonup> ulong)) option" where
  "stdunmap_loop rd isu ps key_size 0 s node_addr m = Some (s, m)"
| "stdunmap_loop rd isu ps key_size (Suc n) s node_addr m =
     (if \<not> (isu node_addr \<and> node_addr \<noteq> 0) then Some (s, m)
      else do {
        let m = emplace_node isu (node_addr + 2 * ps) key_size m;
        (s, node_addr) \<leftarrow> rd s node_addr;
        stdunmap_loop rd isu ps key_size n s node_addr m })"

definition for_each_stdunmap :: "crash \<Rightarrow> utask \<Rightarrow> ulong \<Rightarrow> ulong \<Rightarrow> (utask \<times> (ulong \<rightharpoonup> ulong)) option" where
  "for_each_stdunmap cr ut std_un_map_addr key_size = do {
     tc \<leftarrow> ut_tc ut;
     let ps = of_nat (pointer_size ut);
     (ut, node_addr) \<leftarrow> ut_pointer cr ut (std_un_map_addr + 2 * ps);
     (ut, map_size) \<leftarrow> ut_uint cr ut (std_un_map_addr + 2 * ps + ps);
     stdunmap_loop (ut_pointer cr) (\<lambda>a. IS_UVADDR cr a tc) ps key_size (unat map_size + 1) ut node_addr Map.empty }"

text \<open>The walk of the tree of a \<^verbatim>\<open>std::map\<close> with an explicit stack; on a cyclic tree it does not end.\<close>

partial_function (option) stdmap_loop ::
  "('s \<Rightarrow> ulong \<Rightarrow> ('s \<times> ulong) option) \<Rightarrow> (ulong \<Rightarrow> bool) \<Rightarrow> ulong \<Rightarrow> ulong \<Rightarrow> 's \<Rightarrow> ulong list \<Rightarrow> (ulong \<rightharpoonup> ulong)
     \<Rightarrow> ('s \<times> (ulong \<rightharpoonup> ulong)) option" where
  "stdmap_loop rd isu ps key_size s node_stack m =
     (case node_stack of
        [] \<Rightarrow> Some (s, m)
      | root_addr # node_stack \<Rightarrow> do {
          (s, left_addr) \<leftarrow> rd s root_addr;
          (s, right_addr) \<leftarrow> rd s (root_addr + ps);
          let m = emplace_node isu (root_addr + 4 * ps) key_size m;
          let node_stack = (if right_addr \<noteq> 0 \<and> isu right_addr then right_addr # node_stack else node_stack);
          let node_stack = (if left_addr \<noteq> 0 \<and> isu left_addr then left_addr # node_stack else node_stack);
          stdmap_loop rd isu ps key_size s node_stack m })"

definition for_each_stdmap :: "crash \<Rightarrow> utask \<Rightarrow> ulong \<Rightarrow> ulong \<Rightarrow> (utask \<times> (ulong \<rightharpoonup> ulong)) option" where
  "for_each_stdmap cr ut std_map_addr key_size = do {
     tc \<leftarrow> ut_tc ut;
     let ps = of_nat (pointer_size ut);
     let isu = (\<lambda>a. IS_UVADDR cr a tc);
     (ut, root) \<leftarrow> ut_pointer cr ut (std_map_addr + ps);
     (ut, map_size) \<leftarrow> ut_uint cr ut (std_map_addr + 2 * ps);
     if map_size = 0 \<or> root = 0 \<or> \<not> isu root then Some (ut, Map.empty)
     else stdmap_loop (ut_pointer cr) isu ps key_size ut [root]
            (emplace_node isu (root + 4 * ps) key_size Map.empty) }"

section \<open>Searching for a list\<close>

text \<open>
  The three words of a list node, of 8 or of 4 bytes, masked. An empty buffer is \<^term>\<open>Some (s, None)\<close>; a
  short one is read past its end.
\<close>

definition list_node :: "bool \<Rightarrow> byte list \<Rightarrow> (ulong \<times> ulong \<times> ulong) option" where
  "list_node is32 buf =
     (if \<not> is32 then do { p \<leftarrow> ULONG buf 0; n \<leftarrow> ULONG buf 8; d \<leftarrow> ULONG buf 16; Some (p, n, d) }
      else do { p \<leftarrow> UINT buf 0; n \<leftarrow> UINT buf 4; d \<leftarrow> UINT buf 8; Some (ucast p, ucast n, ucast d) })"

definition read_node :: "crash \<Rightarrow> utask \<Rightarrow> ulong \<Rightarrow> (utask \<times> (ulong \<times> ulong \<times> ulong) option) option" where
  "read_node cr ut addr = do {
     (ut, buf) \<leftarrow> read_data cr ut addr (if compat ut then 12 else 24);
     if length buf = 0 then Some (ut, None)
     else do { x \<leftarrow> list_node (compat ut) buf; Some (ut, Some x) } }"

definition in_rw :: "utask \<Rightarrow> ulong \<Rightarrow> bool" where
  "in_rw ut a \<longleftrightarrow> min_rw_vma_addr ut \<le> a \<and> a \<le> max_rw_vma_addr ut"

text \<open>The result is the new list size, \<^term>\<open>None\<close> where the reference is not written, and the address.\<close>

fun check_stdlist_loop ::
  "crash \<Rightarrow> task_context \<Rightarrow> (ulong \<Rightarrow> bool) option \<Rightarrow> ulong \<Rightarrow> nat \<Rightarrow> utask \<Rightarrow> ulong \<Rightarrow> ulong
     \<Rightarrow> (utask \<times> ulong option \<times> ulong) option" where
  "check_stdlist_loop cr tc cb head 0 ut prev_addr next_addr = Some (ut, None, 0)"
| "check_stdlist_loop cr tc cb head (Suc n) ut prev_addr next_addr =
     (if \<not> IS_UVADDR cr next_addr tc then Some (ut, None, 0)
      else do {
        (ut, node) \<leftarrow> read_node cr ut next_addr;
        case node of
          None \<Rightarrow> Some (ut, None, 0)
        | Some (p, x, d) \<Rightarrow>
            let tmp_next = x AND vaddr_mask ut; tmp_prev = p AND vaddr_mask ut; tmp_data = d AND vaddr_mask ut in
            if \<not> in_rw ut tmp_prev \<or> \<not> in_rw ut tmp_next then Some (ut, None, 0)
            else if (case cb of Some f \<Rightarrow> \<not> f next_addr | None \<Rightarrow> False) then Some (ut, None, 0)
            else if tmp_prev \<noteq> prev_addr then Some (ut, None, 0)
            else if tmp_next = head then Some (ut, Some tmp_data, head)
            else check_stdlist_loop cr tc cb head n ut next_addr tmp_next })"

definition check_stdlist ::
  "crash \<Rightarrow> task_context \<Rightarrow> (ulong \<Rightarrow> bool) option \<Rightarrow> utask \<Rightarrow> ulong \<Rightarrow> (utask \<times> ulong option \<times> ulong) option" where
  "check_stdlist cr tc cb ut addr = do {
     (ut, node) \<leftarrow> read_node cr ut addr;
     case node of
       None \<Rightarrow> Some (ut, None, 0)
     | Some (p, x, d) \<Rightarrow>
         let tmp_next = x AND vaddr_mask ut; tmp_prev = p AND vaddr_mask ut; tmp_data = d AND vaddr_mask ut in
         if \<not> in_rw ut tmp_prev \<or> \<not> in_rw ut tmp_next then Some (ut, None, 0)
         else if tmp_prev = tmp_next then Some (ut, Some tmp_data, addr)
         else check_stdlist_loop cr tc cb addr (unat d) ut addr tmp_next }"

partial_function (option) search_stdlist_loop ::
  "crash \<Rightarrow> task_context \<Rightarrow> (ulong \<Rightarrow> bool) option \<Rightarrow> ulong \<Rightarrow> utask \<Rightarrow> ulong \<Rightarrow> ulong \<Rightarrow> (utask \<times> ulong) option" where
  "search_stdlist_loop cr tc cb end' ut list_size addr =
     (if addr < end'
      then do {
        (ut, sz, list_addr) \<leftarrow> check_stdlist cr tc cb ut addr;
        let list_size = (case sz of Some v \<Rightarrow> v | None \<Rightarrow> list_size);
        if list_addr \<noteq> 0 \<and> IS_UVADDR cr list_addr tc \<and> list_size \<noteq> 0 then Some (ut, list_addr)
        else search_stdlist_loop cr tc cb end' ut list_size (addr + of_nat (pointer_size ut)) }
      else Some (ut, 0))"

definition search_stdlist ::
  "crash \<Rightarrow> utask \<Rightarrow> vma_struct \<Rightarrow> ulong \<Rightarrow> (ulong \<Rightarrow> bool) option \<Rightarrow> (utask \<times> ulong) option" where
  "search_stdlist cr ut vma start_addr cb = do {
     tc \<leftarrow> ut_tc ut;
     search_stdlist_loop cr tc cb (vm_end vma) ut 0 start_addr }"

section \<open>Searching for an object by its virtual table\<close>

text \<open>
  The templates \<^verbatim>\<open>check_object<T,P>\<close> and \<^verbatim>\<open>search_obj<T,P>\<close>: \<open>sizeT\<close> is \<^verbatim>\<open>sizeof(T)\<close>, \<open>vtpr\<close> the member \<^verbatim>\<open>vtpr\<close> of
  the object at the front of a buffer, \<open>is32\<close> whether \<^verbatim>\<open>P\<close> has 4 bytes instead of 8. The size of the table
  is written \<^verbatim>\<open>sizeof(vtb_cnt * sizeof(P))\<close>, which is the size of a \<^verbatim>\<open>size_t\<close>, 8.
\<close>

definition vtable_entry :: "bool \<Rightarrow> byte list \<Rightarrow> nat \<Rightarrow> nat \<Rightarrow> ulong option" where
  "vtable_entry is32 data base i =
     (if is32 then map_option ucast (UINT data (int (base + 4 * i))) else ULONG data (int (base + 8 * i)))"

definition find_vtable_step ::
  "crash \<Rightarrow> ulong \<Rightarrow> nat \<Rightarrow> utask \<times> (nat \<times> nat) option \<Rightarrow> (utask \<times> (nat \<times> nat) option) option" where
  "find_vtable_step cr vtable_ptr j = (\<lambda>(ut, vt).
     if is_contains (vma_list ut ! j) vtable_ptr \<and> is_contains (vma_list ut ! j) (vtable_ptr + 8)
     then do {
       ut \<leftarrow> load_vma cr ut j;
       Some (ut, Some (j, unat (vtable_ptr - vm_start (vma_list ut ! j)))) }
     else Some (ut, vt))"

fun vtable_in_text :: "(nat \<Rightarrow> ulong option) \<Rightarrow> ulong \<Rightarrow> vma_struct \<Rightarrow> nat list \<Rightarrow> bool option" where
  "vtable_in_text entry msk text [] = Some True"
| "vtable_in_text entry msk text (i # is) = do {
     v \<leftarrow> entry i;
     let vfun_ptr = v AND msk;
     if vfun_ptr = 0 then vtable_in_text entry msk text is
     else if \<not> is_contains text vfun_ptr then Some False
     else vtable_in_text entry msk text is }"

definition check_vtable ::
  "bool \<Rightarrow> utask \<Rightarrow> string \<Rightarrow> nat \<Rightarrow> nat \<times> nat \<Rightarrow> (byte list \<Rightarrow> bool) option \<Rightarrow> byte list \<Rightarrow> bool option" where
  "check_vtable is32 ut libname vtb_cnt vt obj_callback obj = do {
     let entry = vtable_entry is32 (vm_data (vma_list ut ! fst vt)) (snd vt);
     m \<leftarrow> (case get_text_vma ut libname of
             None \<Rightarrow> Some True
           | Some t \<Rightarrow> vtable_in_text entry (vaddr_mask ut) (vma_list ut ! t) [0..<vtb_cnt]);
     let m = (case obj_callback of Some f \<Rightarrow> m \<and> f obj | None \<Rightarrow> m);
     if m then do { _ \<leftarrow> those_opt (map entry [0..<vtb_cnt]); Some True } else Some False }"

partial_function (option) check_object_loop ::
  "crash \<Rightarrow> task_context \<Rightarrow> ulong \<Rightarrow> (byte list \<Rightarrow> ulong option) \<Rightarrow> bool \<Rightarrow> string \<Rightarrow> nat \<Rightarrow> (byte list \<Rightarrow> bool) option
     \<Rightarrow> nat \<Rightarrow> utask \<Rightarrow> ulong \<Rightarrow> (utask \<times> ulong) option" where
  "check_object_loop cr tc sizeT vtpr is32 libname vtb_cnt obj_callback i ut addr =
     (let vma = vma_list ut ! i; step = (if is32 then 4 else 8) in
      if addr + sizeT < vm_end vma
      then do {
        let obj = drop (unat (addr - vm_start vma)) (vm_data vma);
        v \<leftarrow> vtpr obj;
        let vtable_ptr = v AND vaddr_mask ut;
        if \<not> IS_UVADDR cr vtable_ptr tc \<or> vtable_ptr = 0
        then check_object_loop cr tc sizeT vtpr is32 libname vtb_cnt obj_callback i ut (addr + step)
        else do {
          (ut, vt) \<leftarrow> fold_opt (find_vtable_step cr vtable_ptr) (for_each_data_vma ut libname) (ut, None);
          case vt of
            None \<Rightarrow> check_object_loop cr tc sizeT vtpr is32 libname vtb_cnt obj_callback i ut (addr + step)
          | Some t \<Rightarrow> do {
              m \<leftarrow> check_vtable is32 ut libname vtb_cnt t obj_callback obj;
              if m then Some (ut, addr)
              else check_object_loop cr tc sizeT vtpr is32 libname vtb_cnt obj_callback i ut (addr + step) } } }
      else Some (ut, 0))"

definition check_object ::
  "crash \<Rightarrow> ulong \<Rightarrow> (byte list \<Rightarrow> ulong option) \<Rightarrow> bool \<Rightarrow> string \<Rightarrow> nat \<Rightarrow> (byte list \<Rightarrow> bool) option
     \<Rightarrow> utask \<Rightarrow> nat \<Rightarrow> (utask \<times> ulong) option" where
  "check_object cr sizeT vtpr is32 libname vtb_cnt obj_callback ut i = do {
     tc \<leftarrow> ut_tc ut;
     ut \<leftarrow> load_vma cr ut i;
     check_object_loop cr tc sizeT vtpr is32 libname vtb_cnt obj_callback i ut (vm_start (vma_list ut ! i)) }"

fun search_obj_loop ::
  "(utask \<Rightarrow> nat \<Rightarrow> (utask \<times> ulong) option) \<Rightarrow> (vma_struct \<Rightarrow> bool) option \<Rightarrow> nat list \<Rightarrow> utask
     \<Rightarrow> (utask \<times> ulong) option" where
  "search_obj_loop check vma_callback [] ut = Some (ut, 0)"
| "search_obj_loop check vma_callback (i # is) ut =
     (if (case vma_callback of Some f \<Rightarrow> \<not> f (vma_list ut ! i) | None \<Rightarrow> False)
      then search_obj_loop check vma_callback is ut
      else do {
        (ut, addr) \<leftarrow> check ut i;
        if 0 < addr then Some (ut, addr) else search_obj_loop check vma_callback is ut })"

definition search_obj ::
  "crash \<Rightarrow> ulong \<Rightarrow> (byte list \<Rightarrow> ulong option) \<Rightarrow> bool \<Rightarrow> string \<Rightarrow> bool \<Rightarrow> (vma_struct \<Rightarrow> bool) option
     \<Rightarrow> (byte list \<Rightarrow> bool) option \<Rightarrow> nat \<Rightarrow> utask \<Rightarrow> (utask \<times> ulong) option" where
  "search_obj cr sizeT vtpr is32 libname is_static vma_callback obj_callback vtb_cnt ut =
     (let vm_list = (if is_static
                     then (case get_bss_vma ut libname of Some b \<Rightarrow> [b] | None \<Rightarrow> [])
                     else for_each_anon_vma ut) in
      search_obj_loop (check_object cr sizeT vtpr is32 libname vtb_cnt obj_callback) vma_callback vm_list ut)"

text \<open>
  The run-time address of a variable of a library. The look-ups in the library's file,
  \<^verbatim>\<open>read_sections\<close> (address and alignment of a section) and \<^verbatim>\<open>read_symbol\<close>, are arguments: they read an ELF
  file with libelf. \<^verbatim>\<open>roundup\<close> divides by the alignment, 0 when the section is not there.
\<close>

definition basename :: "string \<Rightarrow> string" where
  "basename libname = rev (takeWhile (\<lambda>c. c \<noteq> CHR ''/'' \<and> c \<noteq> CHR 0x5C) (rev libname))"

definition roundup :: "ulong \<Rightarrow> int \<Rightarrow> ulong option" where
  "roundup x y = (if y = 0 then None else Some (((x + (off y - 1)) div off y) * off y))"

definition get_var_addr_by_bss ::
  "crash \<Rightarrow> (string \<Rightarrow> string \<Rightarrow> ulong \<times> int) \<Rightarrow> (string \<Rightarrow> string \<Rightarrow> ulong) \<Rightarrow> utask \<Rightarrow> string \<Rightarrow> string \<Rightarrow> ulong option" where
  "get_var_addr_by_bss cr read_sections read_symbol ut libname var_name = do {
     let filename = basename libname;
     let filename = (case List.find (\<lambda>n. contains n filename) (map (\<lambda>i. vm_name (vma_list ut ! i)) (file_list ut)) of
                       Some n \<Rightarrow> n | None \<Rightarrow> filename);
     if filename = '''' then Some 0
     else do {
       vraddr \<leftarrow> get_min_vma_start ut filename;
       let (bss_saddr, bss_align) = read_sections ''.bss'' libname;
       bss_vaddr \<leftarrow> roundup (vraddr + bss_saddr) bss_align;
       let var_saddr = read_symbol var_name libname;
       if var_saddr = 0 then Some 0
       else do {
         let var_vaddr = bss_vaddr + (var_saddr - bss_saddr);
         tc \<leftarrow> ut_tc ut;
         if \<not> IS_UVADDR cr var_vaddr tc then Some 0 else Some var_vaddr } } }"

section \<open>The state between reads\<close>

text \<open>The task's memory byte by byte, and the contents of an area.\<close>

definition umem :: "crash \<Rightarrow> utask \<Rightarrow> ulong \<Rightarrow> byte" where
  "umem cr ut a = (case ut_tc ut of None \<Rightarrow> 0
     | Some tc \<Rightarrow> page_byte (user_page cr (tc_task tc) (swap_ptr ut)) (PAGESHIFT cr) a)"

definition ubytes :: "crash \<Rightarrow> utask \<Rightarrow> ulong \<Rightarrow> nat \<Rightarrow> byte list" where
  "ubytes cr ut a n = map (\<lambda>i. umem cr ut (a + of_nat i)) [0..<n]"

lemma length_ubytes [simp]: "length (ubytes cr ut a n) = n"
  by (simp add: ubytes_def)

lemma ubytes_eq_Nil [simp]: "ubytes cr ut a n = [] \<longleftrightarrow> n = 0"
  by (simp add: ubytes_def)

lemma ubytes_sub: "i + n \<le> m \<Longrightarrow> take n (drop i (ubytes cr ut a m)) = ubytes cr ut (a + of_nat i) n"
  by (rule nth_equalityI) (auto simp: ubytes_def add.assoc)

text \<open>The areas are as the constructor builds them, and below 2 GiB each.\<close>

definition areas_ok :: "utask \<Rightarrow> bool" where
  "areas_ok ut \<longleftrightarrow> (\<forall>v \<in> set (vma_list ut). vm_size v = vm_end v - vm_start v \<and> unat (vm_end v - vm_start v) < 2 ^ 31)"

definition same_area :: "crash \<Rightarrow> utask \<Rightarrow> vma_struct \<Rightarrow> vma_struct \<Rightarrow> bool" where
  "same_area cr ut0 v0 v \<longleftrightarrow>
     (\<exists>d. v = v0\<lparr>vm_data := d\<rparr> \<and> (d = [] \<or> d = ubytes cr ut0 (vm_start v0) (unat (vm_size v0))))"

definition ut_state :: "crash \<Rightarrow> utask \<Rightarrow> utask \<Rightarrow> bool" where
  "ut_state cr ut0 ut \<longleftrightarrow> (\<exists>sw vs. ut = ut0\<lparr>swap_ptr := sw, vma_list := vs\<rparr> \<and>
     swap_state cr (swap_ptr ut0) sw \<and> list_all2 (same_area cr ut0) (vma_list ut0) vs)"

lemma ut_state_sel:
  assumes "ut_state cr ut0 ut"
  shows "ut_tc ut = ut_tc ut0" "pointer_size ut = pointer_size ut0" "vaddr_mask ut = vaddr_mask ut0"
    "length (vma_list ut) = length (vma_list ut0)" "swap_state cr (swap_ptr ut0) (swap_ptr ut)"
  using assms by (auto simp: ut_state_def list_all2_lengthD)

lemma ut_state_area:
  assumes "ut_state cr ut0 ut" "i < length (vma_list ut0)"
  shows "same_area cr ut0 (vma_list ut0 ! i) (vma_list ut ! i)"
  using assms by (auto simp: ut_state_def dest: list_all2_nthD)

lemma same_area_sel:
  assumes "same_area cr ut0 v0 v"
  shows "vm_start v = vm_start v0" "vm_end v = vm_end v0" "vm_size v = vm_size v0" "is_contains v = is_contains v0"
  using assms by (auto simp: same_area_def is_contains_def fun_eq_iff)

lemma get_vma_state:
  assumes "ut_state cr ut0 ut"
  shows "get_vma ut a = get_vma ut0 a"
  unfolding get_vma_def ut_state_sel(4) [OF assms]
  by (rule find_cong) (auto simp: same_area_sel(4) [OF ut_state_area [OF assms]])

lemma ut_stateI:
  "swap_state cr (swap_ptr ut0) sw \<Longrightarrow> list_all2 (same_area cr ut0) (vma_list ut0) vs \<Longrightarrow>
     ut_state cr ut0 (ut0\<lparr>swap_ptr := sw, vma_list := vs\<rparr>)"
  unfolding ut_state_def by blast

lemma ut_swap_update:
  assumes "ut_state cr ut0 ut" "swap_state cr (swap_ptr ut0) sw"
  shows "ut_state cr ut0 (ut\<lparr>swap_ptr := sw\<rparr>)"
proof -
  obtain sw' vs where ut: "ut = ut0\<lparr>swap_ptr := sw', vma_list := vs\<rparr>" "list_all2 (same_area cr ut0) (vma_list ut0) vs"
    using assms(1) by (auto simp: ut_state_def)
  have "ut\<lparr>swap_ptr := sw\<rparr> = ut0\<lparr>swap_ptr := sw, vma_list := vs\<rparr>" by (cases ut0) (simp add: ut)
  with ut_stateI [OF assms(2) ut(2)] show ?thesis by simp
qed

lemma ut_area_update:
  assumes "ut_state cr ut0 ut" "i < length (vma_list ut0)" "same_area cr ut0 (vma_list ut0 ! i) v"
  shows "ut_state cr ut0 (ut\<lparr>vma_list := (vma_list ut)[i := v]\<rparr>)"
proof -
  obtain sw vs where ut: "ut = ut0\<lparr>swap_ptr := sw, vma_list := vs\<rparr>" "list_all2 (same_area cr ut0) (vma_list ut0) vs"
    "swap_state cr (swap_ptr ut0) sw"
    using assms(1) by (auto simp: ut_state_def)
  have "list_all2 (same_area cr ut0) (vma_list ut0) (vs[i := v])"
    using ut(2) assms(2,3) by (auto simp: list_all2_conv_all_nth nth_list_update)
  from ut_stateI [OF ut(3) this] show ?thesis by (simp add: ut(1))
qed

lemma uread_ubytes:
  assumes "PAGESHIFT cr \<le> 64" "ut_state cr ut0 ut" "ut_tc ut0 = Some tc"
    and "uread_memory cr (tc_task tc) (swap_ptr ut) a len = Some (sw, bs)"
  shows "swap_state cr (swap_ptr ut0) sw \<and> bs = ubytes cr ut0 a (nat len)"
proof -
  from assms(4) have "pages_loop (do_swap_page cr (tc_task tc)) (PAGESHIFT cr) (swap_ptr ut) a (nat len) = Some (sw, bs)"
    by (simp add: uread_memory_def split: if_splits)
  from um.loop_bytes [OF assms(1) ut_state_sel(5) [OF assms(2)] this]
  show ?thesis by (simp add: ubytes_def umem_def assms(3))
qed

lemma load_vma_state:
  assumes "PAGESHIFT cr \<le> 64" "areas_ok ut0" "ut_state cr ut0 ut" "i < length (vma_list ut0)" "load_vma cr ut i = Some ut'"
  shows "ut_state cr ut0 ut' \<and>
    vm_data (vma_list ut' ! i) = ubytes cr ut0 (vm_start (vma_list ut0 ! i)) (unat (vm_size (vma_list ut0 ! i)))"
proof (cases "vm_data (vma_list ut ! i) = []")
  case False
  with assms(5) have "ut' = ut" by (simp add: load_vma_def)
  with False assms(3) ut_state_area [OF assms(3,4)] show ?thesis by (auto simp: same_area_def)
next
  case True
  let ?v0 = "vma_list ut0 ! i"
  have sz: "to_int32 (vm_size ?v0) = int (unat (vm_size ?v0))"
    using assms(2,4) by (intro to_int32_small) (auto simp: areas_ok_def)
  note sel = same_area_sel [OF ut_state_area [OF assms(3,4)]]
  obtain tc sw bs where tc: "ut_tc ut0 = Some tc"
    and rd: "uread_memory cr (tc_task tc) (swap_ptr ut) (vm_start ?v0) (int (unat (vm_size ?v0))) = Some (sw, bs)"
    and ut': "ut' = ut\<lparr>swap_ptr := sw, vma_list := (vma_list ut)[i := (vma_list ut ! i)\<lparr>vm_data := bs\<rparr>]\<rparr>"
    using assms(5) True sz sel ut_state_sel(1) [OF assms(3)]
    by (auto simp: load_vma_def read_vma_data_def bind_eq_Some_conv)
  have bs: "swap_state cr (swap_ptr ut0) sw" "bs = ubytes cr ut0 (vm_start ?v0) (unat (vm_size ?v0))"
    using uread_ubytes [OF assms(1,3) tc rd] by auto
  have st: "ut_state cr ut0 (ut\<lparr>swap_ptr := sw\<rparr>)" by (rule ut_swap_update [OF assms(3) bs(1)])
  have "same_area cr ut0 ?v0 ((vma_list ut ! i)\<lparr>vm_data := bs\<rparr>)"
    using ut_state_area [OF assms(3,4)] bs(2) by (auto simp: same_area_def)
  from ut_area_update [OF st assms(4)] this have "ut_state cr ut0 ut'" by (simp add: ut')
  moreover have "i < length (vma_list ut)" using assms(4) ut_state_sel(4) [OF assms(3)] by simp
  ultimately show ?thesis using bs(2) by (simp add: ut')
qed

text \<open>The number of bytes a read at \<open>a\<close> gives: it stops at the end of the area.\<close>

definition read_len :: "utask \<Rightarrow> ulong \<Rightarrow> nat \<Rightarrow> nat" where
  "read_len ut a n = (case get_vma ut a of None \<Rightarrow> n | Some i \<Rightarrow> min n (unat (vm_end (vma_list ut ! i) - a)))"

lemma get_vma_SomeD:
  "get_vma ut a = Some i \<Longrightarrow> i < length (vma_list ut) \<and> vm_start (vma_list ut ! i) \<le> a \<and> a < vm_end (vma_list ut ! i)"
  by (auto simp: get_vma_def find_Some_iff is_contains_def)

lemma uint_clip: "(if uint w < int n then uint w else int n) = int (min n (unat (w :: ulong)))"
  by (simp add: min_def flip: uint_nat) (metis not_less of_nat_le_iff uint_nat)

lemma read_data_area:
  assumes "PAGESHIFT cr \<le> 64" "areas_ok ut0" "ut_state cr ut0 ut" "get_vma ut0 a = Some i" "load_vma cr ut i = Some ut'"
  shows "ut_state cr ut0 ut' \<and> read_data cr ut a (int n) = Some (ut', ubytes cr ut0 a (read_len ut0 a n))"
proof -
  let ?v0 = "vma_list ut0 ! i"
  have i: "i < length (vma_list ut0)" "vm_start ?v0 \<le> a" "a < vm_end ?v0" using get_vma_SomeD [OF assms(4)] by auto
  have st: "ut_state cr ut0 ut'" and d: "vm_data (vma_list ut' ! i) = ubytes cr ut0 (vm_start ?v0) (unat (vm_size ?v0))"
    using load_vma_state [OF assms(1,2,3) i(1) assms(5)] by auto
  have sz: "unat (vm_size ?v0) = unat (vm_end ?v0) - unat (vm_start ?v0)" "unat (vm_size ?v0) < 2 ^ 31"
    using assms(2) i by (auto simp: areas_ok_def unat_sub word_le_nat_alt word_less_nat_alt dest!: bspec [OF _ nth_mem])
  have r: "unat (vm_end ?v0 - a) = unat (vm_end ?v0) - unat a" "unat (a - vm_start ?v0) = unat a - unat (vm_start ?v0)"
    using i by (simp_all add: unat_sub word_le_nat_alt word_less_nat_alt)
  have rem: "to_int32 (vm_end ?v0 - a) = int (unat (vm_end ?v0 - a))"
    using sz r i by (intro to_int32_small) (simp add: word_le_nat_alt)
  let ?m = "min n (unat (vm_end ?v0 - a))"
  have sub: "unat (a - vm_start ?v0) + ?m \<le> unat (vm_size ?v0)"
    using r sz i by (simp add: word_le_nat_alt word_less_nat_alt)
  have "0 < unat (vm_size ?v0)" using sz i by (simp add: word_le_nat_alt word_less_nat_alt)
  then have "read_data cr ut a (int n) =
      Some (ut', take ?m (drop (unat (a - vm_start ?v0)) (ubytes cr ut0 (vm_start ?v0) (unat (vm_size ?v0)))))"
    using assms(4,5) get_vma_state [OF assms(3)] d same_area_sel [OF ut_state_area [OF st i(1)]] rem sub
    by (simp add: read_data_def Let_def uint_clip del: if_split of_nat_min)
  with st ubytes_sub [OF sub] show ?thesis by (simp add: read_len_def assms(4))
qed

lemma read_data_state:
  assumes "PAGESHIFT cr \<le> 64" "areas_ok ut0" "ut_state cr ut0 ut" "read_data cr ut a (int n) = Some (ut', bs)"
  shows "ut_state cr ut0 ut' \<and> bs = ubytes cr ut0 a (read_len ut0 a n)"
proof (cases "get_vma ut0 a")
  case None
  then obtain tc sw where tc: "ut_tc ut0 = Some tc"
    and rd: "uread_memory cr (tc_task tc) (swap_ptr ut) a (int n) = Some (sw, bs)" and ut': "ut' = ut\<lparr>swap_ptr := sw\<rparr>"
    using assms(4) get_vma_state [OF assms(3)] ut_state_sel(1) [OF assms(3)]
    by (auto simp: read_data_def bind_eq_Some_conv)
  from uread_ubytes [OF assms(1,3) tc rd] ut_swap_update [OF assms(3)]
  show ?thesis by (simp add: ut' read_len_def None)
next
  case (Some i)
  then obtain ut1 where "load_vma cr ut i = Some ut1"
    using assms(4) get_vma_state [OF assms(3)] by (auto simp: read_data_def bind_eq_Some_conv)
  from read_data_area [OF assms(1-3) Some this, of n] assms(4) show ?thesis by simp
qed

text \<open>In a session in which no page fails to be fetched every read returns.\<close>

definition pages_total :: "crash \<Rightarrow> utask \<Rightarrow> bool" where
  "pages_total cr ut0 \<longleftrightarrow> readmem_ok cr \<and> (\<exists>tc. ut_tc ut0 = Some tc \<and>
     (\<forall>s a. swap_state cr (swap_ptr ut0) s \<longrightarrow> do_swap_page cr (tc_task tc) s a \<noteq> None))"

lemma uread_total:
  assumes "pages_total cr ut0" "ut_state cr ut0 ut" "0 \<le> len" "ut_tc ut0 = Some tc"
  shows "\<exists>sw bs. uread_memory cr (tc_task tc) (swap_ptr ut) a len = Some (sw, bs)"
proof -
  have "\<exists>s' bs. pages_loop (do_swap_page cr (tc_task tc)) (PAGESHIFT cr) (swap_ptr ut) a (nat len) = Some (s', bs)"
    by (rule um.loop_returns [OF ut_state_sel(5) [OF assms(2)]])
      (use assms user_page_length in \<open>auto simp: pages_total_def\<close>)
  with assms(3) show ?thesis by (simp add: uread_memory_def)
qed

lemma read_data_total:
  assumes "PAGESHIFT cr \<le> 64" "areas_ok ut0" "ut_state cr ut0 ut" "pages_total cr ut0"
  shows "\<exists>r. read_data cr ut a (int n) = Some r"
proof -
  obtain tc where tc: "ut_tc ut0 = Some tc" using assms(4) by (auto simp: pages_total_def)
  note tc' = ut_state_sel(1) [OF assms(3)] tc
  show ?thesis
  proof (cases "get_vma ut0 a")
    case None
    then show ?thesis
      using uread_total [OF assms(4,3) _ tc, of "int n" a] get_vma_state [OF assms(3), of a] tc'
      by (auto simp: read_data_def)
  next
    case (Some i)
    let ?v0 = "vma_list ut0 ! i"
    have i: "i < length (vma_list ut0)" using get_vma_SomeD [OF Some] by simp
    have "0 \<le> to_int32 (vm_size ?v0)"
      using assms(2) i by (subst to_int32_small) (auto simp: areas_ok_def)
    then have "\<exists>ut'. load_vma cr ut i = Some ut'"
      using uread_total [OF assms(4,3) _ tc, of "to_int32 (vm_size ?v0)" "vm_start ?v0"] tc'
        same_area_sel [OF ut_state_area [OF assms(3) i]]
      by (auto simp: load_vma_def read_vma_data_def)
    with read_data_area [OF assms(1-3) Some] show ?thesis by blast
  qed
qed

text \<open>C8. A read of a task's memory returns the bytes its address space holds there, whether the area's copy
  was already there or not, and stops at the end of the area that holds the address; the object stays
  in a state for which this holds. It returns when no page of the task fails to be fetched.\<close>

theorem read_data_bytes:
  assumes "PAGESHIFT cr \<le> 64" "areas_ok ut0" "ut_state cr ut0 ut"
  shows "(\<forall>ut' bs. read_data cr ut a (int n) = Some (ut', bs) \<longrightarrow>
      ut_state cr ut0 ut' \<and> bs = ubytes cr ut0 a (read_len ut0 a n)) \<and>
    (pages_total cr ut0 \<longrightarrow> read_data cr ut a (int n) \<noteq> None)"
  using read_data_state [OF assms] read_data_total [OF assms] by auto

section \<open>Readers of pointers\<close>

text \<open>
  What the container decoders need of a reader: in a good state a read at a readable address returns
  the value there and leaves a good state.
\<close>

fun linked ::
  "(ulong \<Rightarrow> ulong) \<Rightarrow> (ulong \<Rightarrow> bool) \<Rightarrow> (ulong \<Rightarrow> bool) \<Rightarrow> ulong \<Rightarrow> ulong \<Rightarrow> ulong \<Rightarrow> ulong \<Rightarrow> ulong list \<Rightarrow> bool" where
  "linked val ok isu msk ps hdr prev [] \<longleftrightarrow> True"
| "linked val ok isu msk ps hdr prev (x # xs) \<longleftrightarrow>
     isu x \<and> ok x \<and> ok (x + ps) \<and> val x AND msk = prev \<and> val (x + ps) AND msk = hd (xs @ [hdr]) \<and>
     linked val ok isu msk ps hdr x xs"

text \<open>A \<^verbatim>\<open>std::list\<close> of the nodes \<open>xs\<close>: the header holds the last node, the first one and their number.\<close>

definition stdlist_at ::
  "(ulong \<Rightarrow> ulong) \<Rightarrow> (ulong \<Rightarrow> bool) \<Rightarrow> (ulong \<Rightarrow> bool) \<Rightarrow> ulong \<Rightarrow> ulong \<Rightarrow> ulong \<Rightarrow> ulong list \<Rightarrow> bool" where
  "stdlist_at val ok isu msk ps hdr xs \<longleftrightarrow>
     ok hdr \<and> ok (hdr + ps) \<and> ok (hdr + 2 * ps) \<and> val hdr AND msk = last (hdr # xs) \<and>
     val (hdr + ps) AND msk = hd (xs @ [hdr]) \<and> unat (val (hdr + 2 * ps) AND msk) = length xs \<and>
     linked val ok isu msk ps hdr hdr xs \<and> distinct (hdr # xs) \<and> 0 \<notin> set (hdr # xs)"

text \<open>A binary tree of nodes by their addresses, each node holding its left and its right child.\<close>

datatype node_tree = Null | Node node_tree ulong node_tree

fun root_of :: "node_tree \<Rightarrow> ulong" where
  "root_of Null = 0"
| "root_of (Node l a r) = a"

fun nodes_of :: "node_tree \<Rightarrow> ulong list" where
  "nodes_of Null = []"
| "nodes_of (Node l a r) = a # nodes_of l @ nodes_of r"

fun tree_at :: "(ulong \<Rightarrow> ulong) \<Rightarrow> (ulong \<Rightarrow> bool) \<Rightarrow> (ulong \<Rightarrow> bool) \<Rightarrow> ulong \<Rightarrow> node_tree \<Rightarrow> bool" where
  "tree_at val ok isu ps Null \<longleftrightarrow> True"
| "tree_at val ok isu ps (Node l a r) \<longleftrightarrow>
     a \<noteq> 0 \<and> isu a \<and> ok a \<and> ok (a + ps) \<and> val a = root_of l \<and> val (a + ps) = root_of r \<and>
     tree_at val ok isu ps l \<and> tree_at val ok isu ps r"

locale user_reader =
  fixes rd :: "'s \<Rightarrow> ulong \<Rightarrow> ('s \<times> ulong) option"
    and inv :: "'s \<Rightarrow> bool"
    and val :: "ulong \<Rightarrow> ulong"
    and ok :: "ulong \<Rightarrow> bool"
  assumes reads: "inv s \<Longrightarrow> ok a \<Longrightarrow> \<exists>s'. rd s a = Some (s', val a) \<and> inv s'"
begin

lemma stdlist_loop_nodes:
  assumes "inv s" "linked val ok isu msk ps hdr prev xs" "prev \<notin> set xs" "distinct xs" "0 \<notin> set xs" "hdr \<noteq> 0"
    and "xs \<noteq> [] \<Longrightarrow> tl' = last xs"
  shows "\<exists>s'. stdlist_loop rd isu msk ps tl' (length xs) s (hd (xs @ [hdr])) = Some (s', map (\<lambda>x. x + 2 * ps) xs) \<and> inv s'"
  using assms
proof (induction xs arbitrary: s prev)
  case (Cons x xs)
  obtain s1 where s1: "rd s x = Some (s1, val x)" "inv s1" using reads [OF Cons.prems(1), of x] Cons.prems(2) by auto
  obtain s2 where s2: "rd s1 (x + ps) = Some (s2, val (x + ps))" "inv s2"
    using reads [OF s1(2), of "x + ps"] Cons.prems(2) by auto
  have n: "hd (xs @ [hdr]) \<noteq> 0" using Cons.prems(5,6) by (cases xs) auto
  have p: "prev \<noteq> tl'" using Cons.prems(3,7) by (metis last_in_set list.distinct(1))
  have "\<exists>s'. stdlist_loop rd isu msk ps tl' (length xs) s2 (hd (xs @ [hdr])) = Some (s', map (\<lambda>x. x + 2 * ps) xs) \<and> inv s'"
    by (rule Cons.IH [OF s2(2), of x]) (use Cons.prems in auto)
  with s1 s2 n p Cons.prems(2) show ?case by auto
qed simp

lemma stdlist_walk_nodes:
  assumes "inv s" "stdlist_at val ok isu msk ps hdr xs"
  shows "\<exists>s'. stdlist_walk rd isu msk ps s hdr = Some (s', map (\<lambda>x. x + 2 * ps) xs) \<and> inv s'"
proof -
  obtain s1 where s1: "rd s hdr = Some (s1, val hdr)" "inv s1" using reads assms by (fastforce simp: stdlist_at_def)
  obtain s2 where s2: "rd s1 (hdr + ps) = Some (s2, val (hdr + ps))" "inv s2"
    using reads [OF s1(2)] assms(2) by (fastforce simp: stdlist_at_def)
  obtain s3 where s3: "rd s2 (hdr + 2 * ps) = Some (s3, val (hdr + 2 * ps))" "inv s3"
    using reads [OF s2(2)] assms(2) by (fastforce simp: stdlist_at_def)
  have "\<exists>s'. stdlist_loop rd isu msk ps (last (hdr # xs)) (length xs) s3 (hd (xs @ [hdr])) =
      Some (s', map (\<lambda>x. x + 2 * ps) xs) \<and> inv s'"
    by (rule stdlist_loop_nodes [OF s3(2), where prev = hdr]) (use assms(2) in \<open>auto simp: stdlist_at_def\<close>)
  then show ?thesis using s1 s2 s3 assms(2) by (simp add: stdlist_walk_def stdlist_at_def)
qed

text \<open>The stack holds the roots of trees still to be visited.\<close>

lemma stdmap_loop_trees:
  assumes "inv s" "\<forall>t \<in> set ts. t \<noteq> Null \<and> tree_at val ok isu ps t"
  shows "\<exists>s'. stdmap_loop rd isu ps key_size s (map root_of ts) m =
    Some (s', fold (\<lambda>a. emplace_node isu (a + 4 * ps) key_size) (concat (map nodes_of ts)) m) \<and> inv s'"
  using assms
proof (induction "sum_list (map size ts)" arbitrary: ts s m rule: less_induct)
  case less
  show ?case
  proof (cases ts)
    case Nil
    then show ?thesis using less.prems(1) by (simp add: stdmap_loop.simps)
  next
    case (Cons t ts')
    then obtain l a r where t: "t = Node l a r" using less.prems(2) by (cases t) auto
    have ta: "tree_at val ok isu ps (Node l a r)" using less.prems(2) Cons t by simp
    obtain s1 where s1: "rd s a = Some (s1, root_of l)" "inv s1" using reads [OF less.prems(1), of a] ta by auto
    obtain s2 where s2: "rd s1 (a + ps) = Some (s2, root_of r)" "inv s2" using reads [OF s1(2), of "a + ps"] ta by auto
    define ts2 where "ts2 = (if l = Null then [] else [l]) @ (if r = Null then [] else [r]) @ ts'"
    have root: "(root_of u \<noteq> 0 \<and> isu (root_of u)) \<longleftrightarrow> u \<noteq> Null" if "tree_at val ok isu ps u" for u
      using that by (cases u) auto
    have st: "(let st = (if root_of r \<noteq> 0 \<and> isu (root_of r) then root_of r # map root_of ts' else map root_of ts') in
        if root_of l \<noteq> 0 \<and> isu (root_of l) then root_of l # st else st) = map root_of ts2"
      using ta root [of l] root [of r] by (auto simp: ts2_def Let_def)
    have "\<exists>s'. stdmap_loop rd isu ps key_size s2 (map root_of ts2) (emplace_node isu (a + 4 * ps) key_size m) =
        Some (s', fold (\<lambda>a. emplace_node isu (a + 4 * ps) key_size) (concat (map nodes_of ts2))
          (emplace_node isu (a + 4 * ps) key_size m)) \<and> inv s'"
      by (rule less.hyps) (use s2(2) ta less.prems(2) Cons t in \<open>auto simp: ts2_def\<close>)
    moreover have "concat (map nodes_of ts) = a # concat (map nodes_of ts2)" by (auto simp: Cons t ts2_def)
    moreover have "stdmap_loop rd isu ps key_size s (map root_of ts) m =
        stdmap_loop rd isu ps key_size s2 (map root_of ts2) (emplace_node isu (a + 4 * ps) key_size m)"
      using s1 s2 st by (subst stdmap_loop.simps) (simp add: Cons t Let_def)
    ultimately show ?thesis by auto
  qed
qed

end

lemma fold_emplace_node:
  assumes "\<And>k v. m k = Some v \<Longrightarrow> v = k + key_size"
  shows "fold (\<lambda>a. emplace_node isu (a + c) key_size) as m =
    (\<lambda>k. if (\<exists>a \<in> set as. k = a + c) \<and> isu k \<and> isu (k + key_size) then Some (k + key_size) else m k)"
  using assms
proof (induction "as" arbitrary: m)
  case (Cons a "as")
  have "\<And>k v. emplace_node isu (a + c) key_size m k = Some v \<Longrightarrow> v = k + key_size"
    using Cons.prems by (auto simp: emplace_node_def emplace_def split: if_splits option.splits)
  from Cons.IH [OF this] show ?case
    using Cons.prems by (auto simp: fun_eq_iff emplace_node_def emplace_def split: option.splits)
qed (simp add: fun_eq_iff)

text \<open>A 64-bit task: its words and the addresses at which \<open>n\<close> bytes can be read in every state.\<close>

definition ut64_state :: "crash \<Rightarrow> utask \<Rightarrow> utask \<Rightarrow> bool" where
  "ut64_state cr ut0 ut \<longleftrightarrow> PAGESHIFT cr \<le> 64 \<and> areas_ok ut0 \<and> pointer_size ut0 = 8 \<and> ut_state cr ut0 ut"

definition uword :: "crash \<Rightarrow> utask \<Rightarrow> ulong \<Rightarrow> ulong" where
  "uword cr ut a = of_nat (le_nat (ubytes cr ut a 8))"

definition readable :: "crash \<Rightarrow> utask \<Rightarrow> nat \<Rightarrow> ulong \<Rightarrow> bool" where
  "readable cr ut0 n a \<longleftrightarrow> 0 < n \<and> read_len ut0 a n = n \<and>
     (\<forall>ut. ut_state cr ut0 ut \<longrightarrow> read_data cr ut a (int n) \<noteq> None)"

lemma readable_reads:
  assumes "ut64_state cr ut0 ut" "readable cr ut0 n a"
  shows "\<exists>ut'. read_data cr ut a (int n) = Some (ut', ubytes cr ut0 a n) \<and> ut64_state cr ut0 ut'"
proof -
  obtain ut' bs where r: "read_data cr ut a (int n) = Some (ut', bs)"
    using assms by (auto simp: readable_def ut64_state_def)
  with read_data_state [of cr ut0 ut a n ut' bs] assms show ?thesis by (auto simp: ut64_state_def readable_def)
qed

lemma load_whole: "length bs = n \<Longrightarrow> load n bs 0 = Some bs"
  by (simp add: load_def)

lemma ut_ulong_reads:
  assumes "ut64_state cr ut0 ut" "readable cr ut0 8 a"
  shows "\<exists>ut'. ut_ulong cr ut a = Some (ut', uword cr ut0 a) \<and> ut64_state cr ut0 ut'"
proof -
  obtain ut' where "read_data cr ut a (int 8) = Some (ut', ubytes cr ut0 a 8)" "ut64_state cr ut0 ut'"
    using readable_reads [OF assms] by blast
  moreover have "pointer_size ut = 8" using assms(1) ut_state_sel(2) [of cr ut0 ut] by (simp add: ut64_state_def)
  moreover have "ULONG (ubytes cr ut0 a 8) 0 = Some (uword cr ut0 a)"
    by (simp add: ULONG_def load_whole uword_def)
  ultimately show ?thesis by (simp add: ut_ulong_def ut_scalar_def)
qed

lemma ut_pointer_reads:
  assumes "ut64_state cr ut0 ut" "readable cr ut0 8 a"
  shows "\<exists>ut'. ut_pointer cr ut a = Some (ut', uword cr ut0 a AND vaddr_mask ut0) \<and> ut64_state cr ut0 ut'"
proof -
  obtain ut' where "read_data cr ut a (int 8) = Some (ut', ubytes cr ut0 a 8)" "ut64_state cr ut0 ut'"
    using readable_reads [OF assms] by blast
  moreover have "pointer_size ut = 8" "vaddr_mask ut = vaddr_mask ut0"
    using assms(1) ut_state_sel(2,3) by (auto simp: ut64_state_def)
  moreover have "ULONG (ubytes cr ut0 a 8) 0 = Some (uword cr ut0 a)"
    by (simp add: ULONG_def load_whole uword_def)
  ultimately show ?thesis by (simp add: ut_pointer_def ut_scalar_def)
qed

lemma ut_uint_reads:
  assumes "ut64_state cr ut0 ut" "readable cr ut0 4 a"
  shows "\<exists>ut'. ut_uint cr ut a = Some (ut', of_nat (le_nat (ubytes cr ut0 a 4))) \<and> ut64_state cr ut0 ut'"
proof -
  obtain ut' where "read_data cr ut a (int 4) = Some (ut', ubytes cr ut0 a 4)" "ut64_state cr ut0 ut'"
    using readable_reads [OF assms] by blast
  moreover have "UINT (ubytes cr ut0 a 4) 0 = Some (of_nat (le_nat (ubytes cr ut0 a 4)))"
    by (simp add: UINT_def load_whole)
  ultimately show ?thesis by (simp add: ut_uint_def ut_scalar_def)
qed

lemma ut_byte_reads:
  assumes "ut64_state cr ut0 ut" "readable cr ut0 1 a"
  shows "\<exists>ut'. ut_byte cr ut a = Some (ut', umem cr ut0 a) \<and> ut64_state cr ut0 ut'"
proof -
  obtain ut' where "read_data cr ut a (int 1) = Some (ut', ubytes cr ut0 a 1)" "ut64_state cr ut0 ut'"
    using readable_reads [OF assms] by blast
  moreover have "UCHAR (ubytes cr ut0 a 1) 0 = Some (umem cr ut0 a)"
    by (simp add: UCHAR_def load_whole ubytes_def)
  ultimately show ?thesis by (simp add: ut_byte_def ut_scalar_def)
qed

interpretation ul: user_reader "ut_ulong cr" "ut64_state cr ut0" "uword cr ut0" "readable cr ut0 8"
  for cr :: crash and ut0 :: utask
  by unfold_locales (rule ut_ulong_reads)

interpretation up: user_reader "ut_pointer cr" "ut64_state cr ut0" "\<lambda>a. uword cr ut0 a AND vaddr_mask ut0" "readable cr ut0 8"
  for cr :: crash and ut0 :: utask
  by unfold_locales (rule ut_pointer_reads)

text \<open>C9. The decoder of a \<^verbatim>\<open>std::list\<close> of a 64-bit task returns the addresses of the values of all its nodes,
  in order, for every well-formed list in the task's memory.\<close>

theorem for_each_stdlist_nodes:
  assumes "ut64_state cr ut0 ut" "ut_tc ut0 = Some tc"
    and "stdlist_at (uword cr ut0) (readable cr ut0 8) (\<lambda>a. IS_UVADDR cr a tc) (vaddr_mask ut0) 8 hdr xs"
  shows "\<exists>ut'. for_each_stdlist cr ut hdr = Some (ut', map (\<lambda>x. x + 16) xs) \<and> ut64_state cr ut0 ut'"
proof -
  have "pointer_size ut = 8" "vaddr_mask ut = vaddr_mask ut0" "ut_tc ut = Some tc"
    using assms(1,2) ut_state_sel(1,2,3) by (auto simp: ut64_state_def)
  then show ?thesis
    using ul.stdlist_walk_nodes [OF assms(1,3)] by (simp add: for_each_stdlist_def)
qed

text \<open>C10. The decoder of a \<^verbatim>\<open>std::map\<close> of a 64-bit task ends and returns an entry for every node of the tree, the
  address of its key with the address of its value, and no other, for every tree in the task's memory.\<close>

theorem for_each_stdmap_nodes:
  assumes "ut64_state cr ut0 ut" "ut_tc ut0 = Some tc"
    and "tree_at (\<lambda>a. uword cr ut0 a AND vaddr_mask ut0) (readable cr ut0 8) (\<lambda>a. IS_UVADDR cr a tc) 8 t" "t \<noteq> Null"
    and "readable cr ut0 8 (hdr + 8)" "uword cr ut0 (hdr + 8) AND vaddr_mask ut0 = root_of t"
    and "readable cr ut0 4 (hdr + 16)" "le_nat (ubytes cr ut0 (hdr + 16) 4) \<noteq> 0"
  shows "\<exists>ut'. for_each_stdmap cr ut hdr key_size = Some (ut',
      \<lambda>k. if (\<exists>a \<in> set (nodes_of t). k = a + 32) \<and> IS_UVADDR cr k tc \<and> IS_UVADDR cr (k + key_size) tc
          then Some (k + key_size) else None) \<and> ut64_state cr ut0 ut'"
proof -
  let ?isu = "\<lambda>a. IS_UVADDR cr a tc"
  obtain l a r where t: "t = Node l a r" using assms(4) by (cases t) auto
  have sel: "pointer_size ut = 8" "ut_tc ut = Some tc"
    using assms(1,2) ut_state_sel(1,2) by (auto simp: ut64_state_def)
  obtain u1 where u1: "ut_pointer cr ut (hdr + 8) = Some (u1, a)" "ut64_state cr ut0 u1"
    using ut_pointer_reads [OF assms(1,5)] assms(6) t by auto
  obtain u2 where u2: "ut_uint cr u1 (hdr + 16) = Some (u2, of_nat (le_nat (ubytes cr ut0 (hdr + 16) 4)))"
    "ut64_state cr ut0 u2" using ut_uint_reads [OF u1(2) assms(7)] by auto
  have "le_nat (ubytes cr ut0 (hdr + 16) 4) < 2 ^ LENGTH(32)" using le_nat_bound [of "ubytes cr ut0 (hdr + 16) 4"] by simp
  then have sz: "(of_nat (le_nat (ubytes cr ut0 (hdr + 16) 4)) :: uint) \<noteq> 0"
    using assms(8) unat_of_nat_small [where 'a = 32] by (metis unat_0)
  obtain u3 where u3: "stdmap_loop (ut_pointer cr) ?isu 8 key_size u2 [a] (emplace_node ?isu (a + 32) key_size Map.empty) =
      Some (u3, fold (\<lambda>a. emplace_node ?isu (a + 32) key_size) (nodes_of t) (emplace_node ?isu (a + 32) key_size Map.empty))"
    "ut64_state cr ut0 u3"
    using up.stdmap_loop_trees [OF u2(2), of "[t]" ?isu 8 key_size "emplace_node ?isu (a + 32) key_size Map.empty"] assms(3,4) t
    by auto
  have f: "fold (\<lambda>a. emplace_node ?isu (a + 32) key_size) (nodes_of t) (emplace_node ?isu (a + 32) key_size Map.empty) =
      fold (\<lambda>a. emplace_node ?isu (a + 32) key_size) (a # nodes_of t) Map.empty" by simp
  have "for_each_stdmap cr ut hdr key_size = Some (u3, fold (\<lambda>a. emplace_node ?isu (a + 32) key_size) (a # nodes_of t) Map.empty)"
    using u1 u2 u3 f sz assms(3) t by (simp add: for_each_stdmap_def sel Let_def)
  with u3(2) show ?thesis
    by (subst (asm) fold_emplace_node) (auto simp: t cong: if_cong)
qed

section \<open>Properties of construction\<close>

lemma auxv_loop_prefix:
  assumes "\<And>i. i < n \<Longrightarrow> auxv_entry is32 msk buf (pos + i) = Some (es ! i)" "length es = n"
  shows "auxv_loop is32 msk buf n pos m = Some (m ++ map_of (rev (takeWhile (\<lambda>(t, v). t \<noteq> 0) es)))"
  using assms
proof (induction es arbitrary: n pos m)
  case (Cons e es)
  obtain t v where e: "e = (t, v)" by force
  have a: "auxv_entry is32 msk buf pos = Some (t, v)" using Cons.prems(1) [of 0] Cons.prems(2) e by auto
  have "auxv_entry is32 msk buf (Suc pos + i) = Some (es ! i)" if "i < length es" for i
    using Cons.prems(1) [of "Suc i"] Cons.prems(2) that by simp
  from Cons.IH [OF this] have ih: "auxv_loop is32 msk buf (length es) (Suc pos) m' =
      Some (m' ++ map_of (rev (takeWhile (\<lambda>(t, v). t \<noteq> 0) es)))" for m' by simp
  have stay: "auxv_loop is32 msk buf k pos m = Some m" if "t = 0" for k
    using a that by (induction k) auto
  show ?case
    using Cons.prems(2) a ih stay by (auto simp: e map_add_def fun_eq_iff split: option.splits)
qed simp

text \<open>C12. The auxiliary vector of a task: the object holds the entries up to the first of type 0, a later entry of
  a type in place of an earlier one, whatever follows the terminator.\<close>

theorem init_auxv_entries:
  assumes "read_auxv cr tc ut = Some buf"
    and "length es = nat (to_int32 (off (field_size ut ''mm_struct'' ''saved_auxv'') div (if \<not> compat ut then 16 else 8)))"
    and "\<forall>i < length es. auxv_entry (compat ut) (vaddr_mask ut) buf i = Some (es ! i)"
  shows "init_auxv cr tc ut =
    Some (ut\<lparr>auxv_list := auxv_list ut ++ map_of (rev (takeWhile (\<lambda>(t, v). t \<noteq> 0) es))\<rparr>)"
proof -
  have "auxv_loop (compat ut) (vaddr_mask ut) buf (length es) 0 (auxv_list ut) =
      Some (auxv_list ut ++ map_of (rev (takeWhile (\<lambda>(t, v). t \<noteq> 0) es)))"
    by (rule auxv_loop_prefix) (use assms(3) in auto)
  then show ?thesis unfolding init_auxv_def assms(1) assms(2) by (simp add: Let_def)
qed

text \<open>
  The positions the object keeps are those of its areas: every list is increasing, an area is in at
  most one of the two lists, and the map of files leads to areas of that file.
\<close>

definition vma_index_ok :: "utask \<Rightarrow> bool" where
  "vma_index_ok ut \<longleftrightarrow>
     sorted_wrt (<) (anon_list ut) \<and> sorted_wrt (<) (file_list ut) \<and> set (anon_list ut) \<inter> set (file_list ut) = {} \<and>
     set (anon_list ut) \<union> set (file_list ut) \<subseteq> {..<length (vma_list ut)} \<and>
     (\<forall>name fv. file_map ut name = Some fv \<longrightarrow>
        (\<forall>i \<in> set (fv_data fv) \<union> set_option (fv_text fv). i \<in> set (file_list ut) \<and> vm_name (vma_list ut ! i) = name) \<and>
        set_option (fv_bss fv) \<subseteq> set (anon_list ut)) \<and>
     (\<forall>i \<in> set (file_list ut). file_map ut (vm_name (vma_list ut ! i)) \<noteq> None)"

lemma vma_index_ok_skip:
  assumes "vma_index_ok ut"
  shows "vma_index_ok (ut\<lparr>vma_list := vma_list ut @ [vma]\<rparr>)"
proof -
  have l: "i < length (vma_list ut)" if "i \<in> set (anon_list ut) \<union> set (file_list ut)" for i
    using assms that by (auto simp: vma_index_ok_def)
  show ?thesis
    using assms unfolding vma_index_ok_def by (auto simp: nth_append l less_Suc_eq)
qed

lemma vma_index_ok_file:
  assumes "vma_index_ok ut"
  shows "vma_index_ok (ut\<lparr>file_map := add_file_vma (file_map ut) (length (vma_list ut)) vma,
    file_list := file_list ut @ [length (vma_list ut)], vma_list := vma_list ut @ [vma]\<rparr>)"
proof -
  have "\<And>i. i \<in> set (anon_list ut) \<union> set (file_list ut) \<Longrightarrow> i < length (vma_list ut)"
    using assms by (auto simp: vma_index_ok_def)
  with assms show ?thesis
    by (fastforce simp: vma_index_ok_def add_file_vma_def Let_def nth_append sorted_wrt_append split: option.splits if_splits)
qed

lemma vma_index_ok_anon:
  assumes "vma_index_ok ut" "fm = file_map ut \<or>
    (\<exists>f. fm = (file_map ut)(f := map_option (\<lambda>fv. fv\<lparr>fv_bss := Some (length (vma_list ut))\<rparr>) (file_map ut f)))"
  shows "vma_index_ok (ut\<lparr>swap_ptr := sw, file_map := fm, anon_list := anon_list ut @ [length (vma_list ut)],
    vma_list := vma_list ut @ [vma]\<rparr>)"
proof -
  have "\<And>i. i \<in> set (anon_list ut) \<union> set (file_list ut) \<Longrightarrow> i < length (vma_list ut)"
    using assms by (auto simp: vma_index_ok_def)
  with assms show ?thesis
    by (fastforce simp: vma_index_ok_def nth_append sorted_wrt_append split: option.splits if_splits)
qed

lemma init_vma_step_ok:
  assumes "init_vma_step cr tc a (ut, prev) = Some (ut', prev')" "vma_index_ok ut"
  shows "vma_index_ok ut'"
proof (cases "read_struct cr ut a ''vm_area_struct'' True")
  case None
  with assms show ?thesis by (simp add: init_vma_step_def)
next
  case (Some buf)
  with assms(1) obtain vma where vma: "vma_of_bytes ut a buf = Some vma"
    by (auto simp: init_vma_step_def bind_eq_Some_conv)
  show ?thesis
  proof (cases "IS_KVADDR cr (vm_file vma)")
    case True
    then obtain path where "vma_file_path cr ut (vm_file vma) = Some path"
      using assms(1) Some vma by (auto simp: init_vma_step_def bind_eq_Some_conv Let_def)
    then show ?thesis
      using assms Some vma True vma_index_ok_skip vma_index_ok_file
      by (cases path) (auto simp: init_vma_step_def Let_def)
  next
    case False
    then obtain sw v where "anon_vma_named cr tc ut vma = Some (sw, v)"
      using assms(1) Some vma by (auto simp: init_vma_step_def bind_eq_Some_conv Let_def)
    moreover define fm where "fm = (case prev of
        Some f \<Rightarrow> if contains (vm_name v) ''bss''
          then (file_map ut)(f := map_option (\<lambda>fv. fv\<lparr>fv_bss := Some (length (vma_list ut))\<rparr>) (file_map ut f)) else file_map ut
      | None \<Rightarrow> file_map ut)"
    ultimately have "ut' = ut\<lparr>swap_ptr := sw, file_map := fm, anon_list := anon_list ut @ [length (vma_list ut)],
        vma_list := vma_list ut @ [v]\<rparr>"
      using assms(1) Some vma False by (auto simp: init_vma_step_def Let_def)
    moreover have "fm = file_map ut \<or>
        (\<exists>f. fm = (file_map ut)(f := map_option (\<lambda>fv. fv\<lparr>fv_bss := Some (length (vma_list ut))\<rparr>) (file_map ut f)))"
      unfolding fm_def by (cases prev) auto
    ultimately show ?thesis using vma_index_ok_anon [OF assms(2)] by simp
  qed
qed

text \<open>C11. Parsing the areas of a task keeps the cross references of the object: the positions kept in the two
  lists and in the map of files are those of areas in the list, of that file, text and data among the
  file areas and bss among the anonymous ones.\<close>

theorem init_vma_indices:
  assumes "init_vma cr tc ut = Some ut'" "vma_index_ok ut"
  shows "vma_index_ok ut'"
proof -
  obtain "as" prev where "fold_opt (init_vma_step cr tc) as (ut, None) = Some (ut', prev)"
    using assms(1) by (auto simp: init_vma_def bind_eq_Some_conv)
  from fold_opt_invariant [where P = "\<lambda>(u, _). vma_index_ok u", OF _ _ this] show ?thesis
    using assms(2) by (auto dest: init_vma_step_ok)
qed

section \<open>Examples\<close>

text \<open>A session in which the memory of every task is the function \<open>f\<close>, in pages of eight bytes.\<close>

definition flat_session :: "(ulong \<Rightarrow> byte) \<Rightarrow> crash" where
  "flat_session f = user_session\<lparr>uvtop := \<lambda>_ a. (True, a),
     readmem := \<lambda>t a n. if n \<le> 0 then None else (case t of KVADDR \<Rightarrow> Some (replicate (nat n) 0)
       | PHYSADDR \<Rightarrow> Some (map (\<lambda>i. f (a + of_nat i)) [0..<nat n]))\<rparr>"

definition task_example :: "vma_struct list \<Rightarrow> utask" where
  "task_example vs = (blank_utask (plugin.truncate swap_example) (with_caches swap_example [] [] 0)
     (Some \<lparr>tc_task = 7, tc_thread_info = 0, tc_pid = 1, tc_comm = ''init'', tc_mm_struct = 0\<rparr>))
     \<lparr>vma_list := vs, vaddr_mask := mask 48\<rparr>"

lemma task_example_sel [simp]:
  "ut_tc (task_example vs) = Some \<lparr>tc_task = 7, tc_thread_info = 0, tc_pid = 1, tc_comm = ''init'', tc_mm_struct = 0\<rparr>"
  "vma_list (task_example vs) = vs" "pointer_size (task_example vs) = 8" "vaddr_mask (task_example vs) = mask 48"
  "swap_ptr (task_example vs) = with_caches swap_example [] [] 0"
  by (simp_all add: task_example_def blank_utask_def plugin.defs)

lemma flat_session_sel [simp]: "PAGESHIFT (flat_session f) = 3" "IS_UVADDR (flat_session f) a tc"
  by (simp_all add: flat_session_def user_session_def)

lemma flat_session_readmem_ok: "readmem_ok (flat_session f)"
  by (auto simp: readmem_ok_def flat_session_def split: memtype.splits if_splits)

lemma flat_session_page:
  "do_swap_page (flat_session f) t s a =
     Some (s\<lparr>nr_swap := 0\<rparr>, Some (map (\<lambda>i. f ((a AND NOT (mask 3)) + of_nat i)) [0..<8]))"
proof -
  have "read_int (flat_session f) a True = 0" for a by (simp add: read_int_def read_memory_def flat_session_def)
  then have "ensure_swap_list (flat_session f) s = Some (s\<lparr>nr_swap := 0\<rparr>)"
    by (simp add: ensure_swap_list_def) (simp add: flat_session_def user_session_def)
  moreover have "PAGESIZE (flat_session f) = 8" by (simp add: PAGESIZE_def)
  moreover have "read_memory (flat_session f) p 8 False = Some (map (\<lambda>i. f (p + of_nat i)) [0..<8])" for p
    by (simp add: read_memory_def flat_session_def)
  ultimately show ?thesis
    by (simp add: do_swap_page_def) (simp add: flat_session_def user_session_def)
qed

lemma split_page: "(a AND NOT m) + (a AND m) = (a :: ulong)"
proof -
  have "(a AND NOT m) + (a AND m) = (a AND NOT m) OR (a AND m)"
    by (rule disjunctive_add_eq_or) (rule bit_eqI, auto simp: bit_simps)
  also have "\<dots> = a" by (rule bit_eqI) (auto simp: bit_simps)
  finally show ?thesis .
qed

lemma flat_session_umem: "umem (flat_session f) (task_example vs) a = f a"
proof -
  have "a AND mask 3 = of_nat (unat a mod 8)" 
    using page_offset_mod [of 3 a] by (simp add: page_offset_def mask_eq_exp_minus_1 word_unat_eq_iff unat_of_nat take_bit_nat_eq_self)
  then have "(a AND NOT (mask 3)) + of_nat (unat a mod 8) = a"
    using split_page [of a "mask 3"] by simp
  moreover have "user_page (flat_session f) t s (a AND NOT (mask 3)) =
      Some (map (\<lambda>i. f ((a AND NOT (mask 3)) + of_nat i)) [0..<8])" for t and s :: swapinfo
    by (simp add: user_page_def flat_session_page and.assoc)
  ultimately show ?thesis by (simp add: umem_def page_byte_def)
qed

lemma flat_session_total: "pages_total (flat_session f) (task_example vs)"
  by (simp add: pages_total_def flat_session_readmem_ok flat_session_page)

lemma task_example_state:
  assumes "\<forall>v \<in> set vs. vm_data v = []"
  shows "ut_state cr (task_example vs) (task_example vs)"
proof -
  have "list_all2 (same_area cr (task_example vs)) vs vs"
    using assms by (auto simp: list_all2_same same_area_def intro!: exI [of _ "[]"])
  moreover have "swap_state cr (with_caches swap_example [] [] 0) (with_caches swap_example [] [] 0)"
    using swap_state_fresh [of cr "with_caches swap_example [] [] 0" 0] by simp
  moreover have "(task_example vs)\<lparr>swap_ptr := with_caches swap_example [] [] 0, vma_list := vs\<rparr> = task_example vs"
    by (simp add: task_example_def blank_utask_def plugin.defs)
  ultimately show ?thesis
    using ut_stateI [of cr "task_example vs" "with_caches swap_example [] [] 0" vs] by simp
qed

lemma task_example_readable: "0 < n \<Longrightarrow> readable (flat_session f) (task_example []) n a"
  using read_data_total [OF _ _ _ flat_session_total, of f "[]" _ a n]
  by (auto simp: readable_def read_len_def get_vma_def areas_ok_def)

text \<open>A list of the nodes 40 and 64 with its header at 16, and a tree of the nodes 40, 64 and 88.\<close>

definition list_bytes :: "ulong \<Rightarrow> byte" where
  "list_bytes = (\<lambda>_. 0)(16 := 64, 24 := 40, 32 := 2, 40 := 16, 48 := 64, 64 := 40, 72 := 16)"

lemma flat_session_uword:
  "uword (flat_session f) (task_example vs) a = of_nat (le_nat [f a, f (a + 1), f (a + 2), f (a + 3), f (a + 4), f (a + 5), f (a + 6), f (a + 7)])"
  by (simp add: uword_def ubytes_def flat_session_umem upt_rec)

lemma for_each_stdlist_nodes_witness:
  "\<exists>ut'. for_each_stdlist (flat_session list_bytes) (task_example []) 16 = Some (ut', [56, 80])"
proof -
  let ?cr = "flat_session list_bytes" and ?ut = "task_example []"
  have "stdlist_at (uword ?cr ?ut) (readable ?cr ?ut 8) (\<lambda>a. IS_UVADDR ?cr a tc) (vaddr_mask ?ut) 8 16 [40, 64]" for tc
    by (simp add: stdlist_at_def task_example_readable flat_session_uword list_bytes_def mask_eq_exp_minus_1)
  moreover have "ut64_state ?cr ?ut ?ut"
    by (simp add: ut64_state_def areas_ok_def task_example_state)
  ultimately show ?thesis using for_each_stdlist_nodes [of ?cr ?ut ?ut] by fastforce
qed


definition tree_bytes :: "ulong \<Rightarrow> byte" where
  "tree_bytes = (\<lambda>_. 0)(24 := 40, 32 := 3, 40 := 64, 48 := 88)"

lemma for_each_stdmap_nodes_witness:
  "\<exists>ut' m. for_each_stdmap (flat_session tree_bytes) (task_example []) 16 4 = Some (ut', m) \<and>
     m 72 = Some 76 \<and> m 96 = Some 100 \<and> m 120 = Some 124 \<and> m 16 = None"
proof -
  let ?cr = "flat_session tree_bytes" and ?ut = "task_example []"
  let ?t = "Node (Node Null 64 Null) 40 (Node Null 88 Null)"
  have "tree_at (\<lambda>a. uword ?cr ?ut a AND vaddr_mask ?ut) (readable ?cr ?ut 8) (\<lambda>a. IS_UVADDR ?cr a tc) 8 ?t" for tc
    by (simp add: task_example_readable flat_session_uword tree_bytes_def mask_eq_exp_minus_1)
  moreover have "uword ?cr ?ut (16 + 8) AND vaddr_mask ?ut = root_of ?t"
    by (simp add: flat_session_uword tree_bytes_def mask_eq_exp_minus_1)
  moreover have "le_nat (ubytes ?cr ?ut (16 + 16) 4) \<noteq> 0"
    by (simp add: ubytes_def flat_session_umem tree_bytes_def upt_rec)
  moreover have "ut64_state ?cr ?ut ?ut"
    by (simp add: ut64_state_def areas_ok_def task_example_state)
  ultimately show ?thesis
    using for_each_stdmap_nodes [of ?cr ?ut ?ut _ ?t 16 4] by (fastforce simp: task_example_readable)
qed

text \<open>An area of 24 bytes whose byte at every address is the address; a read of 8 bytes at 20 stops at its end.\<close>

definition area_example :: vma_struct where
  "area_example = \<lparr>vm_name = ''a'', vm_addr = 0, vm_start = 0, vm_end = 24, vm_size = 24, vm_flags = 0, vm_file = 0, vm_pgoff = 0,
     anon_name = 0, anon_vma = 0, vm_data = []\<rparr>"

lemma read_data_bytes_witness:
  "\<exists>ut'. read_data (flat_session ucast) (task_example [area_example]) 20 8 = Some (ut', [20, 21, 22, 23])"
proof -
  have "get_vma (task_example [area_example]) 20 = Some 0"
    by (simp add: get_vma_def is_contains_def area_example_def)
  then have l: "read_len (task_example [area_example]) 20 8 = 4" by (simp add: read_len_def area_example_def)
  have "ubytes (flat_session ucast) (task_example [area_example]) 20 4 = [20, 21, 22, 23]"
    by (simp add: ubytes_def flat_session_umem upt_rec)
  moreover have "areas_ok (task_example [area_example])" "vm_data area_example = []"
    by (simp_all add: areas_ok_def area_example_def)
  ultimately show ?thesis
    using read_data_bytes [of "flat_session ucast" "task_example [area_example]" "task_example [area_example]" 20 8]
    by (auto simp: l flat_session_total task_example_state)
qed

text \<open>Two areas of one file.\<close>

definition vma_session :: crash where
  "vma_session = ones_session\<lparr>do_maple_tree := \<lambda>_. [\<lparr>lp_index = 0, lp_value = 16\<rparr>, \<lparr>lp_index = 1, lp_value = 32\<rparr>], fill_file_cache := \<lambda>_. [16, 0, 0, 0, 0, 0, 0, 0],
     get_pathname := \<lambda>_ _. ''/bin/x''\<rparr>"

definition vma_plugin :: utask where
  "vma_plugin = (task_example [])\<lparr>typetable := \<lambda>t. Some \<lparr>m_name = t, m_size = 8, m_offset = 0\<rparr>\<rparr>"

lemma init_vma_indices_witness:
  "\<exists>ut'. init_vma vma_session \<lparr>tc_task = 7, tc_thread_info = 0, tc_pid = 1, tc_comm = ''init'', tc_mm_struct = 0\<rparr> vma_plugin = Some ut' \<and> vma_index_ok ut' \<and>
     file_map ut' ''/bin/x'' = Some \<lparr>fv_text = None, fv_data = [0, 1], fv_bss = None\<rparr> \<and> length (vma_list ut') = 2"
proof -
  have f: "field_offset (vma_plugin\<lparr>file_map := x, file_list := y, vma_list := z\<rparr>) t m = 0" 
    "type_size (vma_plugin\<lparr>file_map := x, file_list := y, vma_list := z\<rparr>) t = 8" 
    "field_offset vma_plugin t m = 0" "type_size vma_plugin t = 8" for t m x y z
    by (simp_all add: vma_plugin_def type_offset_def type_size_def)
  define v where "v a = \<lparr>vm_name = ''/bin/x'', vm_addr = a, vm_start = 0xffff000000000001, vm_end = 0xffff000000000001, vm_size = 0,
    vm_flags = 0xffff000000000001, vm_file = 0xffff000000000001, vm_pgoff = 0xffff000000000001, anon_name = 0xffff000000000001,
    anon_vma = 0xffff000000000001, vm_data = []\<rparr>" for a
  have step: "init_vma_step vma_session tc a (ut, prev) = Some (ut\<lparr>file_map := add_file_vma (file_map ut) (length (vma_list ut)) (v a),
      file_list := file_list ut @ [length (vma_list ut)], vma_list := vma_list ut @ [v a]\<rparr>, Some ''/bin/x'')"
    if "\<And>t m. field_offset ut t m = 0" "\<And>t. type_size ut t = 8" for ut prev a tc
    by (simp add: that init_vma_step_def read_struct_def vma_session_def ones_session_def vma_of_bytes_def ULONG_def load_def
      vma_file_path_def v_def Let_def)
  have "for_each_vma vma_session vma_plugin 7 = Some [16, 32]"
    by (simp add: for_each_vma_def f for_each_mptree_def Let_def vma_session_def ones_session_def read_pointer_def read_memory_def
      empty_session_def LINUX_def)
  then have "\<exists>ut'. init_vma vma_session \<lparr>tc_task = 7, tc_thread_info = 0, tc_pid = 1, tc_comm = ''init'', tc_mm_struct = 0\<rparr> vma_plugin = Some ut' \<and>
     file_map ut' ''/bin/x'' = Some \<lparr>fv_text = None, fv_data = [0, 1], fv_bss = None\<rparr> \<and> length (vma_list ut') = 2"
    by (simp add: init_vma_def step f)
      (simp add: vma_plugin_def task_example_def blank_utask_def plugin.defs add_file_vma_def v_def VM_READ_def VM_EXEC_def)
  moreover have "vma_index_ok vma_plugin"
    by (simp add: vma_index_ok_def vma_plugin_def task_example_def blank_utask_def plugin.defs)
  ultimately show ?thesis using init_vma_indices by blast
qed


text \<open>A vector of an entry, a terminator and rubbish after it.\<close>

definition auxv_bytes :: "byte list" where
  "auxv_bytes = [6, 0, 0, 0, 0, 0, 0, 0, 0, 16, 0, 0, 0, 0, 0, 0, 0, 0, 0, 0, 0, 0, 0, 0, 0, 0, 0, 0, 0, 0, 0, 0,
     9, 0, 0, 0, 0, 0, 0, 0, 9, 0, 0, 0, 0, 0, 0, 0]"

definition auxv_session :: crash where
  "auxv_session = empty_session\<lparr>readmem := \<lambda>_ _ n. Some auxv_bytes\<rparr>"

definition auxv_task :: utask where
  "auxv_task = (task_example [])\<lparr>typetable := [''mm_struct@saved_auxv'' \<mapsto> \<lparr>m_name = ''saved_auxv'', m_size = 48, m_offset = 0\<rparr>]\<rparr>"

lemma auxv_bytes_entries:
  "auxv_entry False (mask 48) auxv_bytes 0 = Some (6, 4096)"
  "auxv_entry False (mask 48) auxv_bytes (Suc 0) = Some (0, 0)"
  "auxv_entry False (mask 48) auxv_bytes (Suc (Suc 0)) = Some (9, 9)"
  by (simp_all add: auxv_entry_def auxv_bytes_def ULONG_def load_def mask_eq_exp_minus_1)

lemma init_auxv_entries_witness:
  "init_auxv auxv_session \<lparr>tc_task = 7, tc_thread_info = 0, tc_pid = 1, tc_comm = ''init'', tc_mm_struct = 0\<rparr> auxv_task =
     Some (auxv_task\<lparr>auxv_list := [6 \<mapsto> 4096]\<rparr>)"
proof -
  let ?es = "[(6, 4096), (0, 0), (9, 9)] :: (ulong \<times> ulong) list"
  let ?tc = "\<lparr>tc_task = 7, tc_thread_info = 0, tc_pid = 1, tc_comm = ''init'', tc_mm_struct = 0\<rparr>"
  have t: "field_size auxv_task ''mm_struct'' ''saved_auxv'' = 48" "compat auxv_task = False" "vaddr_mask auxv_task = mask 48"
    "auxv_list auxv_task = Map.empty"
    by (simp_all add: auxv_task_def field_size_def task_example_def blank_utask_def plugin.defs)
  have b: "read_auxv auxv_session ?tc auxv_task = Some auxv_bytes"
    unfolding read_auxv_def t by (simp add: read_memory_def auxv_session_def)
  have e: "\<forall>i < length ?es. auxv_entry (compat auxv_task) (vaddr_mask auxv_task) auxv_bytes i = Some (?es ! i)"
    unfolding t by (simp add: All_less_Suc auxv_bytes_entries)
  have l: "length ?es = nat (to_int32 (off (field_size auxv_task ''mm_struct'' ''saved_auxv'') div (if \<not> compat auxv_task then 16 else 8)))"
    unfolding t by (simp add: to_int32_def)
  from init_auxv_entries [OF b l e] show ?thesis by (simp add: t)
qed

end
