(* ===== verification/Props.thy ===== *)
theory Props
  imports UTask "HOL-Library.AList" "HOL-Library.Multiset"
begin

text \<open>
  The Android properties (\<^verbatim>\<open>src/property/propinfo.cpp\<close>, \<^verbatim>\<open>propinfo.h\<close>): a property area is a trie of nodes
  inside one file mapping of the init process, each node a binary search tree over the children of its
  parent. The class reads it twice, once out of the copies of the mapped areas (\<^verbatim>\<open>parser_prop_by_init\<close>) and
  once through user addresses taken from the C library (\<^verbatim>\<open>parser_propertys\<close>).
\<close>

section \<open>Data\<close>

text \<open>The three structures as they lie in the area; \<^verbatim>\<open>prop_area\<close> has 128 bytes, \<^verbatim>\<open>prop_bt\<close> 20, \<^verbatim>\<open>prop_info\<close> 96.\<close>

record prop_area =
  bytes_used :: uint
  pa_serial :: uint
  pa_magic :: uint
  pa_version :: uint

record prop_bt =
  namelen :: uint
  bt_prop :: uint
  bt_left :: uint
  bt_right :: uint
  bt_children :: uint

record offset_list =
  SystemProperties_contexts :: int
  ContextsSerialized_context_nodes :: int
  ContextsSerialized_num_context_nodes :: int
  ContextsSerialized_serial_prop_area :: int
  ContextNode_pa :: int
  ContextNode_filename :: int
  ContextNode_context :: int
  prop_bt_prop :: int
  prop_area_data :: int
  prop_info_name :: int

text \<open>
  The swap reader is shared with the task object: while there is one, its state is the one the task
  object holds. The property map is a hash table without a specified order; here the order is that of
  insertion.
\<close>

record propinfo = plugin +
  tc_init :: "task_context option"
  is_compat :: bool
  pa_size :: ulong
  pa_data_size :: ulong
  g_offset :: offset_list
  g_size_ContextNode :: int
  pi_swap_ptr :: swapinfo
  task_ptr :: "utask option"
  prop_map :: "(string \<times> string) list"
  symbol_list :: "(string \<times> string) list"

definition prop_fields :: "init_stmt list" where
  "prop_fields =
    [Field ''SystemProperties'' ''contexts_'', Field ''ContextsSerialized'' ''context_nodes_'',
     Field ''ContextsSerialized'' ''num_context_nodes_'', Field ''ContextsSerialized'' ''serial_prop_area_'',
     Field ''ContextNode'' ''pa_'', Field ''ContextNode'' ''filename_'', Field ''ContextNode'' ''context_'',
     Field ''prop_bt'' ''prop'', Field ''prop_area'' ''data_'', Field ''prop_info'' ''name'', Struct ''ContextNode'']"

text \<open>Without debug information the layout of the C library is assumed.\<close>

definition default_offsets :: "bool \<Rightarrow> offset_list" where
  "default_offsets is32 =
     \<lparr>SystemProperties_contexts = (if \<not> is32 then 64 else 32),
      ContextsSerialized_context_nodes = (if \<not> is32 then 32 else 16),
      ContextsSerialized_num_context_nodes = (if \<not> is32 then 40 else 20),
      ContextsSerialized_serial_prop_area = (if \<not> is32 then 56 else 28),
      ContextNode_pa = (if \<not> is32 then 16 else 12), ContextNode_filename = (if \<not> is32 then 32 else 20),
      ContextNode_context = 8, prop_bt_prop = 4, prop_area_data = 128, prop_info_name = 96\<rparr>"

definition debug_offsets :: "'a plugin_scheme \<Rightarrow> offset_list" where
  "debug_offsets pl =
     \<lparr>SystemProperties_contexts = field_offset pl ''SystemProperties'' ''contexts_'',
      ContextsSerialized_context_nodes = field_offset pl ''ContextsSerialized'' ''context_nodes_'',
      ContextsSerialized_num_context_nodes = field_offset pl ''ContextsSerialized'' ''num_context_nodes_'',
      ContextsSerialized_serial_prop_area = field_offset pl ''ContextsSerialized'' ''serial_prop_area_'',
      ContextNode_pa = field_offset pl ''ContextNode'' ''pa_'', ContextNode_filename = field_offset pl ''ContextNode'' ''filename_'',
      ContextNode_context = field_offset pl ''ContextNode'' ''context_'', prop_bt_prop = field_offset pl ''prop_bt'' ''prop'',
      prop_area_data = field_offset pl ''prop_area'' ''data_'', prop_info_name = field_offset pl ''prop_info'' ''name''\<rparr>"

definition prop_init_offset :: "crash \<Rightarrow> propinfo \<Rightarrow> propinfo" where
  "prop_init_offset cr pl =
     (let pl = run_inits cr prop_fields pl in
      if field_offset pl ''prop_area'' ''data_'' = -1
      then pl\<lparr>g_offset := default_offsets (is_compat pl), g_size_ContextNode := (if \<not> is_compat pl then 40 else 24)\<rparr>
      else pl\<lparr>g_offset := debug_offsets pl, g_size_ContextNode := type_size pl ''ContextNode''\<rparr>)"

text \<open>
  The constructor sets the members that have an initialiser. The others (\<^verbatim>\<open>is_compat\<close> among them, which nothing
  sets later) keep what the memory held, the argument \<open>raw\<close>.
\<close>

definition PropInfo :: "crash \<Rightarrow> propinfo \<Rightarrow> swapinfo \<Rightarrow> propinfo option" where
  "PropInfo cr raw swap = do {
     base \<leftarrow> ParserPlugin cr;
     Some (raw\<lparr>typetable := typetable base, kaddr_mask := kaddr_mask base, pi_swap_ptr := swap, task_ptr := None,
       prop_map := [], symbol_list := [(''libc.so'', '''')]\<rparr>) }"

definition get_symbol_file :: "propinfo \<Rightarrow> string \<Rightarrow> string" where
  "get_symbol_file pl name =
     (case List.find (\<lambda>(n, path). n = name) (symbol_list pl) of Some (n, path) \<Rightarrow> path | None \<Rightarrow> '''')"

section \<open>Bytes of the structures\<close>

definition area_of_bytes :: "byte list \<Rightarrow> prop_area option" where
  "area_of_bytes buf =
     (if length buf < 128 then None
      else do {
        used \<leftarrow> UINT buf 0; serial \<leftarrow> UINT buf 4; magic \<leftarrow> UINT buf 8; version \<leftarrow> UINT buf 12;
        Some \<lparr>bytes_used = used, pa_serial = serial, pa_magic = magic, pa_version = version\<rparr> })"

definition bt_of_bytes :: "byte list \<Rightarrow> prop_bt option" where
  "bt_of_bytes buf = do {
     len \<leftarrow> UINT buf 0; prop \<leftarrow> UINT buf 4; left \<leftarrow> UINT buf 8; right \<leftarrow> UINT buf 12; children \<leftarrow> UINT buf 16;
     Some \<lparr>namelen = len, bt_prop = prop, bt_left = left, bt_right = right, bt_children = children\<rparr> }"

definition cleanString :: "string \<Rightarrow> string" where
  "cleanString str =
     (let tempStr = takeWhile (\<lambda>c. c \<noteq> CHR 0x00) str;
          tempStr = dropWhile is_space tempStr;
          tempStr = rev (dropWhile is_space (rev tempStr)) in
      if \<not> list_ex (\<lambda>c. c \<noteq> CHR 0x00 \<and> \<not> is_space c) tempStr then '''' else tempStr)"

section \<open>The area as the init process maps it\<close>

text \<open>
  The walk over the copy of one area. Only the node and the first 92 bytes after a property's offset are
  tested against the length; the value takes 96 bytes and the name 100 more.
\<close>

definition area_prop :: "ulong \<Rightarrow> byte list \<Rightarrow> uint \<Rightarrow> (string \<times> string) list \<Rightarrow> (string \<times> string) list option" where
  "area_prop vma_len vma_data prop m =
     (if prop \<noteq> 0 \<and> 128 + ucast prop + 92 < vma_len
      then do {
        value \<leftarrow> load 92 vma_data (128 + uint prop + 4);
        name \<leftarrow> load 100 vma_data (128 + uint prop + 96);
        let cleanedValue = cleanString (to_string value);
        let cleanedName = cleanString (to_string name);
        Some (if cleanedValue \<noteq> '''' \<and> cleanedName \<noteq> '''' then AList.update cleanedName cleanedValue m else m) }
      else Some m)"

partial_function (option) for_each_prop ::
  "ulong \<Rightarrow> byte list \<Rightarrow> uint \<Rightarrow> (string \<times> string) list \<Rightarrow> (bool \<times> (string \<times> string) list) option" where
  "for_each_prop vma_len vma_data prop_bt_off m =
     (if 128 + ucast prop_bt_off + 20 > vma_len then Some (False, m)
      else do {
        pb \<leftarrow> bt_of_bytes (drop (128 + unat prop_bt_off) vma_data);
        (ok, m) \<leftarrow> (if bt_left pb \<noteq> 0 then for_each_prop vma_len vma_data (bt_left pb) m else Some (True, m));
        if \<not> ok then Some (False, m)
        else do {
          m \<leftarrow> area_prop vma_len vma_data (bt_prop pb) m;
          (ok, m) \<leftarrow> (if bt_children pb \<noteq> 0 then for_each_prop vma_len vma_data (bt_children pb) m else Some (True, m));
          if \<not> ok then Some (False, m)
          else if bt_right pb \<noteq> 0 then for_each_prop vma_len vma_data (bt_right pb) m else Some (True, m) } })"

text \<open>The process is looked for by name and then by number, and its task object is built once.\<close>

definition find_init :: "crash \<Rightarrow> propinfo \<Rightarrow> propinfo option" where
  "find_init cr pl = do {
     tc \<leftarrow> find_proc_name cr pl ''init'';
     tc \<leftarrow> (case tc of Some tc \<Rightarrow> Some (Some tc) | None \<Rightarrow> find_proc_pid cr pl 1);
     Some (pl\<lparr>tc_init := tc\<rparr>) }"

definition make_task :: "crash \<Rightarrow> propinfo \<Rightarrow> propinfo option" where
  "make_task cr pl = do {
     tc \<leftarrow> tc_init pl;
     case task_ptr pl of
       Some ut \<Rightarrow> Some pl
     | None \<Rightarrow> do { ut \<leftarrow> UTask cr (pi_swap_ptr pl) (tc_task tc); Some (pl\<lparr>task_ptr := Some ut\<rparr>) } }"

definition init_area_step :: "crash \<Rightarrow> nat \<Rightarrow> string list \<times> propinfo \<Rightarrow> (string list \<times> propinfo) option" where
  "init_area_step cr i = (\<lambda>(prop_files, pl). do {
     ut \<leftarrow> task_ptr pl;
     let name = vm_name (vma_list ut ! i);
     if \<not> contains name ''u:object_r:'' \<or> name \<in> set prop_files then Some (prop_files, pl)
     else do {
       let prop_files = name # prop_files;
       ut \<leftarrow> load_vma cr ut i;
       let pl = pl\<lparr>task_ptr := Some ut\<rparr>;
       let vma = vma_list ut ! i;
       if vm_data vma = [] then Some (prop_files, pl)
       else do {
         pb \<leftarrow> bt_of_bytes (drop 128 (vm_data vma));
         if bt_children pb = 0 then Some (prop_files, pl)
         else do {
           (ok, m) \<leftarrow> for_each_prop (vm_size vma) (vm_data vma) (bt_children pb) (prop_map pl);
           Some (prop_files, pl\<lparr>prop_map := m\<rparr>) } } } })"

text \<open>
  \<^verbatim>\<open>init_offset\<close> is virtual: an object of the derived class \<^verbatim>\<open>Prop\<close> runs its empty one. The operations take it
  as their first argument.
\<close>

definition parser_prop_by_init :: "(propinfo \<Rightarrow> propinfo) \<Rightarrow> crash \<Rightarrow> propinfo \<Rightarrow> propinfo option" where
  "parser_prop_by_init init cr pl = do {
     pl \<leftarrow> find_init cr pl;
     if tc_init pl = None then Some pl
     else do {
       pl \<leftarrow> make_task cr pl;
       let pl = init pl;
       ut \<leftarrow> task_ptr pl;
       (prop_files, pl) \<leftarrow> fold_opt (init_area_step cr) (file_list ut) ([], pl);
       Some pl } }"

section \<open>The area through the C library\<close>

definition with_task :: "(utask \<Rightarrow> (utask \<times> 'r) option) \<Rightarrow> propinfo \<Rightarrow> (propinfo \<times> 'r) option" where
  "with_task f pl = do { ut \<leftarrow> task_ptr pl; (ut, r) \<leftarrow> f ut; Some (pl\<lparr>task_ptr := Some ut\<rparr>, r) }"

definition init_uvaddr :: "crash \<Rightarrow> propinfo \<Rightarrow> ulong \<Rightarrow> bool" where
  "init_uvaddr cr pl a = (case tc_init pl of None \<Rightarrow> False | Some tc \<Rightarrow> IS_UVADDR cr a tc)"

text \<open>The value is copied up to its terminator, which has to lie in the 92 bytes of the member.\<close>

definition parser_prop_info :: "crash \<Rightarrow> ulong \<Rightarrow> propinfo \<Rightarrow> propinfo option" where
  "parser_prop_info cr prop_info_addr pl =
     (if \<not> init_uvaddr cr pl prop_info_addr then Some pl
      else do {
        (pl, prop_info_buf) \<leftarrow> with_task (\<lambda>ut. read_data cr ut prop_info_addr 96) pl;
        if length prop_info_buf = 0 then Some pl
        else do {
          val \<leftarrow> load 92 prop_info_buf 4;
          let name_addr = prop_info_addr + off (prop_info_name (g_offset pl));
          (pl, name) \<leftarrow> with_task (\<lambda>ut. ut_cstring cr ut name_addr 100) pl;
          if name = '''' then Some pl
          else if 0 \<in> set val then Some (pl\<lparr>prop_map := AList.update name (to_string (cstr val)) (prop_map pl)\<rparr>)
          else None } })"

definition in_area :: "propinfo \<Rightarrow> uint \<Rightarrow> bool" where
  "in_area pl o' \<longleftrightarrow> 0 < o' \<and> ucast o' < pa_data_size pl"

partial_function (option) parser_prop_bt :: "crash \<Rightarrow> ulong \<Rightarrow> ulong \<Rightarrow> propinfo \<Rightarrow> propinfo option" where
  "parser_prop_bt cr root prop_bt_addr pl =
     (if \<not> init_uvaddr cr pl prop_bt_addr then Some pl
      else do {
        (pl, prop_bt_buf) \<leftarrow> with_task (\<lambda>ut. read_data cr ut prop_bt_addr 20) pl;
        if length prop_bt_buf = 0 then Some pl
        else do {
          bt \<leftarrow> bt_of_bytes prop_bt_buf;
          pl \<leftarrow> (if in_area pl (bt_prop bt) then parser_prop_info cr (root + ucast (bt_prop bt)) pl else Some pl);
          pl \<leftarrow> (if in_area pl (bt_left bt) then parser_prop_bt cr root (root + ucast (bt_left bt)) pl else Some pl);
          pl \<leftarrow> (if in_area pl (bt_right bt) then parser_prop_bt cr root (root + ucast (bt_right bt)) pl else Some pl);
          if in_area pl (bt_children bt) then parser_prop_bt cr root (root + ucast (bt_children bt)) pl else Some pl } })"

definition parser_prop_area :: "crash \<Rightarrow> ulong \<Rightarrow> propinfo \<Rightarrow> (propinfo \<times> bool) option" where
  "parser_prop_area cr area_vaddr pl =
     (if \<not> init_uvaddr cr pl area_vaddr then Some (pl, False)
      else do {
        (pl, prop_area_buf) \<leftarrow> with_task (\<lambda>ut. read_data cr ut area_vaddr 128) pl;
        if length prop_area_buf = 0 then Some (pl, False)
        else do {
          area \<leftarrow> area_of_bytes prop_area_buf;
          if pa_magic area \<noteq> 0x504f5250 then Some (pl, False)
          else do {
            let data_addr = area_vaddr + off (prop_area_data (g_offset pl));
            pl \<leftarrow> (if bytes_used area > 0 then parser_prop_bt cr data_addr data_addr pl else Some pl);
            Some (pl, True) } } })"

text \<open>A pointer read from the task, with the tag bits masked off.\<close>

definition masked_pointer :: "crash \<Rightarrow> ulong \<Rightarrow> propinfo \<Rightarrow> (propinfo \<times> ulong) option" where
  "masked_pointer cr a = with_task (\<lambda>ut. do { (ut, v) \<leftarrow> ut_ulong cr ut a; Some (ut, v AND vaddr_mask ut) })"

definition context_node_step :: "crash \<Rightarrow> ulong \<Rightarrow> nat \<Rightarrow> propinfo \<Rightarrow> propinfo option" where
  "context_node_step cr context_nodes_addr i pl = do {
     let node_addr = context_nodes_addr + of_nat i * off (g_size_ContextNode pl);
     if \<not> init_uvaddr cr pl node_addr then Some pl
     else do {
       (pl, prop_area_addr) \<leftarrow> masked_pointer cr (node_addr + off (ContextNode_pa (g_offset pl))) pl;
       (pl, context_addr) \<leftarrow> masked_pointer cr (node_addr + off (ContextNode_context (g_offset pl))) pl;
       (pl, filename_addr) \<leftarrow> masked_pointer cr (node_addr + off (ContextNode_filename (g_offset pl))) pl;
       (pl, context) \<leftarrow> with_task (\<lambda>ut. ut_cstring cr ut context_addr 100) pl;
       (pl, filename) \<leftarrow> with_task (\<lambda>ut. ut_cstring cr ut filename_addr 100) pl;
       (pl, ok) \<leftarrow> parser_prop_area cr prop_area_addr pl;
       Some pl } }"

text \<open>A variable of the C library; \<open>elf\<close> stands for the two ELF readers of the task object.\<close>

type_synonym elf_readers = "(string \<Rightarrow> string \<Rightarrow> ulong \<times> int) \<times> (string \<Rightarrow> string \<Rightarrow> ulong)"

definition libc_var :: "crash \<Rightarrow> elf_readers \<Rightarrow> string \<Rightarrow> string \<Rightarrow> propinfo \<Rightarrow> ulong option" where
  "libc_var cr elf symbol_file v pl = do {
     ut \<leftarrow> task_ptr pl;
     get_var_addr_by_bss cr (fst elf) (snd elf) ut symbol_file v }"

definition parser_contexts :: "crash \<Rightarrow> ulong \<Rightarrow> propinfo \<Rightarrow> (propinfo \<times> bool) option" where
  "parser_contexts cr system_prop_addr pl = do {
     (pl, contexts_addr) \<leftarrow> masked_pointer cr (system_prop_addr + off (SystemProperties_contexts (g_offset pl))) pl;
     if \<not> init_uvaddr cr pl contexts_addr then Some (pl, False)
     else do {
       (pl, num) \<leftarrow> with_task (\<lambda>ut. ut_ulong cr ut (contexts_addr + off (ContextsSerialized_num_context_nodes (g_offset pl)))) pl;
       (pl, context_nodes_addr) \<leftarrow> masked_pointer cr (contexts_addr + off (ContextsSerialized_context_nodes (g_offset pl))) pl;
       (pl, serial_addr) \<leftarrow> masked_pointer cr (contexts_addr + off (ContextsSerialized_serial_prop_area (g_offset pl))) pl;
       if \<not> init_uvaddr cr pl serial_addr \<or> \<not> init_uvaddr cr pl context_nodes_addr then Some (pl, False)
       else do {
         pl \<leftarrow> fold_opt (context_node_step cr context_nodes_addr) [0..<unat num] pl;
         Some (pl, True) } } }"

definition parser_propertys :: "(propinfo \<Rightarrow> propinfo) \<Rightarrow> crash \<Rightarrow> elf_readers \<Rightarrow> propinfo \<Rightarrow> (propinfo \<times> bool) option" where
  "parser_propertys init cr elf pl = do {
     pl \<leftarrow> find_init cr pl;
     if tc_init pl = None then Some (pl, False)
     else do {
       pl \<leftarrow> make_task cr pl;
       let symbol_file = get_symbol_file pl ''libc.so'';
       if symbol_file = '''' then Some (pl, False)
       else do {
         let pl = init pl;
         pa_size_addr \<leftarrow> libc_var cr elf symbol_file ''pa_size_'' pl;
         if \<not> init_uvaddr cr pl pa_size_addr then Some (pl, False)
         else do {
           (pl, n) \<leftarrow> with_task (\<lambda>ut. ut_ulong cr ut pa_size_addr) pl;
           let pl = pl\<lparr>pa_size := n\<rparr>;
           pa_data_size_addr \<leftarrow> libc_var cr elf symbol_file ''pa_data_size_'' pl;
           if \<not> init_uvaddr cr pl pa_data_size_addr then Some (pl, False)
           else do {
             (pl, n) \<leftarrow> with_task (\<lambda>ut. ut_ulong cr ut pa_data_size_addr) pl;
             let pl = pl\<lparr>pa_data_size := n\<rparr>;
             system_prop_addr \<leftarrow> libc_var cr elf symbol_file ''system_properties'' pl;
             if \<not> init_uvaddr cr pl system_prop_addr then Some (pl, False)
             else parser_contexts cr system_prop_addr pl } } } } }"

text \<open>The task object is dropped after a parse; what its swap reader has learnt stays.\<close>

definition reset_task :: "propinfo \<Rightarrow> propinfo" where
  "reset_task pl = (case task_ptr pl of None \<Rightarrow> pl | Some ut \<Rightarrow> pl\<lparr>task_ptr := None, pi_swap_ptr := swap_ptr ut\<rparr>)"

definition get_prop :: "(propinfo \<Rightarrow> propinfo) \<Rightarrow> crash \<Rightarrow> elf_readers \<Rightarrow> string \<Rightarrow> propinfo \<Rightarrow> (propinfo \<times> string) option" where
  "get_prop init cr elf name pl = do {
     pl \<leftarrow> (if prop_map pl = []
            then do {
              pl \<leftarrow> parser_prop_by_init init cr pl;
              (pl, ok) \<leftarrow> parser_propertys init cr elf pl;
              Some (reset_task pl) }
            else Some pl);
     Some (pl, case map_of (prop_map pl) name of Some v \<Rightarrow> v | None \<Rightarrow> '''') }"

text \<open>The command \<^verbatim>\<open>getprop -a\<close> runs the two parsers in the other order, on an object of the class \<^verbatim>\<open>Prop\<close>.\<close>

definition Prop_all :: "crash \<Rightarrow> elf_readers \<Rightarrow> propinfo \<Rightarrow> propinfo option" where
  "Prop_all cr elf pl =
     (if prop_map pl = []
      then do {
        (pl, ok) \<leftarrow> parser_propertys id cr elf pl;
        pl \<leftarrow> parser_prop_by_init id cr pl;
        Some (reset_task pl) }
      else Some pl)"

section \<open>Laws: the tree of an area\<close>

text \<open>
  The trie an area holds: a node with its offset, the offset of its property, its left and right
  siblings in the search tree and its children. An offset of 0 stands for no node.
\<close>

datatype prop_tree = Absent | PropNode uint uint prop_tree prop_tree prop_tree

fun tree_off :: "prop_tree \<Rightarrow> uint" where
  "tree_off Absent = 0"
| "tree_off (PropNode ofs p l r c) = ofs"

fun tree_props :: "prop_tree \<Rightarrow> uint list" where
  "tree_props Absent = []"
| "tree_props (PropNode ofs p l r c) = tree_props l @ [p] @ tree_props c @ tree_props r"

definition node_at :: "byte list \<Rightarrow> uint \<Rightarrow> prop_bt option" where
  "node_at d ofs = bt_of_bytes (drop (128 + unat ofs) d)"

fun area_tree :: "nat \<Rightarrow> byte list \<Rightarrow> prop_tree \<Rightarrow> bool" where
  "area_tree n d Absent \<longleftrightarrow> True"
| "area_tree n d (PropNode ofs p l r c) \<longleftrightarrow>
     ofs \<noteq> 0 \<and> 148 + unat ofs \<le> n \<and>
     (case node_at d ofs of None \<Rightarrow> False
      | Some b \<Rightarrow> bt_prop b = p \<and> bt_left b = tree_off l \<and> bt_right b = tree_off r \<and> bt_children b = tree_off c) \<and>
     area_tree n d l \<and> area_tree n d r \<and> area_tree n d c"

lemma tree_off_eq_0: "area_tree n d t \<Longrightarrow> tree_off t = 0 \<longleftrightarrow> t = Absent"
  by (cases t) auto

definition prop_value :: "byte list \<Rightarrow> uint \<Rightarrow> byte list" where
  "prop_value d p = take 92 (drop (132 + unat p) d)"

definition prop_name :: "byte list \<Rightarrow> uint \<Rightarrow> byte list" where
  "prop_name d p = take 100 (drop (224 + unat p) d)"

text \<open>What a property adds to the map: nothing when it lies too far out, or when its name or value is blank.\<close>

definition prop_entry :: "nat \<Rightarrow> byte list \<Rightarrow> uint \<Rightarrow> (string \<times> string) list" where
  "prop_entry n d p =
     (let e = (cleanString (to_string (prop_name d p)), cleanString (to_string (prop_value d p))) in
      if p \<noteq> 0 \<and> 220 + unat p < n \<and> fst e \<noteq> '''' \<and> snd e \<noteq> '''' then [e] else [])"

definition put_all :: "(string \<times> string) list \<Rightarrow> (string \<times> string) list \<Rightarrow> (string \<times> string) list" where
  "put_all = fold (\<lambda>(k, v). AList.update k v)"

lemma put_all_simps [simp]:
  "put_all [] m = m" "put_all ((k, v) # es) m = put_all es (AList.update k v m)"
  "put_all (es @ fs) m = put_all fs (put_all es m)"
  by (simp_all add: put_all_def)

definition names_inside :: "nat \<Rightarrow> byte list \<Rightarrow> uint list \<Rightarrow> bool" where
  "names_inside n d ps \<longleftrightarrow> list_all (\<lambda>p. p \<noteq> 0 \<and> 220 + unat p < n \<longrightarrow> 324 + unat p \<le> length d) ps"

lemma ucast_sum: "unat (128 + ucast (x :: uint) + of_nat k :: ulong) = 128 + unat x + k" if "k < 2 ^ 32"
proof -
  have "unat x < 2 ^ 32" using unat_less_power [of x] by simp
  then have "128 + unat x + k < 2 ^ 64" using that by simp
  moreover have "(128 + ucast x + of_nat k :: ulong) = of_nat (128 + unat x + k)" by simp
  ultimately show ?thesis using unat_of_nat_small [of "128 + unat x + k", where 'a = 64] by simp
qed

lemma area_prop_entry:
  assumes "names_inside (unat n) d [p]"
  shows "area_prop n d p m = Some (put_all (prop_entry (unat n) d p) m)"
proof -
  have lt: "128 + ucast p + 92 < n \<longleftrightarrow> 220 + unat p < unat n"
    unfolding word_less_nat_alt using ucast_sum [of 92 p] by (simp del: add_numeral_left)
  have up: "nat (132 + uint p) = 132 + unat p" "nat (224 + uint p) = 224 + unat p" by (simp_all add: nat_add_distrib)
  show ?thesis
    using assms lt up
    by (auto simp: area_prop_def prop_entry_def names_inside_def load_def Let_def prop_value_def prop_name_def add.commute)
qed

lemma for_each_prop_tree_walk:
  assumes "area_tree (unat n) d t" "t \<noteq> Absent" "names_inside (unat n) d (tree_props t)"
  shows "for_each_prop n d (tree_off t) m = Some (True, put_all (concat (map (prop_entry (unat n) d) (tree_props t))) m)"
  using assms
proof (induction t arbitrary: m)
  case (PropNode ofs p l r c)
  obtain b where b: "bt_of_bytes (drop (128 + unat ofs) d) = Some b" "bt_prop b = p" "bt_left b = tree_off l"
    "bt_right b = tree_off r" "bt_children b = tree_off c"
    using PropNode.prems(1) by (auto simp: node_at_def split: option.splits)
  have t: "area_tree (unat n) d l" "area_tree (unat n) d r" "area_tree (unat n) d c" and "148 + unat ofs \<le> unat n"
    using PropNode.prems(1) by auto
  then have le: "\<not> n < 128 + ucast ofs + 20" using ucast_sum [of 20 ofs] by (simp add: word_less_nat_alt)
  have ni: "names_inside (unat n) d [p]" "names_inside (unat n) d (tree_props l)" "names_inside (unat n) d (tree_props r)"
    "names_inside (unat n) d (tree_props c)"
    using PropNode.prems(3) by (auto simp: names_inside_def)
  have sub: "(if tree_off s \<noteq> 0 then for_each_prop n d (tree_off s) m else Some (True, m)) =
      Some (True, put_all (concat (map (prop_entry (unat n) d) (tree_props s))) m)"
    if "area_tree (unat n) d s" "s \<noteq> Absent \<Longrightarrow> for_each_prop n d (tree_off s) m =
      Some (True, put_all (concat (map (prop_entry (unat n) d) (tree_props s))) m)" for s m
    using that tree_off_eq_0 [OF that(1)] by (cases "s = Absent") auto
  have s: "(if tree_off l \<noteq> 0 then for_each_prop n d (tree_off l) m else Some (True, m)) =
      Some (True, put_all (concat (map (prop_entry (unat n) d) (tree_props l))) m)"
    "(if tree_off r \<noteq> 0 then for_each_prop n d (tree_off r) m else Some (True, m)) =
      Some (True, put_all (concat (map (prop_entry (unat n) d) (tree_props r))) m)"
    "(if tree_off c \<noteq> 0 then for_each_prop n d (tree_off c) m else Some (True, m)) =
      Some (True, put_all (concat (map (prop_entry (unat n) d) (tree_props c))) m)" for m
    using sub [OF t(1)] sub [OF t(2)] sub [OF t(3)] PropNode.IH(1) [OF t(1) _ ni(2)] PropNode.IH(2) [OF t(2) _ ni(3)]
      PropNode.IH(3) [OF t(3) _ ni(4)] by blast+
  show ?case
    unfolding tree_off.simps for_each_prop.simps [of n d ofs m] b bind.bind_lunit if_not_P [OF le] s
      area_prop_entry [OF ni(1)] prod.case
    by simp
qed simp

section \<open>Laws: the two parsers\<close>

text \<open>A property whose name and value are terminated and have no blanks around them.\<close>

definition clean_prop :: "byte list \<Rightarrow> uint \<Rightarrow> bool" where
  "clean_prop d p \<longleftrightarrow> p = 0 \<or> 324 + unat p \<le> length d \<and> 0 \<in> set (prop_name d p) \<and> 0 \<in> set (prop_value d p) \<and>
     cleanString (to_string (prop_name d p)) = to_string (cstr (prop_name d p)) \<and>
     cleanString (to_string (prop_value d p)) = to_string (cstr (prop_value d p)) \<and>
     cstr (prop_name d p) \<noteq> [] \<and> cstr (prop_value d p) \<noteq> []"

definition plain_entry :: "byte list \<Rightarrow> uint \<Rightarrow> (string \<times> string) list" where
  "plain_entry d p = (if p = 0 then [] else [(to_string (cstr (prop_name d p)), to_string (cstr (prop_value d p)))])"

lemma clean_prop_entry: "clean_prop d p \<Longrightarrow> prop_entry (length d) d p = plain_entry d p"
  by (auto simp: clean_prop_def prop_entry_def plain_entry_def to_string_def)

fun tree_offs :: "prop_tree \<Rightarrow> uint list" where
  "tree_offs Absent = []"
| "tree_offs (PropNode ofs p l r c) = ofs # p # tree_offs l @ tree_offs r @ tree_offs c"

text \<open>The order in which the walk through the C library meets the properties.\<close>

fun pre_props :: "prop_tree \<Rightarrow> uint list" where
  "pre_props Absent = []"
| "pre_props (PropNode ofs p l r c) = p # pre_props l @ pre_props r @ pre_props c"

lemma mset_pre_props: "mset (pre_props t) = mset (tree_props t)"
  by (induction t) simp_all

text \<open>The user memory of the task holds the area, and the whole of it can be read.\<close>

definition area_mapped :: "crash \<Rightarrow> utask \<Rightarrow> task_context \<Rightarrow> ulong \<Rightarrow> byte list \<Rightarrow> bool" where
  "area_mapped cr ut0 tc a d \<longleftrightarrow> ubytes cr ut0 a (length d) = d \<and>
     (\<forall>i < length d. IS_UVADDR cr (a + of_nat i) tc) \<and>
     (\<forall>i n. 0 < n \<and> i + n \<le> length d \<longrightarrow> readable cr ut0 n (a + of_nat i))"

lemma area_mapped_bytes:
  assumes "area_mapped cr ut0 tc a d" "i + n \<le> length d"
  shows "ubytes cr ut0 (a + of_nat i) n = take n (drop i d)"
proof -
  have "take n (drop i (ubytes cr ut0 a (length d))) = ubytes cr ut0 (a + of_nat i) n"
    using assms(2) by (auto simp: ubytes_def take_map drop_map add.assoc intro!: nth_equalityI)
  then show ?thesis using assms(1) by (simp add: area_mapped_def)
qed

definition task_of :: "crash \<Rightarrow> utask \<Rightarrow> propinfo \<Rightarrow> bool" where
  "task_of cr ut0 pl \<longleftrightarrow> (\<exists>ut. task_ptr pl = Some ut \<and> ut64_state cr ut0 ut)"

lemma with_task_read:
  assumes "area_mapped cr ut0 tc a d" "task_of cr ut0 pl" "0 < n" "i + n \<le> length d"
  shows "\<exists>ut. ut64_state cr ut0 ut \<and>
    with_task (\<lambda>ut. read_data cr ut (a + of_nat i) (int n)) pl = Some (pl\<lparr>task_ptr := Some ut\<rparr>, take n (drop i d))"
proof -
  obtain ut where "task_ptr pl = Some ut" "ut64_state cr ut0 ut" using assms(2) by (auto simp: task_of_def)
  moreover have "readable cr ut0 n (a + of_nat i)" using assms by (auto simp: area_mapped_def)
  ultimately show ?thesis
    using readable_reads [of cr ut0 ut n "a + of_nat i"] area_mapped_bytes [OF assms(1,4)] by (auto simp: with_task_def)
qed

lemma with_task_cstring:
  assumes "area_mapped cr ut0 tc a d" "task_of cr ut0 pl" "0 < n" "i + n \<le> length d" "0 \<in> set (take n (drop i d))"
  shows "\<exists>ut. ut64_state cr ut0 ut \<and>
    with_task (\<lambda>ut. ut_cstring cr ut (a + of_nat i) (int n)) pl =
      Some (pl\<lparr>task_ptr := Some ut\<rparr>, to_string (cstr (take n (drop i d))))"
proof -
  obtain ut where ut: "ut64_state cr ut0 ut"
    "with_task (\<lambda>ut. read_data cr ut (a + of_nat i) (int n)) pl = Some (pl\<lparr>task_ptr := Some ut\<rparr>, take n (drop i d))"
    using with_task_read [OF assms(1-4)] by blast
  obtain ut1 where u1: "task_ptr pl = Some ut1" using assms(2) by (auto simp: task_of_def)
  then obtain ut2 where r: "read_data cr ut1 (a + of_nat i) (int n) = Some (ut2, take n (drop i d))"
      "pl\<lparr>task_ptr := Some ut2\<rparr> = pl\<lparr>task_ptr := Some ut\<rparr>"
    using ut(2) by (auto simp: with_task_def bind_eq_Some_conv)
  have "length (take n (drop i d)) \<noteq> 0" using assms(3,4) by simp
  then show ?thesis
    using r ut(1) u1 assms(5) by (auto simp: with_task_def ut_cstring_def)
qed

text \<open>What the walk through the C library relies on of the object.\<close>

definition walk_ready :: "crash \<Rightarrow> utask \<Rightarrow> task_context \<Rightarrow> propinfo \<Rightarrow> bool" where
  "walk_ready cr ut0 tc pl \<longleftrightarrow> task_of cr ut0 pl \<and> tc_init pl = Some tc \<and>
     prop_area_data (g_offset pl) = 128 \<and> prop_info_name (g_offset pl) = 96"

text \<open>The state after a walk that has added some entries.\<close>

definition walked :: "crash \<Rightarrow> utask \<Rightarrow> propinfo \<Rightarrow> (string \<times> string) list \<Rightarrow> propinfo \<Rightarrow> bool" where
  "walked cr ut0 pl es pl' \<longleftrightarrow>
     (\<exists>ut. ut64_state cr ut0 ut \<and> pl' = pl\<lparr>task_ptr := Some ut, prop_map := put_all es (prop_map pl)\<rparr>)"

lemma walked_ready: "walked cr ut0 pl es pl' \<Longrightarrow> walk_ready cr ut0 tc pl \<Longrightarrow> walk_ready cr ut0 tc pl'"
  "walked cr ut0 pl es pl' \<Longrightarrow> pa_data_size pl' = pa_data_size pl"
  by (auto simp: walked_def walk_ready_def task_of_def)

lemma walked_trans: "walked cr ut0 pl es pl1 \<Longrightarrow> walked cr ut0 pl1 fs pl2 \<Longrightarrow> walked cr ut0 pl (es @ fs) pl2"
  by (auto simp: walked_def)

lemma walked_refl: "walk_ready cr ut0 tc pl \<Longrightarrow> walked cr ut0 pl [] pl"
  unfolding walked_def walk_ready_def task_of_def by (metis propinfo.surjective propinfo.update_convs(8,9) put_all_simps(1))

lemma in_area_walked: "walked cr ut0 pl es pl' \<Longrightarrow> in_area pl' x = in_area pl x"
  by (auto simp: in_area_def walked_def)

lemma init_uvaddr_mapped:
  assumes "area_mapped cr ut0 tc a d" "walk_ready cr ut0 tc pl" "i < length d"
  shows "init_uvaddr cr pl (a + of_nat i)"
  using assms by (simp add: init_uvaddr_def walk_ready_def area_mapped_def)

lemma parser_prop_info_walked:
  assumes "area_mapped cr ut0 tc a d" "walk_ready cr ut0 tc pl" "clean_prop d p" "p \<noteq> 0"
  shows "\<exists>pl'. parser_prop_info cr (a + 128 + ucast p) pl = Some pl' \<and> walked cr ut0 pl (plain_entry d p) pl'"
proof -
  have len: "324 + unat p \<le> length d" using assms(3,4) by (simp add: clean_prop_def)
  have addr: "a + 128 + ucast p = a + of_nat (128 + unat p)" "a + of_nat (128 + unat p) + 96 = a + of_nat (224 + unat p)"
    by (simp_all add: add.assoc)
  have t: "task_of cr ut0 pl" and g: "prop_info_name (g_offset pl) = 96" using assms(2) by (auto simp: walk_ready_def)
  obtain ut where ut: "ut64_state cr ut0 ut" "with_task (\<lambda>ut. read_data cr ut (a + of_nat (128 + unat p)) 96) pl =
      Some (pl\<lparr>task_ptr := Some ut\<rparr>, take 96 (drop (128 + unat p) d))"
    using with_task_read [OF assms(1) t, of 96 "128 + unat p"] len by auto
  define pl1 where "pl1 = pl\<lparr>task_ptr := Some ut\<rparr>"
  have "task_of cr ut0 pl1" using ut(1) by (simp add: task_of_def pl1_def)
  moreover have "0 \<in> set (take 100 (drop (224 + unat p) d))" using assms(3,4) by (simp add: clean_prop_def prop_name_def)
  ultimately obtain ut' where ut': "ut64_state cr ut0 ut'" "with_task (\<lambda>ut. ut_cstring cr ut (a + of_nat (224 + unat p)) 100) pl1 =
      Some (pl1\<lparr>task_ptr := Some ut'\<rparr>, to_string (cstr (prop_name d p)))"
    using with_task_cstring [OF assms(1), of pl1 100 "224 + unat p"] len by (auto simp: prop_name_def)
  have v: "load 92 (take 96 (drop (128 + unat p) d)) 4 = Some (prop_value d p)"
    using len by (simp add: load_def prop_value_def drop_take add.commute)
  have u: "init_uvaddr cr pl (a + of_nat (128 + unat p))" using init_uvaddr_mapped [OF assms(1,2), of "128 + unat p"] len by simp
  have c: "0 \<in> set (prop_value d p)" "to_string (cstr (prop_name d p)) \<noteq> ''''"
    using assms(3,4) by (auto simp: clean_prop_def to_string_def)
  have "length (take 96 (drop (128 + unat p) d)) \<noteq> 0" using len by simp
  then have "parser_prop_info cr (a + of_nat (128 + unat p)) pl =
      Some (pl1\<lparr>task_ptr := Some ut', prop_map := AList.update (to_string (cstr (prop_name d p))) (to_string (cstr (prop_value d p))) (prop_map pl1)\<rparr>)"
    unfolding parser_prop_info_def using u ut(2) ut'(2) v c g by (simp add: pl1_def ac_simps)
  then show ?thesis
    using ut'(1) assms(4) unfolding addr(1) walked_def by (auto simp: pl1_def plain_entry_def)
qed

section \<open>Laws: the walk through the C library\<close>

definition entries :: "byte list \<Rightarrow> prop_tree \<Rightarrow> (string \<times> string) list" where
  "entries d t = concat (map (plain_entry d) (pre_props t))"

lemma entries_simps [simp]:
  "entries d Absent = []" "entries d (PropNode ofs p l r c) = plain_entry d p @ entries d l @ entries d r @ entries d c"
  by (simp_all add: entries_def)

text \<open>The part of the walk below an offset: nothing without a node, and the node's own walk with one.\<close>

definition bt_below :: "crash \<Rightarrow> ulong \<Rightarrow> uint \<Rightarrow> propinfo \<Rightarrow> propinfo option" where
  "bt_below cr root x pl = (if in_area pl x then parser_prop_bt cr root (root + ucast x) pl else Some pl)"

lemma parser_prop_bt_node:
  assumes "area_mapped cr ut0 tc a d" "walk_ready cr ut0 tc pl" "148 + unat ofs \<le> length d" "node_at d ofs = Some b"
    and "p = 0 \<or> in_area pl p" "bt_prop b = p" "clean_prop d p"
  shows "\<exists>pl'. walked cr ut0 pl (plain_entry d p) pl' \<and>
    parser_prop_bt cr (a + 128) (a + 128 + ucast ofs) pl =
      bt_below cr (a + 128) (bt_left b) pl' \<bind> bt_below cr (a + 128) (bt_right b) \<bind> bt_below cr (a + 128) (bt_children b)"
proof -
  have addr: "a + 128 + ucast ofs = a + of_nat (128 + unat ofs)" by (simp add: add.assoc)
  have "task_of cr ut0 pl" using assms(2) by (simp add: walk_ready_def)
  then obtain ut where ut: "ut64_state cr ut0 ut" "with_task (\<lambda>ut. read_data cr ut (a + of_nat (128 + unat ofs)) 20) pl =
      Some (pl\<lparr>task_ptr := Some ut\<rparr>, take 20 (drop (128 + unat ofs) d))"
    using with_task_read [OF assms(1), of pl 20 "128 + unat ofs"] assms(3) by auto
  define pl1 where "pl1 = pl\<lparr>task_ptr := Some ut\<rparr>"
  have w1: "walked cr ut0 pl [] pl1" using ut(1) by (auto simp: walked_def pl1_def)
  have r1: "walk_ready cr ut0 tc pl1" using walked_ready(1) [OF w1 assms(2)] .
  have "UINT (take 20 x) i = UINT x i" if "i \<le> 16" for x :: "byte list" and i
    using that by (auto simp: UINT_def load_def drop_take min_def)
  then have b: "bt_of_bytes (take 20 (drop (128 + unat ofs) d)) = Some b" using assms(4) by (simp add: bt_of_bytes_def node_at_def)
  have "\<exists>pl2. (if in_area pl1 p then parser_prop_info cr (a + 128 + ucast p) pl1 else Some pl1) = Some pl2 \<and>
      walked cr ut0 pl1 (plain_entry d p) pl2"
  proof (cases "p = 0")
    case True
    then show ?thesis using walked_refl [OF r1] by (simp add: in_area_def plain_entry_def)
  next
    case False
    then have "in_area pl1 p" using assms(5) in_area_walked [OF w1] by simp
    then show ?thesis using parser_prop_info_walked [OF assms(1) r1 assms(7) False] by simp
  qed
  then obtain pl2 where p: "(if in_area pl1 p then parser_prop_info cr (a + 128 + ucast p) pl1 else Some pl1) = Some pl2"
    and w2: "walked cr ut0 pl1 (plain_entry d p) pl2" by blast
  have u: "init_uvaddr cr pl (a + of_nat (128 + unat ofs))"
    using init_uvaddr_mapped [OF assms(1,2), of "128 + unat ofs"] assms(3) by simp
  have l: "\<not> length (take 20 (drop (128 + unat ofs) d)) = 0" using assms(3) by simp
  have "\<not> \<not> init_uvaddr cr pl (a + of_nat (128 + unat ofs))" using u by simp
  then have "parser_prop_bt cr (a + 128) (a + of_nat (128 + unat ofs)) pl =
      bt_below cr (a + 128) (bt_left b) pl2 \<bind> bt_below cr (a + 128) (bt_right b) \<bind> bt_below cr (a + 128) (bt_children b)"
    unfolding parser_prop_bt.simps [of cr "a + 128" "a + of_nat (128 + unat ofs)"] ut(2) pl1_def [symmetric]
    by (simp only: if_False l bind.bind_lunit prod.case b assms(6) p bt_below_def [abs_def] Option.bind_assoc)
  then show ?thesis using walked_trans [OF w1 w2] unfolding addr by auto
qed

lemma parser_prop_bt_walked:
  assumes "area_mapped cr ut0 tc a d" "area_tree (length d) d t" "t \<noteq> Absent" "list_all (clean_prop d) (pre_props t)"
    and "walk_ready cr ut0 tc pl" "list_all (\<lambda>x. x = 0 \<or> in_area pl x) (tree_offs t)"
  shows "\<exists>pl'. parser_prop_bt cr (a + 128) (a + 128 + ucast (tree_off t)) pl = Some pl' \<and> walked cr ut0 pl (entries d t) pl'"
  using assms(2-6)
proof (induction t arbitrary: pl)
  case (PropNode ofs p l r c)
  obtain b where b: "node_at d ofs = Some b" "bt_prop b = p" "bt_left b = tree_off l"
    "bt_right b = tree_off r" "bt_children b = tree_off c"
    using PropNode.prems(1) by (auto split: option.splits)
  have len: "148 + unat ofs \<le> length d" using PropNode.prems(1) by auto
  have sub: "\<exists>pl2. bt_below cr (a + 128) (tree_off s) pl1 = Some pl2 \<and> walked cr ut0 pl (es @ entries d s) pl2"
    if "area_tree (length d) d s" "list_all (\<lambda>x. x = 0 \<or> in_area pl x) (tree_offs s)" "walked cr ut0 pl es pl1"
      and IH: "\<And>q. s \<noteq> Absent \<Longrightarrow> walk_ready cr ut0 tc q \<Longrightarrow> list_all (\<lambda>x. x = 0 \<or> in_area q x) (tree_offs s) \<Longrightarrow>
        \<exists>pl'. parser_prop_bt cr (a + 128) (a + 128 + ucast (tree_off s)) q = Some pl' \<and> walked cr ut0 q (entries d s) pl'"
    for s es pl1
  proof (cases s)
    case Absent
    then show ?thesis using that(3) by (simp add: bt_below_def in_area_def)
  next
    case (PropNode ofs' p' l' r' c')
    then have "in_area pl1 (tree_off s)" using that(1,2) in_area_walked [OF that(3)] by auto
    moreover have "list_all (\<lambda>x. x = 0 \<or> in_area pl1 x) (tree_offs s)" using that(2) in_area_walked [OF that(3)] by simp
    ultimately show ?thesis
      using IH [OF _ walked_ready(1) [OF that(3) \<open>walk_ready cr ut0 tc pl\<close>]] walked_trans [OF that(3)] PropNode
      by (fastforce simp: bt_below_def)
  qed
  obtain pl1 where pl1: "walked cr ut0 pl (plain_entry d p) pl1" "parser_prop_bt cr (a + 128) (a + 128 + ucast ofs) pl =
      bt_below cr (a + 128) (tree_off l) pl1 \<bind> bt_below cr (a + 128) (tree_off r) \<bind> bt_below cr (a + 128) (tree_off c)"
    using parser_prop_bt_node [OF assms(1) PropNode.prems(4) len b(1) _ b(2)] PropNode.prems(3,5) b(3-5) by auto
  obtain pl2 where pl2: "bt_below cr (a + 128) (tree_off l) pl1 = Some pl2" "walked cr ut0 pl (plain_entry d p @ entries d l) pl2"
    using sub [OF _ _ pl1(1), of l] PropNode.IH(1) PropNode.prems(1,3,5) by auto
  obtain pl3 where pl3: "bt_below cr (a + 128) (tree_off r) pl2 = Some pl3"
      "walked cr ut0 pl ((plain_entry d p @ entries d l) @ entries d r) pl3"
    using sub [OF _ _ pl2(2), of r] PropNode.IH(2) PropNode.prems(1,3,5) by auto
  obtain pl4 where "bt_below cr (a + 128) (tree_off c) pl3 = Some pl4"
      "walked cr ut0 pl (((plain_entry d p @ entries d l) @ entries d r) @ entries d c) pl4"
    using sub [OF _ _ pl3(2), of c] PropNode.IH(3) PropNode.prems(1,3,5) by auto
  then show ?case using pl1(2) pl2(1) pl3(1) by simp
qed simp

section \<open>Properties\<close>

text \<open>C20. The walk over the copy of an area that holds a tree of nodes ends, reports success, and enters into the
  map every property of the tree in the order of the names (left siblings, the node, its children, right
  siblings), with blanks trimmed and blank ones left out.\<close>

theorem for_each_prop_tree:
  assumes "area_tree (unat n) d t" "t \<noteq> Absent" "names_inside (unat n) d (tree_props t)"
  shows "for_each_prop n d (tree_off t) m = Some (True, put_all (concat (map (prop_entry (unat n) d) (tree_props t))) m)"
  by (rule for_each_prop_tree_walk [OF assms])

text \<open>An area as the property service leaves it: header, empty root, a tree of terminated, distinct properties.\<close>

definition area_holds :: "byte list \<Rightarrow> prop_tree \<Rightarrow> bool" where
  "area_holds d t \<longleftrightarrow> length d < 2 ^ 32 \<and>
     (case area_of_bytes (take 128 d) of None \<Rightarrow> False | Some h \<Rightarrow> pa_magic h = 0x504f5250 \<and> bytes_used h > 0) \<and>
     (case node_at d 0 of None \<Rightarrow> False
      | Some b \<Rightarrow> bt_prop b = 0 \<and> bt_left b = 0 \<and> bt_right b = 0 \<and> bt_children b = tree_off t) \<and>
     t \<noteq> Absent \<and> area_tree (length d) d t \<and> list_all (clean_prop d) (tree_props t) \<and> distinct (map fst (entries d t))"

lemma map_of_put_all: "distinct (map fst es) \<Longrightarrow> map_of (put_all es m) = map_of m ++ map_of es"
proof (induction es arbitrary: m)
  case (Cons e es)
  obtain k v where e: "e = (k, v)" by (cases e)
  have "k \<notin> dom (map_of es)" using Cons.prems by (auto simp: e dom_map_of_conv_image_fst)
  then show ?case using Cons by (auto simp: e update_conv' map_add_def fun_eq_iff split: option.splits)
qed simp

lemma entries_perm:
  assumes "list_all (clean_prop d) (tree_props t)"
  defines "es \<equiv> concat (map (prop_entry (length d) d) (tree_props t))"
  shows "mset es = mset (entries d t)"
proof -
  have "es = concat (map (plain_entry d) (tree_props t))"
    using assms(1) by (simp add: es_def clean_prop_entry list_all_iff cong: map_cong)
  moreover have "mset (concat (map f xs)) = \<Sum>\<^sub># (image_mset (mset \<circ> f) (mset xs))" for f :: "uint \<Rightarrow> (string \<times> string) list" and xs
    by (simp add: mset_concat flip: sum_mset_sum_list)
  ultimately show ?thesis by (simp add: entries_def mset_pre_props)
qed

lemma put_all_perm:
  assumes "mset es = mset fs" "distinct (map fst fs)"
  shows "map_of (put_all es m) = map_of (put_all fs m)"
proof -
  have "mset (map fst es) = mset (map fst fs)" using assms(1) by simp
  then have d: "distinct (map fst es)" using assms(2) by (metis distinct_count_atmost_1 mset_eq_setD)
  then have "map_of es = map_of fs" using assms by (metis map_of_inject_set mset_eq_setD)
  then show ?thesis using d assms(2) by (simp add: map_of_put_all)
qed

lemma names_inside_clean: "list_all (clean_prop d) ps \<Longrightarrow> names_inside (length d) d ps"
  by (auto simp: names_inside_def clean_prop_def list_all_iff)

text \<open>C13. The two parsers agree. On an area that the task maps where the C library says it is, the walk through user
  memory and the walk over the copy of the area both return, and give maps with the same look-ups: what
  was known before, overridden by the properties of the tree.\<close>

theorem prop_parsers_agree:
  assumes "area_holds d t" "area_mapped cr ut0 tc a d" "walk_ready cr ut0 tc pl"
    and "list_all (\<lambda>x. x = 0 \<or> in_area pl x) (tree_offs t)"
  shows "\<exists>pl' m. parser_prop_area cr a pl = Some (pl', True) \<and>
    for_each_prop (of_nat (length d)) d (tree_off t) (prop_map pl) = Some (True, m) \<and>
    map_of m = map_of (prop_map pl) ++ map_of (entries d t) \<and> map_of (prop_map pl') = map_of m"
proof -
  obtain h b where h: "area_of_bytes (take 128 d) = Some h" "pa_magic h = 0x504f5250" "bytes_used h > 0"
    and b: "node_at d 0 = Some b" "bt_prop b = 0" "bt_left b = 0" "bt_right b = 0" "bt_children b = tree_off t"
    using assms(1) by (auto simp: area_holds_def split: option.splits)
  have t: "t \<noteq> Absent" "area_tree (length d) d t" "list_all (clean_prop d) (tree_props t)" "distinct (map fst (entries d t))"
    "length d < 2 ^ 32" using assms(1) by (auto simp: area_holds_def)
  have cl: "list_all (clean_prop d) (pre_props t)" using t(3) mset_eq_setD [OF mset_pre_props [of t]] by (simp add: list_all_iff)
  have len: "148 \<le> length d" using t(1,2) by (cases t) auto
  have "task_of cr ut0 pl" using assms(3) by (simp add: walk_ready_def)
  then obtain ut where ut: "ut64_state cr ut0 ut"
      "with_task (\<lambda>ut. read_data cr ut a 128) pl = Some (pl\<lparr>task_ptr := Some ut\<rparr>, take 128 d)"
    using with_task_read [OF assms(2), of pl 128 0] len by auto
  define pl1 where "pl1 = pl\<lparr>task_ptr := Some ut\<rparr>"
  have w1: "walked cr ut0 pl [] pl1" using ut(1) by (auto simp: walked_def pl1_def)
  obtain pl2 where w2: "walked cr ut0 pl1 [] pl2" and p2: "parser_prop_bt cr (a + 128) (a + 128) pl1 = bt_below cr (a + 128) (tree_off t) pl2"
    using parser_prop_bt_node [OF assms(2) walked_ready(1) [OF w1 assms(3)], of 0 b 0] len b
    by (auto simp: clean_prop_def plain_entry_def bt_below_def in_area_def)
  have w: "walked cr ut0 pl [] pl2" using walked_trans [OF w1 w2] by simp
  have off: "list_all (\<lambda>x. x = 0 \<or> in_area pl2 x) (tree_offs t)" using assms(4) in_area_walked [OF w] by simp
  then have "in_area pl2 (tree_off t)" using t(1,2) by (cases t) auto
  then obtain pl' where p': "parser_prop_bt cr (a + 128) (a + 128) pl1 = Some pl'" and w': "walked cr ut0 pl2 (entries d t) pl'"
    using parser_prop_bt_walked [OF assms(2) t(2,1) cl walked_ready(1) [OF w assms(3)] off] p2 by (auto simp: bt_below_def)
  have u: "init_uvaddr cr pl a" using init_uvaddr_mapped [OF assms(2,3), of 0] len by fastforce
  have "length (take 128 d) \<noteq> 0" "prop_area_data (g_offset pl1) = 128" using len assms(3) by (auto simp: walk_ready_def pl1_def)
  then have "parser_prop_area cr a pl = Some (pl', True)"
    unfolding parser_prop_area_def ut(2) pl1_def [symmetric] using h u p' by simp
  moreover have n: "unat (of_nat (length d) :: ulong) = length d" using t(5) by (intro unat_of_nat_small) simp
  moreover have "for_each_prop (of_nat (length d)) d (tree_off t) (prop_map pl) =
      Some (True, put_all (concat (map (prop_entry (length d) d) (tree_props t))) (prop_map pl))"
    using for_each_prop_tree_walk [of "of_nat (length d)" d t "prop_map pl"] t names_inside_clean [OF t(3)] n by simp
  moreover have "prop_map pl' = put_all (entries d t) (prop_map pl)" using w w' by (auto simp: walked_def)
  ultimately show ?thesis
    using put_all_perm [OF entries_perm [OF t(3)] t(4)] map_of_put_all [OF t(4)] by auto
qed

text \<open>C28. A property so close to the end of the area that fewer than 100 bytes follow its record makes the walk read
  past the copy: the length test covers 92 of the 196 bytes that are read.\<close>

theorem for_each_prop_overread:
  assumes "node_at d ofs = Some b" "148 + unat ofs \<le> length d" "length d < 2 ^ 32" "bt_left b = 0" "bt_prop b \<noteq> 0"
    and "220 + unat (bt_prop b) < length d" "length d < 324 + unat (bt_prop b)"
  shows "for_each_prop (of_nat (length d)) d ofs m = None"
proof -
  let ?n = "of_nat (length d) :: ulong"
  have n: "unat ?n = length d" using assms(3) by (intro unat_of_nat_small) simp
  have le: "\<not> ?n < 128 + ucast ofs + 20" using ucast_sum [of 20 ofs] assms(2) n by (simp add: word_less_nat_alt)
  have "128 + ucast (bt_prop b) + 92 < ?n"
    unfolding word_less_nat_alt n using ucast_sum [of 92 "bt_prop b"] assms(6) by (simp del: add_numeral_left)
  moreover have "load 100 d (128 + uint (bt_prop b) + 96) = None"
    using assms(7) by (simp add: load_def nat_add_distrib)
  ultimately have "area_prop ?n d (bt_prop b) m = None" using assms(5) by (simp add: area_prop_def)
  then show ?thesis
    using le assms(1,4) unfolding node_at_def by (subst for_each_prop.simps) simp
qed

definition left_cycle :: "nat \<Rightarrow> byte list \<Rightarrow> uint set \<Rightarrow> bool" where
  "left_cycle n d C \<longleftrightarrow> (\<forall>x \<in> C. 148 + unat x \<le> n \<and> (\<exists>b. node_at d x = Some b \<and> bt_left b \<noteq> 0 \<and> bt_left b \<in> C))"

lemma for_each_prop_leaves_cycle:
  assumes "for_each_prop n d ofs m = Some y"
  shows "left_cycle (unat n) d C \<longrightarrow> ofs \<notin> C"
proof (rule for_each_prop.raw_induct [where P = "\<lambda>n d ofs m y. left_cycle (unat n) d C \<longrightarrow> ofs \<notin> C", OF _ assms], goal_cases)
  case (1 fep n d ofs m y)
  show ?case
  proof (intro impI notI)
    assume c: "left_cycle (unat n) d C" "ofs \<in> C"
    then obtain b where b: "148 + unat ofs \<le> unat n" "node_at d ofs = Some b" "bt_left b \<noteq> 0" "bt_left b \<in> C"
      unfolding left_cycle_def by blast
    then have "\<not> n < 128 + ucast ofs + 20" using ucast_sum [of 20 ofs] by (simp add: word_less_nat_alt)
    then obtain z where "fep n d (bt_left b) m = Some z"
      using 1(2) b by (auto simp: node_at_def bind_eq_Some_conv)
    then show False using 1(1) c(1) b(4) by blast
  qed
qed

text \<open>C29. An area in which the left siblings of some nodes lead back to one of them is never finished: the walk does
  not return.\<close>

theorem for_each_prop_cycle:
  assumes "left_cycle (unat n) d C" "ofs \<in> C"
  shows "for_each_prop n d ofs m = None"
  using for_each_prop_leaves_cycle [of n d ofs m _ C] assms by (cases "for_each_prop n d ofs m") auto

section \<open>Examples\<close>

text \<open>An area with the one property \<open>ro\<close> of value \<open>1\<close>.\<close>

definition prop_bytes :: "byte list" where
  "prop_bytes = [1, 0, 0, 0, 0, 0, 0, 0, 0x50, 0x52, 0x4f, 0x50] @ replicate 132 0 @ [20, 0, 0, 0] @
     [2, 0, 0, 0, 40, 0, 0, 0] @ replicate 16 0 @ [49] @ replicate 91 0 @ [114, 111] @ replicate 98 0"

definition prop_example :: prop_tree where
  "prop_example = PropNode 20 40 Absent Absent Absent"

lemma prop_bytes_parts:
  "length prop_bytes = 364" "prop_name prop_bytes 40 = [114, 111] @ replicate 98 0" "prop_value prop_bytes 40 = [49] @ replicate 91 0"
  by (simp_all add: prop_bytes_def prop_name_def prop_value_def)

lemma prop_bytes_nodes:
  "node_at prop_bytes 20 = Some \<lparr>namelen = 2, bt_prop = 40, bt_left = 0, bt_right = 0, bt_children = 0\<rparr>"
  "node_at prop_bytes 0 = Some \<lparr>namelen = 0, bt_prop = 0, bt_left = 0, bt_right = 0, bt_children = 20\<rparr>"
  "area_of_bytes (take 128 prop_bytes) = Some \<lparr>bytes_used = 1, pa_serial = 0, pa_magic = 0x504f5250, pa_version = 0\<rparr>"
  by (simp_all add: prop_bytes_def node_at_def bt_of_bytes_def area_of_bytes_def UINT_def load_def le_nat_replicate_zero)

lemma cleanString_id:
  assumes "CHR 0x00 \<notin> set s" "s \<noteq> []" "\<not> is_space (hd s)" "\<not> is_space (last s)"
  shows "cleanString (s @ CHR 0x00 # rest) = s"
proof -
  have "takeWhile (\<lambda>c. c \<noteq> CHR 0x00) (s @ CHR 0x00 # rest) = s" using assms(1) by (auto simp: takeWhile_append)
  moreover have "dropWhile is_space s = s" using assms(2,3) by (cases s) auto
  moreover have "dropWhile is_space (rev s) = rev s" using assms(2,4) by (cases s rule: rev_cases) auto
  moreover have "list_ex (\<lambda>c. c \<noteq> CHR 0x00 \<and> \<not> is_space c) s" using assms(1-3) by (cases s) auto
  ultimately show ?thesis by (simp add: cleanString_def)
qed

lemma example_chars: "chr 0 = CHR 0x00" "chr 114 = CHR ''r''" "chr 111 = CHR ''o''" "chr 49 = CHR ''1''"
  by (simp_all add: chr_def char_of_def bit_0)

lemma example_strings:
  "to_string ([114, 111] @ replicate 98 0) = ''ro'' @ CHR 0x00 # replicate 97 (CHR 0x00)"
  "to_string ([49] @ replicate 91 0) = ''1'' @ CHR 0x00 # replicate 90 (CHR 0x00)"
  by (simp_all add: to_string_def example_chars flip: replicate_Suc)

lemma example_cstr: "cstr ([114, 111] @ replicate 98 0) = [114, 111]" "cstr ([49] @ replicate 91 0) = [49]"
  by (simp_all add: cstr_def)

lemma prop_bytes_clean: "clean_prop prop_bytes 40"
  unfolding clean_prop_def prop_bytes_parts example_strings example_cstr
  by (subst (1 2) cleanString_id) (simp_all add: is_space_def to_string_def example_chars)

lemma prop_example_entries: "entries prop_bytes prop_example = [(''ro'', ''1'')]"
  by (simp add: prop_example_def plain_entry_def prop_bytes_parts(2,3) example_cstr [simplified]) (simp add: to_string_def example_chars)

lemma prop_example_tree: "area_tree 364 prop_bytes prop_example"
  by (simp add: prop_example_def prop_bytes_nodes)

lemma for_each_prop_tree_witness: "for_each_prop 364 prop_bytes 20 [] = Some (True, [(''ro'', ''1'')])"
proof -
  have "names_inside 364 prop_bytes (tree_props prop_example)"
    using names_inside_clean [of prop_bytes "tree_props prop_example"] prop_bytes_clean
    by (simp add: prop_example_def prop_bytes_parts)
  moreover have "concat (map (prop_entry 364 prop_bytes) (tree_props prop_example)) = [(''ro'', ''1'')]"
    using clean_prop_entry [OF prop_bytes_clean] prop_example_entries by (simp add: prop_example_def prop_bytes_parts entries_def)
  ultimately show ?thesis
    using for_each_prop_tree [of 364 prop_bytes prop_example "[]"] prop_example_tree by (simp add: prop_example_def)
qed

definition prop_session :: crash where
  "prop_session = flat_session (\<lambda>a. if unat a < 364 then prop_bytes ! unat a else 0)"

definition prop_state :: propinfo where
  "prop_state = plugin.extend small_plugin
     \<lparr>tc_init = ut_tc (task_example []), is_compat = False, pa_size = 364, pa_data_size = 236, g_offset = default_offsets False,
      g_size_ContextNode = 40, pi_swap_ptr = swap_ptr (task_example []), task_ptr = Some (task_example []), prop_map = [],
      symbol_list = []\<rparr>"

lemma prop_session_mapped:
  assumes "ut_tc (task_example []) = Some tc"
  shows "area_mapped prop_session (task_example []) tc 0 prop_bytes"
proof -
  have "ubytes prop_session (task_example []) 0 364 = prop_bytes"
    by (rule nth_equalityI) (simp_all add: ubytes_def prop_session_def flat_session_umem prop_bytes_parts unat_of_nat_small)
  moreover have "IS_UVADDR prop_session (of_nat i) tc" if "i < 364" for i
  proof -
    have "unat (of_nat i :: ulong) = i" using that by (intro unat_of_nat_small) simp
    then show ?thesis using that
      by (simp add: prop_session_def flat_session_def user_session_def empty_session_def word_less_nat_alt)
  qed
  ultimately show ?thesis
    using task_example_readable by (simp add: area_mapped_def prop_bytes_parts prop_session_def)
qed

lemma prop_parsers_agree_witness:
  "\<exists>pl m. parser_prop_area prop_session 0 prop_state = Some (pl, True) \<and> map_of (prop_map pl) ''ro'' = Some ''1'' \<and>
     for_each_prop 364 prop_bytes 20 [] = Some (True, m) \<and> map_of m ''ro'' = Some ''1''"
proof -
  obtain tc where tc: "ut_tc (task_example []) = Some tc" by (simp add: task_example_def blank_utask_def plugin.extend_def)
  have "area_holds prop_bytes prop_example"
    using prop_bytes_clean prop_example_tree prop_example_entries
    by (simp add: area_holds_def prop_bytes_parts prop_bytes_nodes) (simp add: prop_example_def)
  moreover have "walk_ready prop_session (task_example []) tc prop_state"
    using tc task_example_state
    by (simp add: walk_ready_def task_of_def prop_state_def plugin.extend_def default_offsets_def ut64_state_def areas_ok_def prop_session_def)
  moreover have "list_all (\<lambda>x. x = 0 \<or> in_area prop_state x) (tree_offs prop_example)"
    by (simp add: prop_example_def in_area_def prop_state_def plugin.extend_def)
  ultimately have "\<exists>pl m. parser_prop_area prop_session 0 prop_state = Some (pl, True) \<and>
      for_each_prop (of_nat (length prop_bytes)) prop_bytes (tree_off prop_example) (prop_map prop_state) = Some (True, m) \<and>
      map_of m = map_of (prop_map prop_state) ++ map_of (entries prop_bytes prop_example) \<and> map_of (prop_map pl) = map_of m"
    by (rule prop_parsers_agree [OF _ prop_session_mapped [OF tc]])
  moreover have "prop_map prop_state = []" by (simp add: prop_state_def plugin.extend_def)
  ultimately show ?thesis
    by (simp add: prop_example_entries prop_bytes_parts) (auto simp: prop_example_def)
qed

text \<open>The same area with the tail cut off, and a node that is its own left sibling.\<close>

lemma for_each_prop_overread_witness: "for_each_prop 300 (take 300 prop_bytes) 20 [] = None"
proof -
  have "node_at (take 300 prop_bytes) 20 = Some \<lparr>namelen = 2, bt_prop = 40, bt_left = 0, bt_right = 0, bt_children = 0\<rparr>"
    by (simp add: prop_bytes_def node_at_def bt_of_bytes_def UINT_def load_def le_nat_replicate_zero)
  then show ?thesis
    using for_each_prop_overread [of "take 300 prop_bytes" 20 _ "[]"] by (simp add: prop_bytes_parts)
qed

lemma for_each_prop_cycle_witness:
  "for_each_prop 168 (replicate 156 0 @ [20, 0, 0, 0] @ replicate 8 0) 20 [] = None"
proof -
  have "left_cycle 168 (replicate 156 0 @ [20, 0, 0, 0] @ replicate 8 0) {20}"
    by (simp add: left_cycle_def node_at_def bt_of_bytes_def UINT_def load_def le_nat_replicate_zero)
  then show ?thesis by (intro for_each_prop_cycle [where C = "{20}"]) simp_all
qed

end
