(* ===== verification/Slub.thy ===== *)
theory Slub
  imports Walk Text "HOL-Library.Multiset"
begin

text \<open>
  The slab allocator (\<^verbatim>\<open>src/memory/slub.cpp\<close>, \<^verbatim>\<open>slub.h\<close>): the caches of the kernel with their slabs and
  objects, the check of the red zones and poison bytes of an object, and the table of allocation and
  free traces. A message is modelled only where the command's answer is a message: the list of reports
  of the poison check and the rows of a trace.
\<close>

section \<open>Data\<close>

record obj =
  ob_index :: int
  ob_start :: ulong
  ob_end :: ulong
  ob_is_free :: bool

record slab =
  first_page :: ulong
  sl_order :: uint
  sl_inuse :: uint
  totalobj :: uint
  freeobj :: uint
  obj_list :: "obj list"

text \<open>The vectors of slabs hold null pointers where \<^verbatim>\<open>parser_slab\<close> returned one.\<close>

record kmem_cache_cpu =
  cc_addr :: ulong
  cc_tid :: ulong
  cur_slab :: "slab option"
  cc_partial :: "slab option list"

record kmem_cache_node =
  kn_addr :: ulong
  nr_partial :: ulong
  kn_partial :: "slab option list"
  nr_slabs :: ulong
  total_objects :: ulong
  kn_full :: "slab option list"

record kmem_cache =
  kc_addr :: ulong
  cpu_slabs :: "kmem_cache_cpu list"
  kc_flags :: uint
  min_partial :: ulong
  kc_size :: uint
  object_size :: uint
  kc_offset :: uint
  cpu_partial :: uint
  oo :: uint
  per_slab_obj :: int
  page_order :: int
  kc_max :: uint
  kc_min :: uint
  allocflags :: uint
  refcount :: int
  kc_inuse :: uint
  kc_align :: uint
  red_left_pad :: uint
  kc_random :: ulong
  kc_name :: string
  useroffset :: uint
  usersize :: uint
  total_size :: ulong
  total_nr_slabs :: ulong
  total_nr_objs :: ulong
  node_list :: "kmem_cache_node list"

record track =
  trackp :: ulong
  tr_frame :: string
  tr_cpu :: int
  tr_pid :: int
  tr_when :: ulong
  tr_cache :: kmem_cache
  tr_obj_addr :: ulong

text \<open>A trace map groups the tracks by their frame; the order of its entries is that of the hash table.\<close>

type_synonym trace_map = "(string \<times> track list) list"

record slub = plugin +
  cache_list :: "kmem_cache list"
  alloc_trace_map :: trace_map
  free_trace_map :: trace_map
  max_pfn :: ulong
  depot_index :: ulong
  stack_slabs :: ulong

definition slub_fields :: "init_stmt list" where
  "slub_fields =
    [Field ''kmem_cache'' ''cpu_slab'', Field ''kmem_cache'' ''flags'', Field ''kmem_cache'' ''min_partial'',
     Field ''kmem_cache'' ''size'', Field ''kmem_cache'' ''reciprocal_size'', Field ''kmem_cache'' ''object_size'',
     Field ''kmem_cache'' ''offset'', Field ''kmem_cache'' ''cpu_partial'', Field ''kmem_cache'' ''oo'',
     Field ''kmem_cache'' ''max'', Field ''kmem_cache'' ''min'', Field ''kmem_cache'' ''allocflags'',
     Field ''kmem_cache'' ''refcount'', Field ''kmem_cache'' ''inuse'', Field ''kmem_cache'' ''align'',
     Field ''kmem_cache'' ''red_left_pad'', Field ''kmem_cache'' ''name'', Field ''kmem_cache'' ''random'',
     Field ''kmem_cache'' ''list'', Field ''kmem_cache'' ''useroffset'', Field ''kmem_cache'' ''usersize'',
     Field ''kmem_cache'' ''node'', Field ''kmem_cache_node'' ''nr_partial'', Field ''kmem_cache_node'' ''partial'',
     Field ''kmem_cache_node'' ''nr_slabs'', Field ''kmem_cache_node'' ''total_objects'',
     Field ''kmem_cache_node'' ''full'', Field ''kmem_cache_cpu'' ''freelist'', Field ''kmem_cache_cpu'' ''tid'',
     Field ''kmem_cache_cpu'' ''page'', Field ''kmem_cache_cpu'' ''partial'', Field ''kmem_cache_cpu'' ''slab'',
     Field ''track'' ''addrs'', Field ''track'' ''addr'', Field ''track'' ''cpu'', Field ''track'' ''pid'',
     Field ''track'' ''when'', Field ''stack_record'' ''next'', Field ''stack_record'' ''size'',
     Field ''stack_record'' ''handle'', Field ''stack_record'' ''entries'', Field ''slab'' ''slab_list'',
     Field ''slab'' ''counters'', Field ''slab'' ''freelist'', Field ''slab'' ''next'', Field ''track'' ''handle'',
     Field ''page'' ''slab_list'', Field ''page'' ''_mapcount'', Field ''page'' ''freelist'', Field ''page'' ''next'',
     Field ''page'' ''slab_list'', Field ''page'' ''counters'', Field ''page'' ''freelist'', Field ''page'' ''next'',
     Field ''page'' ''flags'', Struct ''slab'', Struct ''page'', Struct ''kmem_cache'', Struct ''kmem_cache_node'',
     Struct ''kmem_cache_cpu'', Struct ''atomic_t'', Struct ''track'', Struct ''stack_record'']"

definition SLAB_RED_ZONE :: uint where "SLAB_RED_ZONE = 0x400"
definition SLAB_POISON :: uint where "SLAB_POISON = 0x800"
definition SLAB_STORE_USER :: uint where "SLAB_STORE_USER = 0x10000"
definition OBJECT_POISON :: uint where "OBJECT_POISON = 0x80000000"
definition SLAB_KMALLOC :: uint where "SLAB_KMALLOC = 0x1000"
definition SLUB_RED_INACTIVE :: byte where "SLUB_RED_INACTIVE = 0xbb"
definition SLUB_RED_ACTIVE :: byte where "SLUB_RED_ACTIVE = 0xcc"
definition POISON_INUSE :: byte where "POISON_INUSE = 0x5a"
definition POISON_FREE :: byte where "POISON_FREE = 0x6b"
definition POISON_END :: byte where "POISON_END = 0xa5"

definition has_flag :: "kmem_cache \<Rightarrow> uint \<Rightarrow> bool" where
  "has_flag c f \<longleftrightarrow> kc_flags c AND f \<noteq> 0"

section \<open>Slabs\<close>

text \<open>The free pointer of an object, stored encoded on hardened kernels.\<close>

definition get_free_pointer :: "crash \<Rightarrow> kmem_cache \<Rightarrow> ulong \<Rightarrow> ulong" where
  "get_free_pointer cr cache object_start_addr =
     (let ptr_addr = object_start_addr + ucast (kc_offset cache);
          ptr = read_pointer cr ptr_addr True;
          ptr_addr = swap64 cr ptr_addr in
      if get_config_val cr ''CONFIG_SLAB_FREELIST_HARDENED'' = ''y''
      then ptr XOR kc_random cache XOR ptr_addr else ptr)"

text \<open>
  The walk of the free list. Each object is marked by its index; an index out of range or marked
  before ends the walk, so that it ends on a corrupt list too. A cache of size 0 divides by zero.
\<close>

definition free_index :: "kmem_cache \<Rightarrow> ulong \<Rightarrow> ulong \<Rightarrow> nat" where
  "free_index cache slab_vaddr fobj = unat (ucast ((fobj - slab_vaddr) div ucast (kc_size cache)) :: uint)"

function free_loop :: "crash \<Rightarrow> kmem_cache \<Rightarrow> ulong \<Rightarrow> nat \<Rightarrow> ulong \<Rightarrow> nat list \<Rightarrow> nat list option" where
  "free_loop cr cache slab_vaddr tot fobj obj_free =
     (if \<not> IS_KVADDR cr fobj then Some obj_free
      else if kc_size cache = 0 then None
      else let obj_index = free_index cache slab_vaddr fobj in
        if tot \<le> obj_index \<or> obj_index \<in> set obj_free then Some obj_free
        else free_loop cr cache slab_vaddr tot (get_free_pointer cr cache fobj) (obj_index # obj_free))"
  by pat_completeness auto
termination
proof (relation "measure (\<lambda>(cr, cache, slab_vaddr, tot, fobj, obj_free). card ({..<tot} - set obj_free))", simp)
  fix cr cache slab_vaddr fobj obj_free and tot i :: nat
  assume "\<not> (tot \<le> i \<or> i \<in> set obj_free)"
  moreover have "{..<tot} - set (i # obj_free) = ({..<tot} - set obj_free) - {i}" by auto
  ultimately have "card ({..<tot} - set (i # obj_free)) < card ({..<tot} - set obj_free)"
    by (simp only:) (rule card_Diff1_less, simp_all)
  then show "((cr, cache, slab_vaddr, tot, get_free_pointer cr cache fobj, i # obj_free),
      cr, cache, slab_vaddr, tot, fobj, obj_free)
    \<in> measure (\<lambda>(cr, cache, slab_vaddr, tot, fobj, obj_free). card ({..<tot} - set obj_free))"
    by simp
qed

declare free_loop.simps [simp del]

definition slab_obj :: "kmem_cache \<Rightarrow> ulong \<Rightarrow> nat list \<Rightarrow> ulong \<Rightarrow> obj" where
  "slab_obj cache slab_vaddr obj_free obj_addr =
     (let obj_index = to_int32 ((obj_addr - slab_vaddr) div ucast (kc_size cache)) in
      \<lparr>ob_index = obj_index + 1, ob_start = obj_addr, ob_end = obj_addr + ucast (kc_size cache),
       ob_is_free = (nat obj_index \<in> set obj_free)\<rparr>)"

text \<open>The product of the number and the size of the objects is taken in 32 bits.\<close>

definition slab_objs :: "kmem_cache \<Rightarrow> ulong \<Rightarrow> uint \<Rightarrow> nat list \<Rightarrow> obj list option" where
  "slab_objs cache slab_vaddr tot obj_free = do {
     addrs \<leftarrow> chain_walk (\<lambda>a. a < slab_vaddr + ucast (tot * kc_size cache)) (\<lambda>a. a + ucast (kc_size cache)) slab_vaddr;
     Some (map (slab_obj cache slab_vaddr obj_free) addrs) }"

definition slab_page :: "'a plugin_scheme \<Rightarrow> string" where
  "slab_page pl = (if type_size pl ''slab'' \<noteq> -1 then ''slab'' else ''page'')"

definition slab_of_counters :: "kmem_cache \<Rightarrow> ulong \<Rightarrow> ulong \<Rightarrow> slab" where
  "slab_of_counters cache slab_page_addr counters =
     (let count = to_int32 counters;
          tot = word_of_int (drop_bit 16 count AND 0x7FFF);
          inuse = word_of_int (count AND 0xFFFF) in
      \<lparr>first_page = slab_page_addr, sl_order = word_of_int (page_order cache), sl_inuse = inuse,
       totalobj = tot, freeobj = tot - inuse, obj_list = []\<rparr>)"

definition parser_slab :: "crash \<Rightarrow> 'a plugin_scheme \<Rightarrow> kmem_cache \<Rightarrow> ulong \<Rightarrow> slab option option" where
  "parser_slab cr pl cache slab_page_addr =
     (if \<not> IS_KVADDR cr slab_page_addr then Some None
      else case read_struct cr pl slab_page_addr (slab_page pl) True of
        None \<Rightarrow> Some None
      | Some page_buf \<Rightarrow> do {
          count \<leftarrow> ULONG page_buf (field_offset pl (slab_page pl) ''counters'');
          freelist \<leftarrow> ULONG page_buf (field_offset pl (slab_page pl) ''freelist'');
          let sl = slab_of_counters cache slab_page_addr count;
          let slab_vaddr = phy_to_virt cr (page_to_phy cr slab_page_addr);
          obj_free \<leftarrow> free_loop cr cache slab_vaddr (unat (totalobj sl)) freelist [];
          objs \<leftarrow> slab_objs cache slab_vaddr (totalobj sl) obj_free;
          Some (Some (sl\<lparr>obj_list := objs\<rparr>)) })"

fun slab_list_loop :: "(ulong \<Rightarrow> slab option option) \<Rightarrow> ulong list \<Rightarrow> ulong list \<Rightarrow> slab option list option" where
  "slab_list_loop parse temp_list [] = Some []"
| "slab_list_loop parse temp_list (a # as) =
     (if a \<in> set temp_list then slab_list_loop parse temp_list as
      else do {
        s \<leftarrow> parse a;
        rest \<leftarrow> slab_list_loop parse (temp_list @ [a]) as;
        Some (s # rest) })"

definition parser_slab_from_list :: "crash \<Rightarrow> 'a plugin_scheme \<Rightarrow> kmem_cache \<Rightarrow> ulong \<Rightarrow> slab option list option" where
  "parser_slab_from_list cr pl cache head_addr = do {
     page_list \<leftarrow> for_each_list cr pl head_addr
       (if type_size pl ''slab'' = -1 then field_offset pl ''page'' ''slab_list'' else field_offset pl ''slab'' ''slab_list'');
     slab_list_loop (parser_slab cr pl cache) [] page_list }"

section \<open>Caches\<close>

fun node_loop :: "crash \<Rightarrow> 'a plugin_scheme \<Rightarrow> kmem_cache \<Rightarrow> ulong list \<Rightarrow> kmem_cache_node list option" where
  "node_loop cr pl cache [] = Some []"
| "node_loop cr pl cache (slot # slots) =
     (let addr = read_pointer cr slot True in
      if \<not> IS_KVADDR cr addr then node_loop cr pl cache slots
      else case read_struct cr pl addr ''kmem_cache_node'' True of
        None \<Rightarrow> node_loop cr pl cache slots
      | Some node_buf \<Rightarrow> do {
          np \<leftarrow> ULONG node_buf (field_offset pl ''kmem_cache_node'' ''nr_partial'');
          ns \<leftarrow> ULONG node_buf (field_offset pl ''kmem_cache_node'' ''nr_slabs'');
          ob \<leftarrow> ULONG node_buf (field_offset pl ''kmem_cache_node'' ''total_objects'');
          partial \<leftarrow> parser_slab_from_list cr pl cache (addr + off (field_offset pl ''kmem_cache_node'' ''partial''));
          full \<leftarrow> parser_slab_from_list cr pl cache (addr + off (field_offset pl ''kmem_cache_node'' ''full''));
          rest \<leftarrow> node_loop cr pl cache slots;
          Some (\<lparr>kn_addr = addr, nr_partial = np, kn_partial = partial, nr_slabs = ns, total_objects = ob,
                 kn_full = full\<rparr> # rest) })"

definition parser_kmem_cache_node ::
  "crash \<Rightarrow> 'a plugin_scheme \<Rightarrow> kmem_cache \<Rightarrow> ulong \<Rightarrow> kmem_cache_node list option" where
  "parser_kmem_cache_node cr pl cache node_addr =
     (let node_cnt = to_int32 (off (field_size pl ''kmem_cache'' ''node'') div 8) in
      node_loop cr pl cache (map (\<lambda>i. node_addr + of_nat i * 8) [0..<nat node_cnt]))"

text \<open>The partial slabs of a processor are chained by their pages; on a cycle the walk does not end.\<close>

partial_function (option) cpu_partial_loop ::
  "crash \<Rightarrow> 'a plugin_scheme \<Rightarrow> kmem_cache \<Rightarrow> ulong \<Rightarrow> slab option list option" where
  "cpu_partial_loop cr pl cache slab_page_addr =
     (if IS_KVADDR cr slab_page_addr
      then do {
        s \<leftarrow> parser_slab cr pl cache slab_page_addr;
        nxt \<leftarrow> read_structure_field cr pl slab_page_addr (slab_page pl) ''next'' True;
        rest \<leftarrow> cpu_partial_loop cr pl cache nxt;
        Some (s # rest) }
      else Some [])"

fun cpu_loop :: "crash \<Rightarrow> 'a plugin_scheme \<Rightarrow> kmem_cache \<Rightarrow> ulong \<Rightarrow> ulong list \<Rightarrow> kmem_cache_cpu list option" where
  "cpu_loop cr pl cache cpu_addr [] = Some []"
| "cpu_loop cr pl cache cpu_addr (o' # os) =
     (let addr = cpu_addr + o' in
      if o' = 0 \<or> \<not> IS_KVADDR cr addr then cpu_loop cr pl cache cpu_addr os
      else case read_struct cr pl addr ''kmem_cache_cpu'' True of
        None \<Rightarrow> cpu_loop cr pl cache cpu_addr os
      | Some cpu_buf \<Rightarrow> do {
          tid \<leftarrow> ULONG cpu_buf (field_offset pl ''kmem_cache_cpu'' ''tid'');
          cur \<leftarrow> ULONG cpu_buf (field_offset pl ''kmem_cache_cpu'' (slab_page pl));
          cs \<leftarrow> parser_slab cr pl cache cur;
          p \<leftarrow> ULONG cpu_buf (field_offset pl ''kmem_cache_cpu'' ''partial'');
          partial \<leftarrow> cpu_partial_loop cr pl cache p;
          rest \<leftarrow> cpu_loop cr pl cache cpu_addr os;
          Some (\<lparr>cc_addr = addr, cc_tid = tid, cur_slab = cs, cc_partial = partial\<rparr> # rest) })"

definition parser_kmem_cache_cpu ::
  "crash \<Rightarrow> 'a plugin_scheme \<Rightarrow> kmem_cache \<Rightarrow> ulong \<Rightarrow> kmem_cache_cpu list option" where
  "parser_kmem_cache_cpu cr pl cache cpu_addr =
     (if per_cpu_off cr then cpu_loop cr pl cache cpu_addr (per_cpu_offsets cr) else Some [])"

definition cache_of_bytes :: "'a plugin_scheme \<Rightarrow> ulong \<Rightarrow> byte list \<Rightarrow> kmem_cache option" where
  "cache_of_bytes pl cache_addr buf = do {
     fl \<leftarrow> UINT buf (field_offset pl ''kmem_cache'' ''flags'');
     mp \<leftarrow> ULONG buf (field_offset pl ''kmem_cache'' ''min_partial'');
     sz \<leftarrow> UINT buf (field_offset pl ''kmem_cache'' ''size'');
     os \<leftarrow> UINT buf (field_offset pl ''kmem_cache'' ''object_size'');
     of' \<leftarrow> UINT buf (field_offset pl ''kmem_cache'' ''offset'');
     cp \<leftarrow> UINT buf (field_offset pl ''kmem_cache'' ''cpu_partial'');
     o' \<leftarrow> UINT buf (field_offset pl ''kmem_cache'' ''oo'');
     mx \<leftarrow> UINT buf (field_offset pl ''kmem_cache'' ''max'');
     mn \<leftarrow> UINT buf (field_offset pl ''kmem_cache'' ''min'');
     af \<leftarrow> UINT buf (field_offset pl ''kmem_cache'' ''allocflags'');
     rc \<leftarrow> C_INT buf (field_offset pl ''kmem_cache'' ''refcount'');
     iu \<leftarrow> UINT buf (field_offset pl ''kmem_cache'' ''inuse'');
     al \<leftarrow> UINT buf (field_offset pl ''kmem_cache'' ''align'');
     rl \<leftarrow> UINT buf (field_offset pl ''kmem_cache'' ''red_left_pad'');
     uo \<leftarrow> UINT buf (field_offset pl ''kmem_cache'' ''useroffset'');
     us \<leftarrow> UINT buf (field_offset pl ''kmem_cache'' ''usersize'');
     Some \<lparr>kc_addr = cache_addr, cpu_slabs = [], kc_flags = fl, min_partial = mp, kc_size = sz, object_size = os,
       kc_offset = of', cpu_partial = cp, oo = o', per_slab_obj = uint (o' AND 0xFFFF), page_order = uint (drop_bit 16 o'),
       kc_max = mx, kc_min = mn, allocflags = af, refcount = rc, kc_inuse = iu, kc_align = al, red_left_pad = rl,
       kc_random = 0, kc_name = '''', useroffset = uo, usersize = us, total_size = 0, total_nr_slabs = 0,
       total_nr_objs = 0, node_list = []\<rparr> }"

definition parser_cache :: "crash \<Rightarrow> 'a plugin_scheme \<Rightarrow> ulong \<Rightarrow> kmem_cache option option" where
  "parser_cache cr pl cache_addr =
     (case read_struct cr pl cache_addr ''kmem_cache'' True of
        None \<Rightarrow> Some None
      | Some buf \<Rightarrow> do {
          cache \<leftarrow> cache_of_bytes pl cache_addr buf;
          np \<leftarrow> ULONG buf (field_offset pl ''kmem_cache'' ''name'');
          nm \<leftarrow> read_cstring cr np 64 True;
          rnd \<leftarrow> ULONG buf (field_offset pl ''kmem_cache'' ''random'');
          let cache = cache\<lparr>kc_name := nm, kc_random := rnd\<rparr>;
          nodes \<leftarrow> parser_kmem_cache_node cr pl cache (cache_addr + off (field_offset pl ''kmem_cache'' ''node''));
          let cache = cache\<lparr>node_list := nodes\<rparr>;
          cp \<leftarrow> ULONG buf (field_offset pl ''kmem_cache'' ''cpu_slab'');
          cpus \<leftarrow> parser_kmem_cache_cpu cr pl cache cp;
          Some (Some (cache\<lparr>cpu_slabs := cpus\<rparr>)) })"

fun caches_loop :: "crash \<Rightarrow> 'a plugin_scheme \<Rightarrow> ulong list \<Rightarrow> kmem_cache list option" where
  "caches_loop cr pl [] = Some []"
| "caches_loop cr pl (a # as) = do {
     c \<leftarrow> parser_cache cr pl a;
     rest \<leftarrow> caches_loop cr pl as;
     Some (case c of None \<Rightarrow> rest | Some c \<Rightarrow> c # rest) }"

text \<open>The totals of a cache; a null slab in a list of partial slabs is dereferenced.\<close>

definition add_slab :: "slab \<Rightarrow> kmem_cache \<Rightarrow> kmem_cache" where
  "add_slab s c = c\<lparr>total_nr_slabs := total_nr_slabs c + 1, total_nr_objs := total_nr_objs c + ucast (totalobj s)\<rparr>"

definition add_node :: "kmem_cache_node \<Rightarrow> kmem_cache \<Rightarrow> kmem_cache" where
  "add_node n c = c\<lparr>total_nr_slabs := total_nr_slabs c + nr_slabs n, total_nr_objs := total_nr_objs c + total_objects n\<rparr>"

definition add_cpu :: "kmem_cache_cpu \<Rightarrow> kmem_cache \<Rightarrow> kmem_cache option" where
  "add_cpu cpu c = do {
     slabs \<leftarrow> those_opt (cc_partial cpu);
     let c = fold add_slab slabs c;
     Some (case cur_slab cpu of None \<Rightarrow> c | Some s \<Rightarrow> add_slab s c) }"

definition cache_totals :: "kmem_cache \<Rightarrow> kmem_cache option" where
  "cache_totals c = do {
     c \<leftarrow> fold_opt add_cpu (cpu_slabs c) (fold add_node (node_list c) c);
     Some (c\<lparr>total_size := total_nr_objs c * ucast (kc_size c)\<rparr>) }"

text \<open>
  The parse of all caches. A symbol that is not there leaves the member as it was; the members are
  not initialised by the constructor.
\<close>

definition find_depot :: "crash \<Rightarrow> slub \<Rightarrow> slub option" where
  "find_depot cr pl =
     (if symbol_exists cr ''depot_index''
      then do { a \<leftarrow> symbol_value cr ''depot_index''; Some (pl\<lparr>depot_index := off (read_int cr a True)\<rparr>) }
      else if symbol_exists cr ''pool_index''
      then do { a \<leftarrow> symbol_value cr ''pool_index''; Some (pl\<lparr>depot_index := off (read_int cr a True)\<rparr>) }
      else if symbol_exists cr ''pools_num''
      then do { a \<leftarrow> symbol_value cr ''pools_num''; Some (pl\<lparr>depot_index := off (read_int cr a True)\<rparr>) }
      else Some pl)"

definition find_stacks :: "crash \<Rightarrow> slub \<Rightarrow> slub option" where
  "find_stacks cr pl =
     (if symbol_exists cr ''stack_slabs''
      then do { a \<leftarrow> symbol_value cr ''stack_slabs''; Some (pl\<lparr>stack_slabs := a\<rparr>) }
      else if symbol_exists cr ''stack_pools''
      then do { a \<leftarrow> symbol_value cr ''stack_pools''; Some (pl\<lparr>stack_slabs := a\<rparr>) }
      else Some pl)"

definition parser_slab_caches :: "crash \<Rightarrow> slub \<Rightarrow> slub option" where
  "parser_slab_caches cr pl = do {
     pl \<leftarrow> find_depot cr (pl\<lparr>cache_list := []\<rparr>);
     if depot_index pl = 0 then Some pl
     else do {
       pl \<leftarrow> find_stacks cr pl;
       if stack_slabs pl = 0 then Some pl
       else do {
         pl \<leftarrow> (if symbol_exists cr ''max_pfn''
               then do { a \<leftarrow> symbol_value cr ''max_pfn''; Some (pl\<lparr>max_pfn := read_ulong cr a True\<rparr>) }
               else Some pl);
         if \<not> symbol_exists cr ''slab_caches'' then Some pl
         else do {
           slab_caches_addr \<leftarrow> symbol_value cr ''slab_caches'';
           if \<not> IS_KVADDR cr slab_caches_addr then Some pl
           else do {
             addrs \<leftarrow> for_each_list cr pl slab_caches_addr (field_offset pl ''kmem_cache'' ''list'');
             caches \<leftarrow> caches_loop cr pl addrs;
             caches \<leftarrow> those_opt (map cache_totals caches);
             Some (pl\<lparr>cache_list := caches\<rparr>) } } } } }"

text \<open>
  The summary sorts the caches by their size, largest first. The order of caches of the same size is
  left open by \<^verbatim>\<open>std::sort\<close>.
\<close>

definition print_slab_summary_info :: "slub \<Rightarrow> slub" where
  "print_slab_summary_info pl = pl\<lparr>cache_list := sort_key (\<lambda>c. - uint (total_size c)) (cache_list pl)\<rparr>"

section \<open>Bytes of one value\<close>

fun check_bytes8 :: "crash \<Rightarrow> ulong \<Rightarrow> byte \<Rightarrow> nat \<Rightarrow> ulong" where
  "check_bytes8 cr start value 0 = 0"
| "check_bytes8 cr start value (Suc bytes) =
     (if read_byte cr start True \<noteq> value then start else check_bytes8 cr (start + 1) value bytes)"

definition repeat_byte :: "crash \<Rightarrow> byte \<Rightarrow> ulong" where
  "repeat_byte cr value =
     (let value64 = ucast value in
      if get_config_val cr ''CONFIG_ARCH_HAS_FAST_MULTIPLIER'' = ''y'' \<and> get_config_val cr ''CONFIG_ARM64'' = ''y''
      then value64 * 0x0101010101010101
      else if get_config_val cr ''CONFIG_ARCH_HAS_FAST_MULTIPLIER'' = ''y''
      then let value64 = value64 * 0x01010101 in value64 OR push_bit 32 value64
      else let value64 = value64 OR push_bit 8 value64;
               value64 = value64 OR push_bit 16 value64 in
           value64 OR push_bit 32 value64)"

fun words_loop :: "crash \<Rightarrow> byte \<Rightarrow> ulong \<Rightarrow> nat \<Rightarrow> nat \<Rightarrow> ulong \<Rightarrow> ulong" where
  "words_loop cr value value64 rest 0 start_addr = check_bytes8 cr start_addr value rest"
| "words_loop cr value value64 rest (Suc words) start_addr =
     (if read_ulonglong cr start_addr True \<noteq> value64 then check_bytes8 cr start_addr value 8
      else words_loop cr value value64 rest words (start_addr + 8))"

definition memchr_inv :: "crash \<Rightarrow> ulong \<Rightarrow> byte \<Rightarrow> nat \<Rightarrow> ulong" where
  "memchr_inv cr start_addr c bytes =
     (if bytes \<le> 16 then check_bytes8 cr start_addr c bytes
      else
        let value64 = repeat_byte cr c;
            prefix = unat (start_addr mod 8);
            prefix = (if prefix \<noteq> 0 then 8 - prefix else 0);
            r = (if prefix \<noteq> 0 then check_bytes8 cr start_addr c prefix else 0) in
        if r \<noteq> 0 then r
        else let start_addr = start_addr + of_nat prefix; bytes = bytes - prefix in
          words_loop cr c value64 (bytes mod 8) (bytes div 8) start_addr)"

section \<open>Layout of an object\<close>

definition freeptr_outside_object :: "kmem_cache \<Rightarrow> bool" where
  "freeptr_outside_object c \<longleftrightarrow> kc_offset c \<ge> kc_inuse c"

definition get_info_end :: "kmem_cache \<Rightarrow> uint" where
  "get_info_end c = (if freeptr_outside_object c then kc_inuse c + 8 else kc_inuse c)"

definition fixup_red_left :: "kmem_cache \<Rightarrow> ulong \<Rightarrow> ulong" where
  "fixup_red_left c a = (if has_flag c SLAB_RED_ZONE then a + ucast (red_left_pad c) else a)"

definition restore_red_left :: "kmem_cache \<Rightarrow> ulong \<Rightarrow> ulong" where
  "restore_red_left c a = (if has_flag c SLAB_RED_ZONE then a - ucast (red_left_pad c) else a)"

definition size_from_object :: "kmem_cache \<Rightarrow> uint" where
  "size_from_object c = (if has_flag c SLAB_RED_ZONE then kc_size c - red_left_pad c else kc_size c)"

definition slub_debug_orig_size :: "kmem_cache \<Rightarrow> bool" where
  "slub_debug_orig_size c \<longleftrightarrow> has_flag c SLAB_STORE_USER \<and> has_flag c SLAB_KMALLOC"

definition get_orig_size :: "'a plugin_scheme \<Rightarrow> kmem_cache \<Rightarrow> uint" where
  "get_orig_size pl c =
     (if \<not> slub_debug_orig_size c then object_size c
      else get_info_end c + word_of_int (type_size pl ''track'' * 2))"

definition slab_counters :: "crash \<Rightarrow> 'a plugin_scheme \<Rightarrow> ulong \<Rightarrow> ulong" where
  "slab_counters cr pl page_addr = read_ulong cr (page_addr + off (field_offset pl (slab_page pl) ''counters'')) True"

text \<open>The remainder by a size of 0 is a division by zero; it is reached only past the two range tests.\<close>

definition check_valid_pointer :: "crash \<Rightarrow> 'a plugin_scheme \<Rightarrow> kmem_cache \<Rightarrow> ulong \<Rightarrow> ulong \<Rightarrow> bool option" where
  "check_valid_pointer cr pl c page_addr object_start =
     (if \<not> IS_KVADDR cr object_start then Some True
      else
        let slab_vaddr = phy_to_virt cr (page_to_phy cr page_addr);
            object = restore_red_left c object_start;
            objects = drop_bit 16 (slab_counters cr pl page_addr) AND 0x7FFF in
        if object < slab_vaddr \<or> object \<ge> slab_vaddr + objects * ucast (kc_size c) then Some False
        else if kc_size c = 0 then None
        else Some ((object - slab_vaddr) mod ucast (kc_size c) = 0))"

section \<open>The poison check\<close>

text \<open>
  What the check reports: a range of bytes that do not have their value (first and last address, offset
  in the slab, the first byte and the value expected), or an error of the object.
\<close>

datatype report =
  Overwritten string ulong ulong ulong byte byte
| Object_err string

text \<open>
  The trailer dumps the memory around the object. A section that cannot be read (one of no bytes
  cannot) is dumped from a null pointer.
\<close>

definition print_section :: "crash \<Rightarrow> ulong \<Rightarrow> uint \<Rightarrow> unit option" where
  "print_section cr page_addr len = map_option (\<lambda>_. ()) (read_memory cr page_addr (to_int32 (ucast len)) True)"

definition print_trailer :: "crash \<Rightarrow> 'a plugin_scheme \<Rightarrow> kmem_cache \<Rightarrow> ulong \<Rightarrow> ulong \<Rightarrow> unit option" where
  "print_trailer cr pl c slab_page_addr obj_start = do {
     let slab_vaddr = phy_to_virt cr (page_to_phy cr slab_page_addr);
     (if has_flag c SLAB_STORE_USER then print_section cr (obj_start - ucast (red_left_pad c)) (red_left_pad c)
      else if obj_start > slab_vaddr + 16 then print_section cr (obj_start - 16) 16 else Some ());
     print_section cr obj_start (if red_left_pad c < 4096 then red_left_pad c else 4096);
     (if has_flag c SLAB_RED_ZONE
      then print_section cr (obj_start + ucast (object_size c)) (kc_inuse c - object_size c) else Some ());
     let o' = get_info_end c + (if has_flag c SLAB_STORE_USER then word_of_int (2 * type_size pl ''track'') else 0);
     if o' \<noteq> size_from_object c then print_section cr (obj_start + ucast o') (size_from_object c - o') else Some () }"

definition object_err :: "crash \<Rightarrow> 'a plugin_scheme \<Rightarrow> kmem_cache \<Rightarrow> ulong \<Rightarrow> ulong \<Rightarrow> string \<Rightarrow> (bool \<times> report list) option" where
  "object_err cr pl c slab_page_addr object_start reason = do {
     print_trailer cr pl c slab_page_addr object_start;
     Some (False, [Object_err reason]) }"

function trim_end :: "crash \<Rightarrow> byte \<Rightarrow> ulong \<Rightarrow> ulong \<Rightarrow> ulong" where
  "trim_end cr value fault end' =
     (if end' > fault \<and> read_byte cr (end' - 1) True = value then trim_end cr value fault (end' - 1) else end')"
  by pat_completeness auto
termination
proof (relation "measure (\<lambda>(cr, value, fault, end'). unat end')", simp)
  fix cr and v :: byte and f e :: ulong
  assume "e > f \<and> read_byte cr (e - 1) True = v"
  then have "0 < unat e" by (auto simp: unat_gt_0)
  then have "1 \<le> e" by (simp add: word_le_nat_alt)
  with \<open>0 < unat e\<close> have "unat (e - 1) < unat e" by (simp add: unat_sub)
  then show "((cr, v, f, e - 1), cr, v, f, e) \<in> measure (\<lambda>(cr, value, fault, end'). unat end')" by simp
qed

declare trim_end.simps [simp del]

definition check_bytes_and_report ::
  "crash \<Rightarrow> 'a plugin_scheme \<Rightarrow> kmem_cache \<Rightarrow> ulong \<Rightarrow> ulong \<Rightarrow> string \<Rightarrow> ulong \<Rightarrow> byte \<Rightarrow> uint \<Rightarrow> (bool \<times> report list) option" where
  "check_bytes_and_report cr pl c page_addr obj_start what start value bytes =
     (let slab_vaddr = phy_to_virt cr (page_to_phy cr page_addr);
          fault = memchr_inv cr start value (unat bytes) in
      if \<not> IS_KVADDR cr fault then Some (True, [])
      else do {
        let end' = trim_end cr value fault (start + ucast bytes);
        print_trailer cr pl c page_addr obj_start;
        Some (False, [Overwritten what fault (end' - 1) (fault - slab_vaddr) (read_byte cr fault True) value]) })"

definition pad_offset :: "'a plugin_scheme \<Rightarrow> kmem_cache \<Rightarrow> uint" where
  "pad_offset pl c = get_info_end c +
     (if has_flag c SLAB_STORE_USER
      then word_of_int (2 * type_size pl ''track'') + (if has_flag c SLAB_KMALLOC then 4 else 0) else 0)"

definition check_pad_bytes :: "crash \<Rightarrow> 'a plugin_scheme \<Rightarrow> kmem_cache \<Rightarrow> ulong \<Rightarrow> ulong \<Rightarrow> (bool \<times> report list) option" where
  "check_pad_bytes cr pl c page_addr obj_start =
     (if size_from_object c = pad_offset pl c then Some (True, [])
      else check_bytes_and_report cr pl c page_addr obj_start ''Object padding'' (obj_start + ucast (pad_offset pl c))
        POISON_INUSE (size_from_object c - pad_offset pl c))"

definition check_redzones ::
  "crash \<Rightarrow> 'a plugin_scheme \<Rightarrow> kmem_cache \<Rightarrow> ulong \<Rightarrow> ulong \<Rightarrow> byte \<Rightarrow> (bool \<times> report list) option" where
  "check_redzones cr pl c page_addr object val = do {
     let endobject = object + ucast (object_size c);
     (a, ra) \<leftarrow> check_bytes_and_report cr pl c page_addr object ''Left Redzone'' (object - ucast (red_left_pad c)) val (red_left_pad c);
     (b, rb) \<leftarrow> check_bytes_and_report cr pl c page_addr object ''Right Redzone'' endobject val (kc_inuse c - object_size c);
     (k, rk) \<leftarrow>
       (if slub_debug_orig_size c \<and> val = SLUB_RED_ACTIVE
        then let orig_size = word_of_int (read_int cr (object + ucast (get_orig_size pl c)) True) in
          if object_size c > orig_size
          then check_bytes_and_report cr pl c page_addr object ''kmalloc Redzone'' (object + ucast orig_size) val (object_size c - orig_size)
          else Some (True, [])
        else Some (True, []));
     Some (a \<and> b \<and> k, ra @ rb @ rk) }"

text \<open>Damaged alignment padding is reported but does not fail the check.\<close>

definition check_alignment ::
  "crash \<Rightarrow> 'a plugin_scheme \<Rightarrow> kmem_cache \<Rightarrow> ulong \<Rightarrow> ulong \<Rightarrow> (bool \<times> report list) option" where
  "check_alignment cr pl c page_addr object =
     (if has_flag c SLAB_POISON \<and> object_size c < kc_inuse c
      then do {
        (_, r) \<leftarrow> check_bytes_and_report cr pl c page_addr object ''Alignment padding'' (object + ucast (object_size c))
          POISON_INUSE (kc_inuse c - object_size c);
        Some (True, r) }
      else Some (True, []))"

definition check_poison ::
  "crash \<Rightarrow> 'a plugin_scheme \<Rightarrow> kmem_cache \<Rightarrow> ulong \<Rightarrow> ulong \<Rightarrow> byte \<Rightarrow> (bool \<times> report list) option" where
  "check_poison cr pl c page_addr object val = do {
     (a, ra) \<leftarrow>
       (if val \<noteq> SLUB_RED_ACTIVE \<and> has_flag c OBJECT_POISON
        then do {
          (a, ra) \<leftarrow> check_bytes_and_report cr pl c page_addr object ''Poison'' object POISON_FREE (object_size c - 1);
          if \<not> a then Some (False, ra)
          else do {
            (b, rb) \<leftarrow> check_bytes_and_report cr pl c page_addr object ''End Poison''
              (object + ucast (object_size c) - 1) POISON_END 1;
            Some (b, ra @ rb) } }
        else Some (True, []));
     (b, rb) \<leftarrow> check_pad_bytes cr pl c page_addr object;
     Some (a \<and> b, ra @ rb) }"

definition check_freeptr ::
  "crash \<Rightarrow> 'a plugin_scheme \<Rightarrow> kmem_cache \<Rightarrow> ulong \<Rightarrow> ulong \<Rightarrow> byte \<Rightarrow> (bool \<times> report list) option" where
  "check_freeptr cr pl c page_addr object val =
     (if freeptr_outside_object c \<or> val \<noteq> SLUB_RED_ACTIVE
      then do {
        v \<leftarrow> check_valid_pointer cr pl c page_addr (get_free_pointer cr c object);
        if v then Some (True, []) else object_err cr pl c page_addr object ''Freepointer corrupt'' }
      else Some (True, []))"

definition slub_check_object ::
  "crash \<Rightarrow> 'a plugin_scheme \<Rightarrow> kmem_cache \<Rightarrow> ulong \<Rightarrow> ulong \<Rightarrow> byte \<Rightarrow> (bool \<times> report list) option" where
  "slub_check_object cr pl c page_addr object_start_addr val = do {
     let object = fixup_red_left c object_start_addr;
     (a, ra) \<leftarrow> (if has_flag c SLAB_RED_ZONE then check_redzones cr pl c page_addr object val
                else check_alignment cr pl c page_addr object);
     (b, rb) \<leftarrow> (if has_flag c SLAB_POISON then check_poison cr pl c page_addr object val else Some (True, []));
     (d, rd) \<leftarrow> check_freeptr cr pl c page_addr object val;
     Some (a \<and> b \<and> d, ra @ rb @ rd) }"

definition all_reports :: "(bool \<times> report list) list \<Rightarrow> bool \<times> report list" where
  "all_reports rs = (list_all fst rs, concat (map snd rs))"

definition check_object_poison ::
  "crash \<Rightarrow> 'a plugin_scheme \<Rightarrow> kmem_cache \<Rightarrow> slab \<Rightarrow> (bool \<times> report list) option" where
  "check_object_poison cr pl c s = map_option all_reports (those_opt (map
     (\<lambda>ob. slub_check_object cr pl c (first_page s) (ob_start ob) (if ob_is_free ob then SLUB_RED_INACTIVE else SLUB_RED_ACTIVE))
     (obj_list s)))"

text \<open>The slabs of a cache in the order the checks visit them; a null slab in a list is dereferenced.\<close>

definition cache_slabs :: "kmem_cache \<Rightarrow> slab list option" where
  "cache_slabs c = those_opt (concat (map (\<lambda>n. kn_partial n @ kn_full n) (node_list c)) @
     concat (map (\<lambda>p. cc_partial p @ (case cur_slab p of None \<Rightarrow> [] | Some s \<Rightarrow> [Some s])) (cpu_slabs c)))"

definition cache_poison :: "crash \<Rightarrow> 'a plugin_scheme \<Rightarrow> kmem_cache \<Rightarrow> (string \<times> bool \<times> report list) option" where
  "cache_poison cr pl c = do {
     slabs \<leftarrow> cache_slabs c;
     rs \<leftarrow> those_opt (map (check_object_poison cr pl c) slabs);
     Some (kc_name c, all_reports rs) }"

definition print_slub_poison :: "crash \<Rightarrow> slub \<Rightarrow> ulong \<Rightarrow> (string \<times> bool \<times> report list) list option" where
  "print_slub_poison cr pl kmem_cache_addr = those_opt (map (cache_poison cr pl)
     (filter (\<lambda>c. \<not> (kmem_cache_addr \<noteq> 0 \<and> kc_addr c \<noteq> kmem_cache_addr)) (cache_list pl)))"

section \<open>Traces\<close>

definition extract_callstack :: "crash \<Rightarrow> ulong \<Rightarrow> string" where
  "extract_callstack cr frames_addr =
     (if IS_KVADDR cr frames_addr
      then ''   [<'' @ show_hex (unat frames_addr) @ ''>] '' @
        (case value_search cr frames_addr of
           Some (name, o') \<Rightarrow> name @ ''+'' @ show_hex (unat o') @ [CHR 0x0A]
         | None \<Rightarrow> ''Unknown, Maybe should load module symbol'' @ [CHR 0x0A])
      else '''')"

text \<open>
  The bit fields of a stack handle; the offset is counted in units of 16 bytes. The result is the
  address of the entries, 0 without one, and the length of the stack where it has been read.
\<close>

definition handle_parts :: "crash \<Rightarrow> uint \<Rightarrow> ulong \<times> ulong" where
  "handle_parts cr h =
     (let w = (if THIS_KERNEL_VERSION cr \<ge> LINUX 6 8 0 then 17 else if THIS_KERNEL_VERSION cr \<ge> LINUX 6 1 0 then 16 else 21) in
      (ucast (take_bit w h), push_bit 4 (ucast (take_bit 10 (drop_bit w h)))))"

definition parser_stack_record :: "crash \<Rightarrow> slub \<Rightarrow> uint \<Rightarrow> (ulong \<times> uint) option" where
  "parser_stack_record cr pl page_owner_handle =
     (let (slabindex, offset) = handle_parts cr page_owner_handle;
          page_addr = read_pointer cr (stack_slabs pl + slabindex * 8) True;
          stack_record_addr = page_addr + offset in
      if slabindex > depot_index pl \<or> \<not> IS_KVADDR cr page_addr then Some (0, 0)
      else case read_struct cr pl stack_record_addr ''stack_record'' True of
        None \<Rightarrow> Some (0, 0)
      | Some record_buf \<Rightarrow> do {
          stack_len \<leftarrow> UINT record_buf (field_offset pl ''stack_record'' ''size'');
          record_handle \<leftarrow> UINT record_buf (field_offset pl ''stack_record'' ''handle'');
          if record_handle \<noteq> page_owner_handle then Some (0, stack_len)
          else Some (stack_record_addr + off (field_offset pl ''stack_record'' ''entries''), stack_len) })"

definition frames_at :: "crash \<Rightarrow> ulong \<Rightarrow> nat \<Rightarrow> string" where
  "frames_at cr entries n =
     (if \<not> IS_KVADDR cr entries then ''''
      else concat (map (\<lambda>i. extract_callstack cr (read_pointer cr (entries + 8 * of_nat i) True)) [0..<n]))"

definition parser_track :: "crash \<Rightarrow> slub \<Rightarrow> ulong \<Rightarrow> track \<Rightarrow> track option" where
  "parser_track cr pl track_addr t = do {
     track_buf \<leftarrow> read_struct cr pl track_addr ''track'' True;
     cpu \<leftarrow> UINT track_buf (field_offset pl ''track'' ''cpu'');
     pid \<leftarrow> UINT track_buf (field_offset pl ''track'' ''pid'');
     whn \<leftarrow> ULONG track_buf (field_offset pl ''track'' ''when'');
     let t = t\<lparr>tr_cpu := sint cpu, tr_pid := sint pid, tr_when := whn\<rparr>;
     if field_offset pl ''track'' ''handle'' \<noteq> -1
     then do {
       (entries, nr_size) \<leftarrow> parser_stack_record cr pl (read_uint cr (track_addr + off (field_offset pl ''track'' ''handle'')) True);
       Some (t\<lparr>tr_frame := tr_frame t @ frames_at cr entries (unat nr_size)\<rparr>) }
     else do {
       let frame_size = unat (ucast (off (field_size pl ''track'' ''addrs'') div 8) :: uint);
       Some (t\<lparr>tr_frame := tr_frame t @ frames_at cr (track_addr + off (field_offset pl ''track'' ''addrs'')) frame_size\<rparr>) } }"

definition get_track :: "'a plugin_scheme \<Rightarrow> kmem_cache \<Rightarrow> ulong \<Rightarrow> bool \<Rightarrow> ulong" where
  "get_track pl c object_start_addr is_free_track =
     object_start_addr + ucast (red_left_pad c) + ucast (get_info_end c) +
       ucast ((if is_free_track then 1 else 0) * (word_of_int (type_size pl ''track'') :: uint))"

fun trace_push :: "string \<Rightarrow> track \<Rightarrow> trace_map \<Rightarrow> trace_map" where
  "trace_push f t [] = [(f, [t])]"
| "trace_push f t ((g, ts) # m) = (if g = f then (g, ts @ [t]) # m else (g, ts) # trace_push f t m)"

definition parser_obj_track :: "crash \<Rightarrow> kmem_cache \<Rightarrow> obj \<Rightarrow> slub \<Rightarrow> slub option" where
  "parser_obj_track cr c ob pl = do {
     let tp = get_track pl c (ob_start ob) (ob_is_free ob);
     t \<leftarrow> parser_track cr pl tp
       \<lparr>trackp = tp, tr_frame = '''', tr_cpu = 0, tr_pid = 0, tr_when = 0, tr_cache = c, tr_obj_addr = ob_start ob\<rparr>;
     if tr_frame t = '''' then Some pl
     else if \<not> ob_is_free ob then Some (pl\<lparr>alloc_trace_map := trace_push (tr_frame t) t (alloc_trace_map pl)\<rparr>)
     else Some (pl\<lparr>free_trace_map := trace_push (tr_frame t) t (free_trace_map pl)\<rparr>) }"

definition parser_slab_track :: "crash \<Rightarrow> kmem_cache \<Rightarrow> slab \<Rightarrow> slub \<Rightarrow> slub option" where
  "parser_slab_track cr c s pl = fold_opt (parser_obj_track cr c) (obj_list s) pl"

definition parser_cache_track :: "crash \<Rightarrow> kmem_cache \<Rightarrow> slub \<Rightarrow> slub option" where
  "parser_cache_track cr c pl =
     (if \<not> has_flag c SLAB_STORE_USER then Some pl
      else do { slabs \<leftarrow> cache_slabs c; fold_opt (parser_slab_track cr c) slabs pl })"

definition parser_slub_trace :: "crash \<Rightarrow> slub \<Rightarrow> slub option" where
  "parser_slub_trace cr pl =
     (if alloc_trace_map pl \<noteq> [] \<and> free_trace_map pl \<noteq> [] then Some pl
      else fold_opt (parser_cache_track cr) (cache_list pl) pl)"

text \<open>The rows printed for a trace map, the most frequent frame first, and those of one frame, by pid.\<close>

definition parser_track_map :: "(string \<Rightarrow> ulong) \<Rightarrow> trace_map \<Rightarrow> (ulong \<times> nat \<times> string \<times> ulong \<times> string) list" where
  "parser_track_map hash m = map (\<lambda>(frame, ts).
     (hash frame, length ts, kc_name (tr_cache (hd ts)), of_nat (length ts) * ucast (kc_size (tr_cache (hd ts))), tr_frame (hd ts)))
     (sort_key (\<lambda>(frame, ts). - int (length ts)) m)"

fun pid_rows :: "int \<Rightarrow> nat \<Rightarrow> ulong \<Rightarrow> track list \<Rightarrow> (int \<times> nat \<times> ulong) list" where
  "pid_rows current_pid cnt sz [] = [(current_pid, cnt, sz)]"
| "pid_rows current_pid cnt sz (t # ts) =
     (if tr_pid t = current_pid then pid_rows current_pid (Suc cnt) (sz + ucast (kc_size (tr_cache t))) ts
      else (current_pid, cnt, sz) # pid_rows (tr_pid t) 1 (ucast (kc_size (tr_cache t))) ts)"

definition find_by_hash :: "(string \<Rightarrow> ulong) \<Rightarrow> slub \<Rightarrow> ulong \<Rightarrow> string \<times> track list" where
  "find_by_hash hash pl h =
     (case List.find (\<lambda>(frame, ts). hash frame = h) (alloc_trace_map pl @ free_trace_map pl) of
        Some e \<Rightarrow> e | None \<Rightarrow> ('''', []))"

definition trace_of_stack :: "(string \<Rightarrow> ulong) \<Rightarrow> slub \<Rightarrow> ulong \<Rightarrow> (int \<times> nat \<times> ulong) list option" where
  "trace_of_stack hash pl stack_id =
     (let (frame, ts) = find_by_hash hash pl stack_id in
      if frame = '''' then Some []
      else case sort_key tr_pid ts of [] \<Rightarrow> None | t # ts' \<Rightarrow> Some (pid_rows (tr_pid t) 0 0 (t # ts')))"

section \<open>Laws: bytes of one value\<close>

definition first_other :: "ulong \<Rightarrow> byte \<Rightarrow> byte list \<Rightarrow> ulong" where
  "first_other a v bs = (if \<forall>b \<in> set bs. b = v then 0 else a + of_nat (length (takeWhile (\<lambda>b. b = v) bs)))"

lemma first_other_simps [simp]:
  "first_other a v [] = 0"
  "first_other a v (b # bs) = (if b \<noteq> v then a else first_other (a + 1) v bs)"
  by (simp_all add: first_other_def)

lemma first_other_append:
  "first_other a v (xs @ ys) =
     (if \<forall>b \<in> set xs. b = v then first_other (a + of_nat (length xs)) v ys else first_other a v xs)"
  by (induction xs arbitrary: a) (auto simp: add.assoc [symmetric] add.commute)

lemma takeWhile_shorter: "\<not> (\<forall>b \<in> set xs. b = v) \<Longrightarrow> length (takeWhile (\<lambda>b. b = v) xs) < length xs"
  by (induction xs) auto

lemma mem_at_Cons:
  assumes "mem_at cr t a (b # bs)"
  shows "readmem cr t a 1 = Some [b]" "mem_at cr t (a + 1) bs"
  using mem_atD [OF assms, of 1 0] mem_at_drop [OF assms, of 1] by simp_all

lemma check_bytes8_mem:
  assumes "mem_at cr KVADDR a bs"
  shows "check_bytes8 cr a v (length bs) = first_other a v bs"
  using assms
proof (induction bs arbitrary: a)
  case (Cons b bs)
  have "read_byte cr a True = b" by (simp add: read_byte_def mem_at_Cons(1) [OF Cons.prems])
  then show ?case using Cons.IH [OF mem_at_Cons(2) [OF Cons.prems]] by simp
qed simp

lemma le_nat_replicate: "le_nat (replicate 8 v) = unat v * 0x0101010101010101"
proof -
  have "replicate 8 v = [v, v, v, v, v, v, v, v]" by (simp add: eval_nat_numeral)
  then show ?thesis by simp
qed

lemma le_nat_inj: "length xs = length ys \<Longrightarrow> le_nat xs = le_nat ys \<Longrightarrow> xs = ys"
proof (induction xs ys rule: list_induct2)
  case (Cons x xs y ys)
  have b: "unat x < 256" "unat y < 256" using unat_less_power [of x] unat_less_power [of y] by simp_all
  then have "unat x = unat y"
    using Cons.prems mod_mult_self2 [of "unat x" 256 "le_nat xs"] mod_mult_self2 [of "unat y" 256 "le_nat ys"] by simp
  then show ?case using Cons by (simp add: word_unat_eq_iff)
qed simp

lemma or_shift:
  fixes x :: ulong
  assumes "unat x < 2 ^ k" "k \<le> 64"
  shows "x OR push_bit k x = x * (1 + 2 ^ k)"
proof -
  have "x = take_bit k x"
    using assms(1) by (simp add: word_unat_eq_iff unsigned_take_bit_eq take_bit_nat_eq_self)
  then have "bit x n \<Longrightarrow> n < k" for n by (metis bit_take_bit_iff)
  then have "x AND push_bit k x = 0" by (intro bit_eqI) (fastforce simp: bit_simps dest: leD)
  then have "x OR push_bit k x = x + push_bit k x" by (rule disjunctive_add_eq_or [symmetric])
  then show ?thesis by (simp add: push_bit_eq_mult algebra_simps)
qed


lemma repeat_byte_eq: "repeat_byte cr v = of_nat (le_nat (replicate 8 v))"
proof -
  have v: "unat (ucast v :: ulong) = unat v" "unat v < 256"
    using unat_less_power [of v] by (simp_all add: unsigned_ucast_eq take_bit_nat_eq_self)
  let ?v = "ucast v :: ulong"
  have w: "?v * of_nat m = of_nat (unat v * m)" for m by (simp add: v(1) [symmetric])
  have u: "unat (?v * of_nat m) = unat v * m" if "m \<le> 2 ^ 32" for m
  proof -
    have "unat v * m \<le> 256 * 2 ^ 32" using v(2) that by (intro mult_le_mono) auto
    then show ?thesis unfolding w by (intro unat_of_nat_small) simp
  qed
  have a: "?v OR push_bit 8 ?v = ?v * of_nat 0x101" using or_shift [of ?v 8] v by simp
  have b: "?v * of_nat 0x101 OR push_bit 16 (?v * of_nat 0x101) = ?v * of_nat 0x01010101"
    using or_shift [of "?v * of_nat 0x101" 16] u [of "0x101"] v(2) by simp
  have c: "?v * of_nat 0x01010101 OR push_bit 32 (?v * of_nat 0x01010101) = ?v * of_nat 0x0101010101010101"
    using or_shift [of "?v * of_nat 0x01010101" 32] u [of "0x01010101"] v(2) by simp
  show ?thesis
    using a b c w [of "0x0101010101010101"] unfolding repeat_byte_def Let_def le_nat_replicate by simp
qed


lemma read_word_mem:
  assumes "mem_at cr KVADDR a (bs @ rest)" "length bs = 8"
  shows "read_ulonglong cr a True = repeat_byte cr v \<longleftrightarrow> (\<forall>b \<in> set bs. b = v)"
proof -
  have "readmem cr KVADDR a 8 = Some bs" using mem_atD [OF assms(1), of 8 0] assms(2) by simp
  then have "read_ulonglong cr a True = of_nat (le_nat bs)" by (simp add: read_ulonglong_def read_memory_def)
  moreover have "le_nat bs < 2 ^ LENGTH(64)" "le_nat (replicate 8 v) < 2 ^ LENGTH(64)"
    using le_nat_bound [of bs] le_nat_bound [of "replicate 8 v"] assms(2) by simp_all
  ultimately have "read_ulonglong cr a True = repeat_byte cr v \<longleftrightarrow> le_nat bs = le_nat (replicate 8 v)"
    unfolding repeat_byte_eq by (metis unat_of_nat_small)
  also have "\<dots> \<longleftrightarrow> bs = replicate 8 v" using le_nat_inj [of bs "replicate 8 v"] assms(2) by auto
  also have "\<dots> \<longleftrightarrow> (\<forall>b \<in> set bs. b = v)"
    using assms(2) by (metis in_set_replicate replicate_eqI)
  finally show ?thesis .
qed

lemma words_loop_mem:
  assumes "mem_at cr KVADDR a bs" "length bs = 8 * n + r" "r < 8"
  shows "words_loop cr v (repeat_byte cr v) r n a = first_other a v bs"
  using assms
proof (induction n arbitrary: a bs)
  case 0
  then show ?case using check_bytes8_mem [OF 0(1)] by simp
next
  case (Suc n)
  define xs ys where "xs = take 8 bs" and "ys = drop 8 bs"
  have bs: "bs = xs @ ys" "length xs = 8" "length ys = 8 * n + r"
    using Suc.prems(2) by (simp_all add: xs_def ys_def)
  have m: "mem_at cr KVADDR (a + 8) ys" using mem_at_drop [OF Suc.prems(1), of 8] by (simp add: ys_def)
  have x: "mem_at cr KVADDR a xs" using mem_at_take [OF Suc.prems(1)] by (simp add: xs_def)
  show ?case
    using read_word_mem [of cr a xs ys v] Suc.IH [OF m bs(3) Suc.prems(3)] Suc.prems(1) check_bytes8_mem [OF x, of v] bs
    by (simp add: first_other_append)
qed

lemma memchr_inv_eq:
  assumes "mem_at cr KVADDR a bs" "\<forall>i < length bs. a + of_nat i \<noteq> 0"
  shows "memchr_inv cr a v (length bs) = first_other a v bs"
proof (cases "length bs \<le> 16")
  case True
  then show ?thesis using check_bytes8_mem [OF assms(1)] by (simp add: memchr_inv_def)
next
  case False
  define p where "p = (if unat (a mod 8) \<noteq> 0 then 8 - unat (a mod 8) else 0)"
  have p: "p \<le> 8" by (simp add: p_def)
  define xs ys where "xs = take p bs" and "ys = drop p bs"
  have bs: "bs = xs @ ys" "length xs = p" "length ys = length bs - p"
    using False p by (simp_all add: xs_def ys_def)
  have m: "mem_at cr KVADDR (a + of_nat p) ys" using mem_at_drop [OF assms(1), of p] by (simp add: ys_def)
  have x: "mem_at cr KVADDR a xs" using mem_at_take [OF assms(1)] by (simp add: xs_def)
  have c: "(if p \<noteq> 0 then check_bytes8 cr a v p else 0) = first_other a v xs"
    using check_bytes8_mem [OF x, of v] bs by auto
  have w: "words_loop cr v (repeat_byte cr v) (length ys mod 8) (length ys div 8) (a + of_nat p) = first_other (a + of_nat p) v ys"
    by (rule words_loop_mem [OF m]) simp_all
  have "first_other a v xs \<noteq> 0" if "\<not> (\<forall>b \<in> set xs. b = v)"
  proof -
    from that have "length (takeWhile (\<lambda>b. b = v) xs) < length xs" by (rule takeWhile_shorter)
    also have "\<dots> \<le> length bs" by (simp add: xs_def)
    finally have "a + of_nat (length (takeWhile (\<lambda>b. b = v) xs)) \<noteq> 0" using assms(2) by blast
    with that show ?thesis by (simp only: first_other_def if_False not_False_eq_True)
  qed
  moreover have "first_other a v xs = 0" if "\<forall>b \<in> set xs. b = v" using that by (simp add: first_other_def)
  moreover have "first_other a v bs = (if \<forall>b \<in> set xs. b = v then first_other (a + of_nat p) v ys else first_other a v xs)"
    using first_other_append [of a v xs ys] unfolding bs(1) [symmetric] bs(2) .
  ultimately have "(if first_other a v xs \<noteq> 0 then first_other a v xs else first_other (a + of_nat p) v ys) = first_other a v bs"
    by auto
  then show ?thesis
    using False unfolding memchr_inv_def Let_def p_def [symmetric] c bs(3) [symmetric] w by simp
qed

section \<open>Laws: objects of a slab\<close>

lemma free_loop_returns:
  assumes "kc_size c \<noteq> 0"
  shows "\<exists>is. free_loop cr c base n a l = Some is \<and> (distinct l \<and> set l \<subseteq> {..<n} \<longrightarrow> distinct is \<and> set is \<subseteq> {..<n})"
  using assms
proof (induction cr c base n a l rule: free_loop.induct)
  case (1 cr c base n a l)
  show ?case
  proof (cases "IS_KVADDR cr a \<and> \<not> (n \<le> free_index c base a \<or> free_index c base a \<in> set l)")
    case True
    then have "free_loop cr c base n a l = free_loop cr c base n (get_free_pointer cr c a) (free_index c base a # l)"
      using 1(2) by (subst free_loop.simps) (simp add: Let_def)
    moreover have "\<exists>is. free_loop cr c base n (get_free_pointer cr c a) (free_index c base a # l) = Some is \<and>
        (distinct (free_index c base a # l) \<and> set (free_index c base a # l) \<subseteq> {..<n} \<longrightarrow> distinct is \<and> set is \<subseteq> {..<n})"
      by (rule 1(1)) (use True 1(2) in auto)
    ultimately show ?thesis using True by auto
  next
    case False
    then have "free_loop cr c base n a l = Some l" using 1(2) by (subst free_loop.simps) (auto simp: Let_def)
    then show ?thesis by simp
  qed
qed

lemma unat_ucast32 [simp]: "unat (ucast (s :: uint) :: ulong) = unat s"
  using unat_less_power [of s] by (simp add: unsigned_ucast_eq take_bit_nat_eq_self)

lemma of_nat_unat32 [simp]: "(of_nat (unat (s :: uint)) :: ulong) = ucast s"
  using unat_less_power [of s] by (simp add: word_unat_eq_iff unat_of_nat take_bit_nat_eq_self)

lemma unat_scaled:
  assumes "i < n" "n * unat s < 2 ^ 32"
  shows "unat (of_nat i * ucast (s :: uint) :: ulong) = i * unat s"
proof -
  have "i * unat s \<le> n * unat s" using assms(1) by (intro mult_le_mono1) simp
  then have "i * unat s < 2 ^ LENGTH(64)" using assms(2) by (rule le_less_trans [OF _ less_trans]) simp
  moreover have "of_nat i * ucast s = (of_nat (i * unat s) :: ulong)" by simp
  ultimately show ?thesis by (simp only: unat_of_nat_small)
qed

lemma free_index_obj:
  assumes "i < n" "n * unat (kc_size c) < 2 ^ 32" "kc_size c \<noteq> 0"
  shows "free_index c base (base + of_nat i * ucast (kc_size c)) = i"
proof -
  let ?s = "ucast (kc_size c) :: ulong"
  have s: "unat ?s = unat (kc_size c)" "unat (kc_size c) \<noteq> 0"
    using assms(3) by (simp_all add: unat_eq_0)
  have "unat ((of_nat i * ?s) div ?s) = i"
    using unat_scaled [OF assms(1,2)] s by (simp add: unat_div_distrib)
  moreover have "i < 2 ^ 32"
  proof -
    have "i < n * unat (kc_size c)" using assms(1) s(2) by (metis less_le_trans mult_le_mono2 mult.right_neutral One_nat_def Suc_leI not_gr0)
    then show ?thesis using assms(2) by simp
  qed
  ultimately show ?thesis by (simp add: free_index_def unsigned_ucast_eq take_bit_nat_eq_self)
qed

lemma free_loop_chain:
  assumes "chain (IS_KVADDR cr) (get_free_pointer cr c) a (map (\<lambda>i. base + of_nat i * ucast (kc_size c)) is)"
    and "distinct (l @ is)" "\<forall>i \<in> set is. i < n" "n * unat (kc_size c) < 2 ^ 32" "kc_size c \<noteq> 0"
  shows "free_loop cr c base n a l = Some (rev is @ l)"
  using assms
proof (induction "is" arbitrary: a l)
  case Nil
  then show ?case by (subst free_loop.simps) simp
next
  case (Cons i "is")
  then have a: "a = base + of_nat i * ucast (kc_size c)" "IS_KVADDR cr a" by auto
  have f: "free_index c base a = i" unfolding a(1) by (rule free_index_obj) (use Cons.prems in auto)
  have "free_loop cr c base n (get_free_pointer cr c a) (i # l) = Some (rev is @ i # l)"
    by (rule Cons.IH) (use Cons.prems in auto)
  then show ?case using a f Cons.prems by (subst free_loop.simps) (auto simp: Let_def)
qed

lemma obj_addrs:
  fixes base :: ulong
  assumes "n * unat (kc_size c) < 2 ^ 32" "unat base + n * unat (kc_size c) < 2 ^ 64" "kc_size c \<noteq> 0" "n < 2 ^ 32"
  shows "chain_walk (\<lambda>a. a < base + ucast (of_nat n * kc_size c)) (\<lambda>a. a + ucast (kc_size c)) base =
    Some (map (\<lambda>i. base + of_nat i * ucast (kc_size c)) [0..<n])"
proof -
  let ?s = "ucast (kc_size c) :: ulong"
  have s: "unat ?s = unat (kc_size c)" "0 < unat (kc_size c)"
    using assms(3) by (simp_all add: unat_gt_0)
  have u: "unat (base + of_nat i * ?s) = unat base + i * unat (kc_size c)" if "i \<le> n" for i
  proof -
    have "unat base + i * unat (kc_size c) \<le> unat base + n * unat (kc_size c)"
      using that by (intro add_left_mono mult_le_mono1)
    then have "unat base + i * unat (kc_size c) < 2 ^ LENGTH(64)" by (rule le_less_trans) (use assms(2) in simp)
    moreover have "base + of_nat i * ?s = of_nat (unat base + i * unat (kc_size c))"
      by simp
    ultimately show ?thesis by (simp only: unat_of_nat_small)
  qed
  have e: "(ucast (of_nat n * kc_size c) :: ulong) = of_nat n * ?s"
  proof -
    have "unat (of_nat n * kc_size c) = n * unat (kc_size c)"
      using assms(1,4) by (simp add: unat_word_ariths unat_of_nat)
    then have "(ucast (of_nat n * kc_size c) :: ulong) = of_nat (n * unat (kc_size c))" by (metis of_nat_unat32)
    then show ?thesis by simp
  qed
  have "chain (\<lambda>a. a < base + of_nat n * ?s) (\<lambda>a. a + ?s) (base + of_nat k * ?s) (map (\<lambda>i. base + of_nat i * ?s) [k..<n])"
    if "k \<le> n" for k
    using that
  proof (induction "n - k" arbitrary: k)
    case 0
    then show ?case by simp
  next
    case (Suc m)
    then have "k < n" by simp
    then have upt: "[k..<n] = k # [Suc k..<n]" by (simp add: upt_conv_Cons)
    have step: "base + of_nat k * ?s + ?s = base + of_nat (Suc k) * ?s" by (simp add: algebra_simps)
    have "base + of_nat k * ?s < base + of_nat n * ?s"
      using \<open>k < n\<close> u [of k] u [of n] s(2) by (simp add: word_less_nat_alt)
    moreover have "chain (\<lambda>a. a < base + of_nat n * ?s) (\<lambda>a. a + ?s) (base + of_nat (Suc k) * ?s)
        (map (\<lambda>i. base + of_nat i * ?s) [Suc k..<n])"
      by (rule Suc(1)) (use Suc(2) \<open>k < n\<close> in simp_all)
    ultimately show ?case unfolding upt list.map chain.simps step by simp
  qed
  from this [of 0] show ?thesis unfolding e chain_walk_eq_Some by simp
qed


lemma slab_obj_at:
  assumes "i < n" "n * unat (kc_size c) < 2 ^ 32" "kc_size c \<noteq> 0" "n < 2 ^ 31"
  shows "slab_obj c base fr (base + of_nat i * ucast (kc_size c)) =
    \<lparr>ob_index = int i + 1, ob_start = base + of_nat i * ucast (kc_size c),
     ob_end = base + of_nat (Suc i) * ucast (kc_size c), ob_is_free = (i \<in> set fr)\<rparr>"
proof -
  let ?s = "ucast (kc_size c) :: ulong"
  have "0 < unat (kc_size c)" using assms(3) by (simp add: unat_gt_0)
  then have "unat ((of_nat i * ?s) div ?s) = i"
    using unat_scaled [OF assms(1,2)] by (simp add: unat_div_distrib)
  then have "to_int32 ((of_nat i * ?s) div ?s) = int i"
    using assms(1,4) by (subst to_int32_small) simp_all
  then show ?thesis by (simp add: slab_obj_def Let_def algebra_simps)
qed

lemma slab_objs_tile:
  assumes "unat tot * unat (kc_size c) < 2 ^ 32" "unat base + unat tot * unat (kc_size c) < 2 ^ 64" "kc_size c \<noteq> 0"
    and "unat tot < 2 ^ 31"
  shows "slab_objs c base tot fr = Some (map (\<lambda>i. \<lparr>ob_index = int i + 1, ob_start = base + of_nat i * ucast (kc_size c),
     ob_end = base + of_nat (Suc i) * ucast (kc_size c), ob_is_free = (i \<in> set fr)\<rparr>) [0..<unat tot])"
proof -
  have "chain_walk (\<lambda>a. a < base + ucast (tot * kc_size c)) (\<lambda>a. a + ucast (kc_size c)) base =
      Some (map (\<lambda>i. base + of_nat i * ucast (kc_size c)) [0..<unat tot])"
    using obj_addrs [OF assms(1-3)] assms(4) by simp
  then show ?thesis using slab_obj_at [OF _ assms(1,3,4), of _ base fr] by (simp add: slab_objs_def)
qed

lemma totalobj_bound: "unat (totalobj (slab_of_counters c a w)) < 2 ^ 15"
proof -
  have "unat (word_of_int (take_bit 15 x) :: uint) < 2 ^ 15" for x :: int
  proof -
    have "uint (word_of_int (take_bit 15 x) :: uint) = take_bit 15 x" by (simp add: uint_word_of_int_eq)
    then show ?thesis using take_bit_int_less_exp [of 15 x] by (simp add: unat_eq_nat_uint nat_less_iff)
  qed
  moreover have "x AND 0x7FFF = take_bit 15 x" for x :: int by (simp add: take_bit_eq_mask mask_eq_exp_minus_1)
  ultimately show ?thesis by (simp add: slab_of_counters_def Let_def)
qed

text \<open>C25. The objects of a slab lie one after the other from its first address, as many as its counters say, each of
  the size of the cache and numbered from 1, and exactly those on the free list are marked free.\<close>

theorem parser_slab_objects:
  assumes "parser_slab cr pl c page = Some (Some s)" "kc_size c \<noteq> 0"
    and "unat (totalobj s) * unat (kc_size c) < 2 ^ 32" "unat (phy_to_virt cr (page_to_phy cr page)) + unat (totalobj s) * unat (kc_size c) < 2 ^ 64"
    and "read_struct cr pl page (slab_page pl) True = Some buf"
    and "ULONG buf (field_offset pl (slab_page pl) ''freelist'') = Some freelist"
    and "chain (IS_KVADDR cr) (get_free_pointer cr c) freelist
      (map (\<lambda>i. phy_to_virt cr (page_to_phy cr page) + of_nat i * ucast (kc_size c)) fl)"
    and "distinct fl" "\<forall>i \<in> set fl. i < unat (totalobj s)"
  shows "obj_list s = map (\<lambda>i. \<lparr>ob_index = int i + 1,
      ob_start = phy_to_virt cr (page_to_phy cr page) + of_nat i * ucast (kc_size c),
      ob_end = phy_to_virt cr (page_to_phy cr page) + of_nat (Suc i) * ucast (kc_size c),
      ob_is_free = (i \<in> set fl)\<rparr>) [0..<unat (totalobj s)]"
proof -
  let ?base = "phy_to_virt cr (page_to_phy cr page)"
  obtain w fr objs where w: "totalobj s = totalobj (slab_of_counters c page w)"
    and fr: "free_loop cr c ?base (unat (totalobj s)) freelist [] = Some fr"
    and objs: "slab_objs c ?base (totalobj s) fr = Some objs" and s: "obj_list s = objs"
    using assms(1,5,6) by (auto simp: parser_slab_def Let_def bind_eq_Some_conv split: if_splits)
  have "fr = rev fl"
    using free_loop_chain [OF assms(7), of "[]"] assms(2,3,8,9) fr by simp
  moreover have "unat (totalobj s) < 2 ^ 31"
    unfolding w by (rule less_trans [OF totalobj_bound]) simp
  ultimately show ?thesis using slab_objs_tile [OF assms(3,4,2)] objs s by simp
qed

section \<open>Laws: the poison check\<close>

text \<open>Memory that can be checked: the bytes are in the dump and their addresses are kernel addresses.\<close>

definition region_ok :: "crash \<Rightarrow> ulong \<Rightarrow> nat \<Rightarrow> bool" where
  "region_ok cr a n \<longleftrightarrow> (\<exists>bs. length bs = n \<and> mem_at cr KVADDR a bs) \<and> (\<forall>i < n. IS_KVADDR cr (a + of_nat i)) \<and>
     \<not> IS_KVADDR cr 0"

definition all_bytes :: "crash \<Rightarrow> ulong \<Rightarrow> byte \<Rightarrow> nat \<Rightarrow> bool" where
  "all_bytes cr a v n \<longleftrightarrow> (\<forall>i < n. read_byte cr (a + of_nat i) True = v)"

lemma read_byte_mem:
  assumes "mem_at cr KVADDR a bs" "i < length bs"
  shows "read_byte cr (a + of_nat i) True = bs ! i"
proof -
  have "take 1 (drop i bs) = [bs ! i]" using assms(2) by (metis One_nat_def hd_drop_conv_nth length_drop take_Suc take0 zero_less_diff drop_eq_Nil leD list.size(3) length_greater_0_conv)
  then show ?thesis using mem_atD [OF assms(1), of 1 i] assms(2) by (simp add: read_byte_def)
qed

lemma all_bytes_mem: "mem_at cr KVADDR a bs \<Longrightarrow> all_bytes cr a v (length bs) \<longleftrightarrow> (\<forall>b \<in> set bs. b = v)"
  by (auto simp: all_bytes_def read_byte_mem all_set_conv_all_nth)

lemma check_bytes_and_report_ok:
  assumes "region_ok cr start (unat n)"
  shows "all_bytes cr start v (unat n) \<Longrightarrow> check_bytes_and_report cr pl c page ob what start v n = Some (True, [])"
    and "check_bytes_and_report cr pl c page ob what start v n = Some (r, rs) \<Longrightarrow> r \<longleftrightarrow> all_bytes cr start v (unat n)"
proof -
  obtain bs where bs: "length bs = unat n" "mem_at cr KVADDR start bs"
    and kv: "\<forall>i < unat n. IS_KVADDR cr (start + of_nat i)" "\<not> IS_KVADDR cr 0"
    using assms by (auto simp: region_ok_def)
  have nz: "\<forall>i < length bs. start + of_nat i \<noteq> 0" using kv bs by auto
  have f: "IS_KVADDR cr (memchr_inv cr start v (unat n)) \<longleftrightarrow> \<not> all_bytes cr start v (unat n)"
    using memchr_inv_eq [OF bs(2) nz, of v] all_bytes_mem [OF bs(2), of v] takeWhile_shorter [of bs v] kv bs(1) by (auto simp: first_other_def)
  then show "all_bytes cr start v (unat n) \<Longrightarrow> check_bytes_and_report cr pl c page ob what start v n = Some (True, [])"
    by (simp add: check_bytes_and_report_def Let_def)
  show "r \<longleftrightarrow> all_bytes cr start v (unat n)" if "check_bytes_and_report cr pl c page ob what start v n = Some (r, rs)"
    using that f by (auto simp: check_bytes_and_report_def Let_def bind_eq_Some_conv split: if_splits)
qed

text \<open>The bytes an object of a cache must have, each part with its value, and the padding only reported on.\<close>

definition kmalloc_part :: "crash \<Rightarrow> 'a plugin_scheme \<Rightarrow> kmem_cache \<Rightarrow> ulong \<Rightarrow> byte \<Rightarrow> (ulong \<times> byte \<times> uint) list" where
  "kmalloc_part cr pl c ob v =
     (let orig = word_of_int (read_int cr (ob + ucast (get_orig_size pl c)) True) in
      if slub_debug_orig_size c \<and> v = SLUB_RED_ACTIVE \<and> object_size c > orig
      then [(ob + ucast orig, v, object_size c - orig)] else [])"

definition pad_part :: "'a plugin_scheme \<Rightarrow> kmem_cache \<Rightarrow> ulong \<Rightarrow> (ulong \<times> byte \<times> uint) list" where
  "pad_part pl c ob =
     (if size_from_object c = pad_offset pl c then []
      else [(ob + ucast (pad_offset pl c), POISON_INUSE, size_from_object c - pad_offset pl c)])"

definition redzone_part :: "crash \<Rightarrow> 'a plugin_scheme \<Rightarrow> kmem_cache \<Rightarrow> ulong \<Rightarrow> byte \<Rightarrow> (ulong \<times> byte \<times> uint) list" where
  "redzone_part cr pl c ob v =
     [(ob - ucast (red_left_pad c), v, red_left_pad c), (ob + ucast (object_size c), v, kc_inuse c - object_size c)] @
     kmalloc_part cr pl c ob v"

definition poison_part :: "'a plugin_scheme \<Rightarrow> kmem_cache \<Rightarrow> ulong \<Rightarrow> byte \<Rightarrow> (ulong \<times> byte \<times> uint) list" where
  "poison_part pl c ob v =
     (if v \<noteq> SLUB_RED_ACTIVE \<and> has_flag c OBJECT_POISON
      then [(ob, POISON_FREE, object_size c - 1), (ob + ucast (object_size c) - 1, POISON_END, 1)] else []) @
     pad_part pl c ob"

definition expected_bytes :: "crash \<Rightarrow> 'a plugin_scheme \<Rightarrow> kmem_cache \<Rightarrow> ulong \<Rightarrow> byte \<Rightarrow> (ulong \<times> byte \<times> uint) list" where
  "expected_bytes cr pl c ob v =
     (if has_flag c SLAB_RED_ZONE then redzone_part cr pl c ob v else []) @
     (if has_flag c SLAB_POISON then poison_part pl c ob v else [])"

definition padding_bytes :: "kmem_cache \<Rightarrow> ulong \<Rightarrow> (ulong \<times> byte \<times> uint) list" where
  "padding_bytes c ob =
     (if \<not> has_flag c SLAB_RED_ZONE \<and> has_flag c SLAB_POISON \<and> object_size c < kc_inuse c
      then [(ob + ucast (object_size c), POISON_INUSE, kc_inuse c - object_size c)] else [])"

definition bytes_ok :: "crash \<Rightarrow> (ulong \<times> byte \<times> uint) list \<Rightarrow> bool" where
  "bytes_ok cr ps \<longleftrightarrow> list_all (\<lambda>(a, v, n). all_bytes cr a v (unat n)) ps"

definition regions_ok :: "crash \<Rightarrow> (ulong \<times> byte \<times> uint) list \<Rightarrow> bool" where
  "regions_ok cr ps \<longleftrightarrow> list_all (\<lambda>(a, v, n). region_ok cr a (unat n)) ps"

definition freeptr_ok :: "crash \<Rightarrow> 'a plugin_scheme \<Rightarrow> kmem_cache \<Rightarrow> ulong \<Rightarrow> ulong \<Rightarrow> byte \<Rightarrow> bool" where
  "freeptr_ok cr pl c page ob v \<longleftrightarrow>
     (freeptr_outside_object c \<or> v \<noteq> SLUB_RED_ACTIVE \<longrightarrow> check_valid_pointer cr pl c page (get_free_pointer cr c ob) = Some True)"

lemma parts_simps [simp]:
  "bytes_ok cr []" "bytes_ok cr ((a, v, n) # ps) \<longleftrightarrow> all_bytes cr a v (unat n) \<and> bytes_ok cr ps"
  "bytes_ok cr (ps @ qs) \<longleftrightarrow> bytes_ok cr ps \<and> bytes_ok cr qs"
  "regions_ok cr []" "regions_ok cr ((a, v, n) # ps) \<longleftrightarrow> region_ok cr a (unat n) \<and> regions_ok cr ps"
  "regions_ok cr (ps @ qs) \<longleftrightarrow> regions_ok cr ps \<and> regions_ok cr qs"
  by (auto simp: bytes_ok_def regions_ok_def)

lemmas cbr_ok = check_bytes_and_report_ok

lemma check_redzones_ok:
  assumes "regions_ok cr (redzone_part cr pl c ob v)"
  shows "bytes_ok cr (redzone_part cr pl c ob v) \<Longrightarrow> check_redzones cr pl c page ob v = Some (True, [])"
    and "check_redzones cr pl c page ob v = Some (r, rs) \<Longrightarrow> r \<longleftrightarrow> bytes_ok cr (redzone_part cr pl c ob v)"
  using assms
  by (auto simp: check_redzones_def redzone_part_def Let_def kmalloc_part_def bind_eq_Some_conv cbr_ok(1)
    dest!: cbr_ok(2) [rotated] split: if_splits)

lemma check_alignment_ok:
  assumes "\<not> has_flag c SLAB_RED_ZONE" "regions_ok cr (padding_bytes c ob)"
  shows "bytes_ok cr (padding_bytes c ob) \<Longrightarrow> check_alignment cr pl c page ob = Some (True, [])"
    and "check_alignment cr pl c page ob = Some (r, rs) \<Longrightarrow> r"
  using assms by (auto simp: check_alignment_def padding_bytes_def bind_eq_Some_conv cbr_ok(1) split: if_splits)

lemma check_pad_bytes_ok:
  assumes "regions_ok cr (pad_part pl c ob)"
  shows "bytes_ok cr (pad_part pl c ob) \<Longrightarrow> check_pad_bytes cr pl c page ob = Some (True, [])"
    and "check_pad_bytes cr pl c page ob = Some (r, rs) \<Longrightarrow> r \<longleftrightarrow> bytes_ok cr (pad_part pl c ob)"
  using assms by (auto simp: check_pad_bytes_def pad_part_def cbr_ok(1) dest!: cbr_ok(2) [rotated] split: if_splits)

lemma check_poison_ok:
  assumes "regions_ok cr (poison_part pl c ob v)"
  shows "bytes_ok cr (poison_part pl c ob v) \<Longrightarrow> check_poison cr pl c page ob v = Some (True, [])"
    and "check_poison cr pl c page ob v = Some (r, rs) \<Longrightarrow> r \<longleftrightarrow> bytes_ok cr (poison_part pl c ob v)"
proof -
  have "regions_ok cr (pad_part pl c ob)" using assms by (simp add: poison_part_def)
  note q = check_pad_bytes_ok [OF this]
  show "check_poison cr pl c page ob v = Some (True, [])" if "bytes_ok cr (poison_part pl c ob v)"
    using assms that q(1) [of page] by (auto simp: check_poison_def poison_part_def cbr_ok(1) split: if_splits)
  show "r \<longleftrightarrow> bytes_ok cr (poison_part pl c ob v)" if "check_poison cr pl c page ob v = Some (r, rs)"
    using assms that
    by (auto simp: check_poison_def poison_part_def bind_eq_Some_conv dest!: q(2) cbr_ok(2) [rotated] split: if_splits)
qed

lemma check_freeptr_ok:
  shows "freeptr_ok cr pl c page ob v \<Longrightarrow> check_freeptr cr pl c page ob v = Some (True, [])"
    and "check_freeptr cr pl c page ob v = Some (r, rs) \<Longrightarrow> r \<longleftrightarrow> freeptr_ok cr pl c page ob v"
  by (auto simp: check_freeptr_def freeptr_ok_def object_err_def bind_eq_Some_conv split: if_splits)

lemma slub_check_object_ok:
  assumes "regions_ok cr (expected_bytes cr pl c ob v @ padding_bytes c ob)" "ob = fixup_red_left c a"
  shows "bytes_ok cr (expected_bytes cr pl c ob v @ padding_bytes c ob) \<Longrightarrow> freeptr_ok cr pl c page ob v \<Longrightarrow>
      slub_check_object cr pl c page a v = Some (True, [])"
    and "slub_check_object cr pl c page a v = Some (r, rs) \<Longrightarrow>
      r \<longleftrightarrow> bytes_ok cr (expected_bytes cr pl c ob v) \<and> freeptr_ok cr pl c page ob v"
proof -
  show "slub_check_object cr pl c page a v = Some (True, [])"
    if "bytes_ok cr (expected_bytes cr pl c ob v @ padding_bytes c ob)" "freeptr_ok cr pl c page ob v"
    using assms that check_freeptr_ok(1)
    by (auto simp: slub_check_object_def Let_def expected_bytes_def check_redzones_ok(1) check_alignment_ok(1)
      check_poison_ok(1) split: if_splits)
  show "r \<longleftrightarrow> bytes_ok cr (expected_bytes cr pl c ob v) \<and> freeptr_ok cr pl c page ob v"
    if "slub_check_object cr pl c page a v = Some (r, rs)"
    using assms that
    by (auto simp: slub_check_object_def Let_def expected_bytes_def bind_eq_Some_conv
      dest!: check_freeptr_ok(2) check_redzones_ok(2) [rotated] check_poison_ok(2) [rotated]
      dest: check_alignment_ok(2) [rotated 2] split: if_splits)
qed

section \<open>Laws: traces\<close>

definition with_traces :: "slub \<Rightarrow> trace_map \<times> trace_map \<Rightarrow> slub" where
  "with_traces pl m = pl\<lparr>alloc_trace_map := fst m, free_trace_map := snd m\<rparr>"

lemma lookup_with_traces [simp]:
  "type_offset (with_traces pl m) t f = type_offset pl t f" "field_size (with_traces pl m) t f = field_size pl t f"
  "type_size (with_traces pl m) t = type_size pl t"
  "stack_slabs (with_traces pl m) = stack_slabs pl" "depot_index (with_traces pl m) = depot_index pl"
  "alloc_trace_map (with_traces pl m) = fst m" "free_trace_map (with_traces pl m) = snd m"
  "cache_list (with_traces pl m) = cache_list pl"
  "with_traces (with_traces pl m) m' = with_traces pl m'"
  "with_traces pl (alloc_trace_map pl, free_trace_map pl) = pl"
  "(with_traces pl m)\<lparr>alloc_trace_map := x\<rparr> = with_traces pl (x, snd m)"
  "(with_traces pl m)\<lparr>free_trace_map := x\<rparr> = with_traces pl (fst m, x)"
  by (simp_all add: with_traces_def type_offset_def field_size_def type_size_def)

lemma read_with_traces [simp]:
  "read_struct cr (with_traces pl m) = read_struct cr pl" "get_track (with_traces pl m) = get_track pl"
  unfolding read_struct_def [abs_def] get_track_def [abs_def] lookup_with_traces by (rule refl)+

lemma parser_stack_record_with_traces [simp]: "parser_stack_record cr (with_traces pl m) = parser_stack_record cr pl"
  unfolding parser_stack_record_def [abs_def] lookup_with_traces read_with_traces by (rule refl)

lemma parser_track_with_traces [simp]: "parser_track cr (with_traces pl m) = parser_track cr pl"
  unfolding parser_track_def [abs_def] lookup_with_traces read_with_traces parser_stack_record_with_traces by (rule refl)

text \<open>The track an object adds, with whether it is a free track; none when it has no frame.\<close>

definition obj_tracks :: "crash \<Rightarrow> slub \<Rightarrow> kmem_cache \<Rightarrow> obj \<Rightarrow> (bool \<times> track) list option" where
  "obj_tracks cr pl c ob = do {
     let tp = get_track pl c (ob_start ob) (ob_is_free ob);
     t \<leftarrow> parser_track cr pl tp
       \<lparr>trackp = tp, tr_frame = '''', tr_cpu = 0, tr_pid = 0, tr_when = 0, tr_cache = c, tr_obj_addr = ob_start ob\<rparr>;
     Some (if tr_frame t = '''' then [] else [(ob_is_free ob, t)]) }"

fun push_tracks :: "(bool \<times> track) list \<Rightarrow> trace_map \<times> trace_map \<Rightarrow> trace_map \<times> trace_map" where
  "push_tracks [] m = m"
| "push_tracks ((f, t) # ps) (am, fm) =
     push_tracks ps (if f then (am, trace_push (tr_frame t) t fm) else (trace_push (tr_frame t) t am, fm))"

lemma push_tracks_append: "push_tracks (ps @ qs) m = push_tracks qs (push_tracks ps m)"
  by (induction ps m rule: push_tracks.induct) auto

lemma parser_obj_track_pushes:
  "parser_obj_track cr c ob (with_traces pl m) = map_option (\<lambda>ps. with_traces pl (push_tracks ps m)) (obj_tracks cr pl c ob)"
  by (cases m; cases "parser_track cr pl (get_track pl c (ob_start ob) (ob_is_free ob))
       \<lparr>trackp = get_track pl c (ob_start ob) (ob_is_free ob), tr_frame = '''', tr_cpu = 0, tr_pid = 0, tr_when = 0, tr_cache = c,
        tr_obj_addr = ob_start ob\<rparr>")
    (auto simp: parser_obj_track_def obj_tracks_def Let_def)

text \<open>A loop whose rounds each add a list to a state adds the lists of all rounds.\<close>

lemma fold_opt_pushes:
  assumes "\<And>x m. f x (with_traces pl m) = map_option (\<lambda>ps. with_traces pl (push_tracks ps m)) (g x)"
  shows "fold_opt f xs (with_traces pl m) =
    map_option (\<lambda>pss. with_traces pl (push_tracks (concat pss) m)) (those_opt (map g xs))"
proof (induction xs arbitrary: m)
  case (Cons x xs)
  show ?case
    by (cases "g x"; cases "those_opt (map g xs)") (simp_all add: assms Cons.IH push_tracks_append)
qed simp

definition slab_tracks :: "crash \<Rightarrow> slub \<Rightarrow> kmem_cache \<Rightarrow> slab \<Rightarrow> (bool \<times> track) list option" where
  "slab_tracks cr pl c s = map_option concat (those_opt (map (obj_tracks cr pl c) (obj_list s)))"

definition cache_tracks :: "crash \<Rightarrow> slub \<Rightarrow> kmem_cache \<Rightarrow> (bool \<times> track) list option" where
  "cache_tracks cr pl c =
     (if \<not> has_flag c SLAB_STORE_USER then Some []
      else do { slabs \<leftarrow> cache_slabs c; pss \<leftarrow> those_opt (map (slab_tracks cr pl c) slabs); Some (concat pss) })"

definition all_tracks :: "crash \<Rightarrow> slub \<Rightarrow> (bool \<times> track) list option" where
  "all_tracks cr pl = map_option concat (those_opt (map (cache_tracks cr pl) (cache_list pl)))"

lemma parser_slab_track_pushes:
  "parser_slab_track cr c s (with_traces pl m) = map_option (\<lambda>ps. with_traces pl (push_tracks ps m)) (slab_tracks cr pl c s)"
  unfolding parser_slab_track_def slab_tracks_def
  by (subst fold_opt_pushes [OF parser_obj_track_pushes]) (simp add: option.map_comp comp_def)

lemma parser_cache_track_pushes:
  "parser_cache_track cr c (with_traces pl m) = map_option (\<lambda>ps. with_traces pl (push_tracks ps m)) (cache_tracks cr pl c)"
proof (cases "cache_slabs c")
  case (Some slabs)
  have "fold_opt (parser_slab_track cr c) slabs (with_traces pl m) =
      map_option (\<lambda>pss. with_traces pl (push_tracks (concat pss) m)) (those_opt (map (slab_tracks cr pl c) slabs))"
    by (rule fold_opt_pushes) (rule parser_slab_track_pushes)
  then show ?thesis using Some
    by (cases "those_opt (map (slab_tracks cr pl c) slabs)") (auto simp: parser_cache_track_def cache_tracks_def)
qed (simp add: parser_cache_track_def cache_tracks_def)

lemma parser_slub_trace_pushes:
  "parser_slub_trace cr (with_traces pl m) =
     (if fst m \<noteq> [] \<and> snd m \<noteq> [] then Some (with_traces pl m)
      else map_option (\<lambda>ps. with_traces pl (push_tracks ps m)) (all_tracks cr pl))"
proof -
  have "fold_opt (parser_cache_track cr) (cache_list pl) (with_traces pl m) =
      map_option (\<lambda>pss. with_traces pl (push_tracks (concat pss) m)) (those_opt (map (cache_tracks cr pl) (cache_list pl)))"
    by (rule fold_opt_pushes) (rule parser_cache_track_pushes)
  then show ?thesis by (simp add: parser_slub_trace_def all_tracks_def option.map_comp comp_def)
qed

text \<open>The tracks of a map, by frame.\<close>

definition tracks_of :: "trace_map \<Rightarrow> string \<Rightarrow> track list" where
  "tracks_of m f = (case map_of m f of None \<Rightarrow> [] | Some ts \<Rightarrow> ts)"

lemma tracks_of_push: "tracks_of (trace_push g t m) f = tracks_of m f @ (if f = g then [t] else [])"
  by (induction g t m rule: trace_push.induct) (auto simp: tracks_of_def)

lemma trace_push_keys [simp]: "fst ` set (trace_push g t m) = insert g (fst ` set m)"
  by (induction g t m rule: trace_push.induct) auto

lemma trace_push_distinct: "distinct (map fst m) \<Longrightarrow> distinct (map fst (trace_push g t m))"
  by (induction g t m rule: trace_push.induct) auto

lemma push_tracks_distinct:
  "distinct (map fst (fst m)) \<Longrightarrow> distinct (map fst (snd m)) \<Longrightarrow>
     distinct (map fst (fst (push_tracks ps m))) \<and> distinct (map fst (snd (push_tracks ps m)))"
  by (induction ps m rule: push_tracks.induct) (auto simp: trace_push_distinct)

definition chosen :: "bool \<Rightarrow> string \<Rightarrow> (bool \<times> track) list \<Rightarrow> track list" where
  "chosen f fr ps = map snd (filter (\<lambda>(g, t). g = f \<and> tr_frame t = fr) ps)"

lemma push_tracks_of:
  "tracks_of (fst (push_tracks ps m)) fr = tracks_of (fst m) fr @ chosen False fr ps"
  "tracks_of (snd (push_tracks ps m)) fr = tracks_of (snd m) fr @ chosen True fr ps"
  by (induction ps m rule: push_tracks.induct) (auto simp: chosen_def tracks_of_push)


lemma first_parse:
  assumes "parser_slub_trace cr pl = Some pl'" "alloc_trace_map pl = []" "free_trace_map pl = []"
  obtains ps where "all_tracks cr pl = Some ps" "pl' = with_traces pl (push_tracks ps ([], []))"
proof -
  have pl: "with_traces pl ([], []) = pl" using assms(2,3) by (metis lookup_with_traces(10))
  then have "map_option (\<lambda>ps. with_traces pl (push_tracks ps ([], []))) (all_tracks cr pl) = Some pl'"
    using assms(1) parser_slub_trace_pushes [of cr pl "([], [])"] by simp
  with that show ?thesis by (cases "all_tracks cr pl") auto
qed

text \<open>C27. The first parse of the traces groups the tracks of all objects of the caches that store them: each map
  has a frame at most once, with the tracks of that frame in the order the objects are visited,
  allocated objects in the one map and freed ones in the other.\<close>

theorem parser_slub_trace_groups:
  assumes "parser_slub_trace cr pl = Some pl'" "alloc_trace_map pl = []" "free_trace_map pl = []"
  shows "\<exists>ps. all_tracks cr pl = Some ps \<and>
    distinct (map fst (alloc_trace_map pl')) \<and> distinct (map fst (free_trace_map pl')) \<and>
    (\<forall>fr. tracks_of (alloc_trace_map pl') fr = chosen False fr ps \<and> tracks_of (free_trace_map pl') fr = chosen True fr ps)"
proof -
  obtain ps where ps: "all_tracks cr pl = Some ps" and pl': "pl' = with_traces pl (push_tracks ps ([], []))"
    using first_parse [OF assms] .
  have e: "tracks_of [] fr = []" for fr by (simp add: tracks_of_def)
  show ?thesis
    using ps push_tracks_distinct [of "([], [])" ps] by (auto simp: pl' push_tracks_of e)
qed

text \<open>When the first parse finds no free track the second one does not see that the work is done: every
  allocation is counted again.\<close>

theorem parser_slub_trace_again:
  assumes "parser_slub_trace cr pl = Some pl1" "alloc_trace_map pl = []" "free_trace_map pl = []" "free_trace_map pl1 = []"
  shows "\<exists>pl2. parser_slub_trace cr pl1 = Some pl2 \<and>
    (\<forall>fr. tracks_of (alloc_trace_map pl2) fr = tracks_of (alloc_trace_map pl1) fr @ tracks_of (alloc_trace_map pl1) fr)"
proof -
  obtain ps where ps: "all_tracks cr pl = Some ps" and pl1: "pl1 = with_traces pl (push_tracks ps ([], []))"
    using first_parse [OF assms(1-3)] .
  have e: "tracks_of [] fr = []" for fr by (simp add: tracks_of_def)
  have "parser_slub_trace cr pl1 = Some (with_traces pl (push_tracks ps (push_tracks ps ([], []))))"
    using assms(4) ps by (simp add: pl1 parser_slub_trace_pushes)
  then show ?thesis by (simp add: pl1 push_tracks_of e)
qed

section \<open>Laws: rows of a trace\<close>

definition pid_tracks :: "int \<Rightarrow> track list \<Rightarrow> track list" where
  "pid_tracks p ts = filter (\<lambda>t. tr_pid t = p) ts"

definition track_bytes :: "track list \<Rightarrow> ulong" where
  "track_bytes ts = sum_list (map (\<lambda>t. ucast (kc_size (tr_cache t))) ts)"

lemma pid_tracks_simps [simp]:
  "pid_tracks p [] = []" "pid_tracks p (t # ts) = (if tr_pid t = p then t # pid_tracks p ts else pid_tracks p ts)"
  "track_bytes [] = 0" "track_bytes (t # ts) = ucast (kc_size (tr_cache t)) + track_bytes ts"
  by (simp_all add: pid_tracks_def track_bytes_def)

lemma pid_rows_spec:
  assumes "sorted (map tr_pid ts)" "\<forall>t \<in> set ts. p \<le> tr_pid t"
  shows "sorted_wrt (<) (map fst (pid_rows p n sz ts)) \<and> fst ` set (pid_rows p n sz ts) = insert p (tr_pid ` set ts) \<and>
    (\<forall>(q, m, z) \<in> set (pid_rows p n sz ts).
       m = (if q = p then n else 0) + length (pid_tracks q ts) \<and> z = (if q = p then sz else 0) + track_bytes (pid_tracks q ts))"
  using assms
proof (induction ts arbitrary: p n sz)
  case Nil
  then show ?case by simp
next
  case (Cons t ts)
  show ?case
  proof (cases "tr_pid t = p")
    case True
    have "sorted (map tr_pid ts)" "\<forall>u \<in> set ts. p \<le> tr_pid u" using Cons.prems by auto
    from Cons.IH [OF this, of "Suc n" "sz + ucast (kc_size (tr_cache t))"] show ?thesis
      using True by (auto simp: add.assoc split: if_splits dest!: bspec)
  next
    case False
    then have lt: "p < tr_pid t" "\<forall>u \<in> set ts. p < tr_pid u" using Cons.prems by force+
    have none: "pid_tracks p ts = []" using lt by (auto simp: pid_tracks_def filter_empty_conv)
    define R where "R = pid_rows (tr_pid t) 1 (ucast (kc_size (tr_cache t))) ts"
    have "sorted (map tr_pid ts)" "\<forall>u \<in> set ts. tr_pid t \<le> tr_pid u" using Cons.prems by auto
    from Cons.IH [OF this, of 1 "ucast (kc_size (tr_cache t))"] have R: "sorted_wrt (<) (map fst R)"
      "fst ` set R = insert (tr_pid t) (tr_pid ` set ts)"
      "\<And>q m z. (q, m, z) \<in> set R \<Longrightarrow> m = (if q = tr_pid t then 1 else 0) + length (pid_tracks q ts) \<and>
         z = (if q = tr_pid t then ucast (kc_size (tr_cache t)) else 0) + track_bytes (pid_tracks q ts)"
      unfolding R_def by fastforce+
    have lo: "\<forall>q \<in> fst ` set R. p < q" using lt R(2) by auto
    have "pid_rows p n sz (t # ts) = (p, n, sz) # R" using False by (simp add: R_def)
    moreover have "m = (if q = p then n else 0) + length (pid_tracks q (t # ts)) \<and>
        z = (if q = p then sz else 0) + track_bytes (pid_tracks q (t # ts))" if "(q, m, z) \<in> set R" for q m z
      using R(3) [OF that] lo that by force
    ultimately show ?thesis using R(1,2) lo none False by auto
  qed
qed

text \<open>C38. The rows of a stack are one for each process that has a track of it, by ascending pid, each with
  the number of its tracks and the sum of their object sizes.\<close>

theorem trace_of_stack_rows:
  assumes "find_by_hash hash pl h = (frame, ts)" "frame \<noteq> []" "ts \<noteq> []"
  shows "\<exists>rows. trace_of_stack hash pl h = Some rows \<and> sorted_wrt (<) (map fst rows) \<and>
    fst ` set rows = tr_pid ` set ts \<and>
    (\<forall>(p, n, sz) \<in> set rows. n = length (pid_tracks p ts) \<and> sz = track_bytes (pid_tracks p ts))"
proof -
  obtain t ts' where s: "sort_key tr_pid ts = t # ts'" using assms(3) by (cases "sort_key tr_pid ts") (auto dest: arg_cong [where f = set])
  have st: "set (t # ts') = set ts" by (metis s set_sort)
  have so: "sorted (map tr_pid (t # ts'))" by (metis s sorted_sort_key)
  have m: "mset (pid_tracks p (t # ts')) = mset (pid_tracks p ts)" for p
    unfolding pid_tracks_def mset_filter by (metis mset_sort s)
  have f: "length (pid_tracks p (t # ts')) = length (pid_tracks p ts)"
    "track_bytes (pid_tracks p (t # ts')) = track_bytes (pid_tracks p ts)" for p
    using arg_cong [OF m [of p], of size] arg_cong [OF m [of p], of "\<lambda>M. \<Sum>t\<in>#M. ucast (kc_size (tr_cache t)) :: ulong"]
    by (simp_all add: track_bytes_def sum_mset_sum_list flip: mset_map)
  have "\<forall>u \<in> set (t # ts'). tr_pid t \<le> tr_pid u" using so by auto
  note rows = pid_rows_spec [OF so this, of 0 0]
  have "trace_of_stack hash pl h = Some (pid_rows (tr_pid t) 0 0 (t # ts'))"
    using assms(1,2) s by (simp add: trace_of_stack_def)
  moreover have "insert (tr_pid t) (tr_pid ` set (t # ts')) = tr_pid ` set ts" using st by auto
  ultimately show ?thesis
    using rows unfolding f if_cancel add_0 by (intro exI conjI) (blast | simp only:)+
qed

section \<open>Properties\<close>

text \<open>C23. The search for a byte that differs, eight bytes at a time between an unaligned head and a tail, finds
  the address of the first byte that is not the value, and 0 when there is none, for every start, length and way
  of building the word to compare with.\<close>

theorem memchr_inv_first_other:
  assumes "mem_at cr KVADDR a bs" "\<forall>i < length bs. a + of_nat i \<noteq> 0"
  shows "memchr_inv cr a v (length bs) =
    (if \<forall>b \<in> set bs. b = v then 0 else a + of_nat (length (takeWhile (\<lambda>b. b = v) bs)))"
  using memchr_inv_eq [OF assms] by (simp add: first_other_def)

text \<open>C26. The walk of a free list ends on every list, cyclic and corrupt ones included, and marks each object at
  most once and none outside the slab.\<close>

theorem free_loop_ends:
  assumes "kc_size c \<noteq> 0"
  shows "\<exists>is. free_loop cr c base n a [] = Some is \<and> distinct is \<and> set is \<subseteq> {..<n}"
  using free_loop_returns [OF assms, of cr base n a "[]"] by simp

text \<open>C24. The check of an object agrees with the layout of its cache: it passes exactly when every part (red zones,
  poison, padding) holds its value and the free pointer is valid; for such an object, with its alignment padding
  intact too, it returns and reports nothing.\<close>

theorem slub_check_object_intact:
  assumes "ob = fixup_red_left c a" "regions_ok cr (expected_bytes cr pl c ob v @ padding_bytes c ob)"
  shows "(\<forall>r rs. slub_check_object cr pl c page a v = Some (r, rs) \<longrightarrow>
      (r \<longleftrightarrow> bytes_ok cr (expected_bytes cr pl c ob v) \<and> freeptr_ok cr pl c page ob v)) \<and>
    (bytes_ok cr (expected_bytes cr pl c ob v @ padding_bytes c ob) \<and> freeptr_ok cr pl c page ob v \<longrightarrow>
      slub_check_object cr pl c page a v = Some (True, []))"
  using slub_check_object_ok [OF assms(2,1)] by blast

section \<open>Examples\<close>

text \<open>A session whose kernel memory is one run of bytes.\<close>

definition kernel_dump :: "ulong \<Rightarrow> byte list \<Rightarrow> crash" where
  "kernel_dump base bs = empty_session\<lparr>readmem := \<lambda>_. dump_read base bs\<rparr>"

lemma kernel_dump_mem: "length bs < 2 ^ 64 \<Longrightarrow> mem_at (kernel_dump base bs) KVADDR base bs"
  by (rule dump_read_mem_at) (simp_all add: kernel_dump_def)

lemma memchr_inv_first_other_witness:
  "memchr_inv (kernel_dump 0xffff000000000003 (replicate 20 0x5a @ 1 # replicate 9 0x5a)) 0xffff000000000003 0x5a 30 =
     0xffff000000000017"
proof -
  let ?bs = "replicate 20 0x5a @ 1 # replicate 9 0x5a :: byte list"
  have m: "mem_at (kernel_dump 0xffff000000000003 ?bs) KVADDR 0xffff000000000003 ?bs" by (rule kernel_dump_mem) simp
  have nz: "\<forall>i < length ?bs. (0xffff000000000003 :: ulong) + of_nat i \<noteq> 0"
  proof (intro allI impI)
    fix i
    assume "i < length ?bs"
    then have "unat ((0xffff000000000003 :: ulong) + of_nat i) = 0xffff000000000003 + i"
      by (simp add: unat_word_ariths unat_of_nat)
    then show "(0xffff000000000003 :: ulong) + of_nat i \<noteq> 0" by (metis add_is_0 unat_0 zero_neq_numeral)
  qed
  have "takeWhile (\<lambda>b. b = 0x5a) ?bs = replicate 20 0x5a" by (simp add: takeWhile_append)
  with memchr_inv_first_other [OF m nz, of "0x5a"] show ?thesis by simp
qed


lemma kernel_dump_region:
  assumes "i + n \<le> length bs" "unat base + length bs < 2 ^ 64" "0xffff000000000000 \<le> base"
  shows "region_ok (kernel_dump base bs) (base + of_nat i) n"
proof -
  have "mem_at (kernel_dump base bs) KVADDR base bs" using assms(2) by (intro kernel_dump_mem) simp
  from mem_at_take [OF mem_at_drop [OF this, of i], of n]
  have "mem_at (kernel_dump base bs) KVADDR (base + of_nat i) (take n (drop i bs))" .
  moreover have "length (take n (drop i bs)) = n" using assms(1) by simp
  moreover have "IS_KVADDR (kernel_dump base bs) (base + of_nat i + of_nat j)" if "j < n" for j
  proof -
    have "unat base + (i + j) < 2 ^ LENGTH(64)" using assms(1,2) that by simp
    then have "unat (of_nat (unat base + (i + j)) :: ulong) = unat base + (i + j)" by (rule unat_of_nat_small)
    then have "unat (base + of_nat i + of_nat j) = unat base + (i + j)" by (simp add: add.assoc)
    then show ?thesis using assms(3) by (simp add: kernel_dump_def empty_session_def word_le_nat_alt)
  qed
  moreover have "\<not> IS_KVADDR (kernel_dump base bs) 0" by (simp add: kernel_dump_def empty_session_def)
  ultimately show ?thesis unfolding region_ok_def by blast
qed

text \<open>A cache with red zones and poison, and a freed object of it that is intact.\<close>

definition cache_example :: kmem_cache where
  "cache_example = \<lparr>kc_addr = 0, cpu_slabs = [], kc_flags = 0x80000C00, min_partial = 0, kc_size = 32, object_size = 8,
     kc_offset = 16, cpu_partial = 0, oo = 0, per_slab_obj = 0, page_order = 0, kc_max = 0, kc_min = 0, allocflags = 0,
     refcount = 0, kc_inuse = 16, kc_align = 8, red_left_pad = 8, kc_random = 0, kc_name = ''c'', useroffset = 0, usersize = 0,
     total_size = 0, total_nr_slabs = 0, total_nr_objs = 0, node_list = []\<rparr>"

definition freed_bytes :: "byte list" where
  "freed_bytes = replicate 8 0xbb @ replicate 7 0x6b @ [0xa5] @ replicate 8 0xbb @ replicate 8 0"

lemma cache_example_layout:
  "has_flag cache_example SLAB_RED_ZONE" "has_flag cache_example SLAB_POISON" "has_flag cache_example OBJECT_POISON"
  "\<not> has_flag cache_example SLAB_STORE_USER" "fixup_red_left cache_example a = a + 8"
  "expected_bytes cr small_plugin cache_example ob SLUB_RED_INACTIVE =
     [(ob - 8, 0xbb, 8), (ob + 8, 0xbb, 8), (ob, 0x6b, 7), (ob + 7, 0xa5, 1)]"
  "padding_bytes cache_example ob = []" "freeptr_outside_object cache_example"
proof -
  show f: "has_flag cache_example SLAB_RED_ZONE" "has_flag cache_example SLAB_POISON" "has_flag cache_example OBJECT_POISON"
    "\<not> has_flag cache_example SLAB_STORE_USER"
    by (simp_all add: has_flag_def cache_example_def SLAB_RED_ZONE_def SLAB_POISON_def OBJECT_POISON_def SLAB_STORE_USER_def)
  show o: "freeptr_outside_object cache_example" by (simp add: freeptr_outside_object_def cache_example_def)
  show "fixup_red_left cache_example a = a + 8" using f by (simp add: fixup_red_left_def) (simp add: cache_example_def)
  show "padding_bytes cache_example ob = []" using f by (simp add: padding_bytes_def)
  have "size_from_object cache_example = pad_offset small_plugin cache_example"
    using f o by (simp add: size_from_object_def pad_offset_def get_info_end_def) (simp add: cache_example_def)
  then show "expected_bytes cr small_plugin cache_example ob SLUB_RED_INACTIVE =
     [(ob - 8, 0xbb, 8), (ob + 8, 0xbb, 8), (ob, 0x6b, 7), (ob + 7, 0xa5, 1)]"
    using f by (simp add: expected_bytes_def redzone_part_def poison_part_def pad_part_def kmalloc_part_def
      slub_debug_orig_size_def SLUB_RED_INACTIVE_def SLUB_RED_ACTIVE_def POISON_FREE_def POISON_END_def Let_def)
      (simp add: cache_example_def)
qed

lemma slub_check_object_intact_witness:
  "slub_check_object (kernel_dump 0xffff000000001000 freed_bytes) small_plugin cache_example 0 0xffff000000001000 SLUB_RED_INACTIVE =
     Some (True, [])"
proof -
  let ?cr = "kernel_dump 0xffff000000001000 freed_bytes"
  have l: "length freed_bytes = 32" by (simp add: freed_bytes_def)
  have r: "region_ok ?cr (0xffff000000001000 + of_nat i) n" if "i + n \<le> 32" for i n
    using that by (intro kernel_dump_region) (simp_all add: l)
  have "mem_at ?cr KVADDR 0xffff000000001000 freed_bytes" by (rule kernel_dump_mem) (simp add: l)
  then have b: "read_byte ?cr (0xffff000000001000 + of_nat i) True = freed_bytes ! i" if "i < 32" for i
    using read_byte_mem that l by simp
  have a: "all_bytes ?cr (0xffff000000001000 + of_nat i) v n" if "i + n \<le> 32" "take n (drop i freed_bytes) = replicate n v" for i n v
    unfolding all_bytes_def
  proof (intro allI impI)
    fix j
    assume "j < n"
    then have "take n (drop i freed_bytes) ! j = v" using that(2) by simp
    then have "freed_bytes ! (i + j) = v" using that(1) l \<open>j < n\<close> by simp
    then show "read_byte ?cr (0xffff000000001000 + of_nat i + of_nat j) True = v"
      using b [of "i + j"] that(1) \<open>j < n\<close> by (simp add: add.assoc)
  qed
  have "read_pointer ?cr 0xffff000000001018 True = 0"
    by (simp add: read_pointer_def read_memory_def kernel_dump_def dump_read_def freed_bytes_def)
  then have "get_free_pointer ?cr cache_example 0xffff000000001008 = 0"
    by (simp add: get_free_pointer_def Let_def) (simp add: cache_example_def kernel_dump_def empty_session_def get_config_val_def)
  then have "freeptr_ok ?cr small_plugin cache_example 0 0xffff000000001008 SLUB_RED_INACTIVE"
    by (simp add: freeptr_ok_def check_valid_pointer_def) (simp add: kernel_dump_def empty_session_def)
  then show ?thesis
    using slub_check_object_intact [of "0xffff000000001008" cache_example "0xffff000000001000" ?cr small_plugin SLUB_RED_INACTIVE]
      r [of 0 8] r [of 16 8] r [of 8 7] r [of 15 1] a [of 0 8 "0xbb"] a [of 16 8 "0xbb"] a [of 8 7 "0x6b"] a [of 15 1 "0xa5"]
    by (simp add: cache_example_layout) (simp add: freed_bytes_def)
qed


text \<open>A free list that leads from each object to itself.\<close>

lemma free_loop_ends_witness:
  "\<exists>is. free_loop (kernel_dump 0xffff000000001000 (le_bytes 8 0xffff000000001000)) (cache_example\<lparr>kc_offset := 0\<rparr>)
     0xffff000000001000 4 0xffff000000001000 [] = Some is \<and> distinct is \<and> set is \<subseteq> {..<4}"
  by (rule free_loop_ends) (simp add: cache_example_def)

text \<open>A slab of three objects of 16 bytes, the second and the third free.\<close>

definition slab_session :: crash where
  "slab_session = empty_session\<lparr>is_page_ptr := \<lambda>_. Some 0x1000, PTOV := \<lambda>p. p + 0xffff000000000000,
     readmem := \<lambda>_ a n.
       if a = 0xffff000000000100 then Some ([1, 0, 3, 0, 0, 0, 0, 0] @ [0x10, 0x10, 0, 0, 0, 0, 0xff, 0xff])
       else if a = 0xffff000000001010 then Some [0x20, 0x10, 0, 0, 0, 0, 0xff, 0xff] else Some (replicate 8 0)\<rparr>"

definition slab_plugin :: plugin where
  "slab_plugin = \<lparr>typetable = [''slab'' \<mapsto> \<lparr>m_name = ''slab'', m_size = 16, m_offset = 0\<rparr>,
     ''slab@counters'' \<mapsto> \<lparr>m_name = ''counters'', m_size = 8, m_offset = 0\<rparr>,
     ''slab@freelist'' \<mapsto> \<lparr>m_name = ''freelist'', m_size = 8, m_offset = 8\<rparr>], kaddr_mask = 0\<rparr>"

definition slab_cache :: kmem_cache where
  "slab_cache = cache_example\<lparr>kc_size := 16, kc_offset := 0\<rparr>"

lemma slab_session_free:
  "get_free_pointer slab_session slab_cache a = (if a = 0xffff000000001010 then 0xffff000000001020 else 0)"
  if "a \<noteq> 0xffff000000000100"
  using that by (simp add: get_free_pointer_def slab_cache_def cache_example_def read_pointer_def read_memory_def slab_session_def
    get_config_val_def empty_session_def)

lemma parser_slab_objects_witness:
  "\<exists>s. parser_slab slab_session slab_plugin slab_cache 0xffff000000000100 = Some (Some s) \<and>
     map ob_start (obj_list s) = [0xffff000000001000, 0xffff000000001010, 0xffff000000001020] \<and>
     map ob_is_free (obj_list s) = [False, True, True]"
proof -
  let ?cr = slab_session and ?buf = "[1, 0, 3, 0, 0, 0, 0, 0] @ [0x10, 0x10, 0, 0, 0, 0, 0xff, 0xff] :: byte list"
  have page: "slab_page slab_plugin = ''slab''" by (simp add: slab_page_def type_size_def slab_plugin_def)
  have buf: "read_struct ?cr slab_plugin 0xffff000000000100 (slab_page slab_plugin) True = Some ?buf"
    by (simp add: read_struct_def slab_session_def)
  have fo: "field_offset slab_plugin ''slab'' ''freelist'' = 8" "field_offset slab_plugin ''slab'' ''counters'' = 0"
    by (simp_all add: type_offset_def slab_plugin_def)
  have fld: "ULONG ?buf (field_offset slab_plugin (slab_page slab_plugin) ''freelist'') = Some 0xffff000000001010"
    "ULONG ?buf (field_offset slab_plugin (slab_page slab_plugin) ''counters'') = Some 0x30001"
    unfolding page fo by (simp_all add: ULONG_def load_def)
  have base: "phy_to_virt ?cr (page_to_phy ?cr 0xffff000000000100) = 0xffff000000001000"
    by (simp add: phy_to_virt_def page_to_phy_def slab_session_def)
  have sz: "kc_size slab_cache = 16" by (simp add: slab_cache_def)
  have tot: "totalobj (slab_of_counters slab_cache 0xffff000000000100 0x30001) = 3"
    by (simp add: slab_of_counters_def to_int32_def)
  have ch: "chain (IS_KVADDR ?cr) (get_free_pointer ?cr slab_cache) 0xffff000000001010
      (map (\<lambda>i. phy_to_virt ?cr (page_to_phy ?cr 0xffff000000000100) + of_nat i * ucast (kc_size slab_cache)) [1, 2])"
    by (simp add: base sz slab_session_free) (simp add: slab_session_def empty_session_def)
  have "free_loop ?cr slab_cache 0xffff000000001000 3 0xffff000000001010 [] = Some (rev [1, 2] @ [])"
    by (rule free_loop_chain) (use ch base sz in auto)
  moreover have "\<exists>objs. slab_objs slab_cache 0xffff000000001000 3 (rev [1, 2]) = Some objs"
    using slab_objs_tile [of 3 slab_cache "0xffff000000001000" "rev [1, 2]"] by (simp add: sz)
  moreover have "IS_KVADDR ?cr 0xffff000000000100" by (simp add: slab_session_def empty_session_def)
  ultimately obtain s where s: "parser_slab ?cr slab_plugin slab_cache 0xffff000000000100 = Some (Some s)" "totalobj s = 3"
    using buf fld base tot by (fastforce simp: parser_slab_def)
  have "obj_list s = map (\<lambda>i. \<lparr>ob_index = int i + 1,
      ob_start = 0xffff000000001000 + of_nat i * 16, ob_end = 0xffff000000001000 + of_nat (Suc i) * 16,
      ob_is_free = (i \<in> set [1, 2])\<rparr>) [0..<3]"
    using parser_slab_objects [OF s(1) _ _ _ buf fld(1) ch] s(2) base sz by simp
  then show ?thesis using s(1) by (simp add: upt_rec)
qed

section \<open>Examples: traces\<close>

text \<open>A cache with one slab of one allocated object; every byte of the dump is 0xff.\<close>

definition trace_session :: crash where
  "trace_session = empty_session\<lparr>readmem := \<lambda>_ _ n. Some (replicate (nat n) 0xff)\<rparr>"

definition trace_cache :: kmem_cache where
  "trace_cache = cache_example\<lparr>kc_flags := SLAB_STORE_USER, red_left_pad := 0,
     node_list := [\<lparr>kn_addr = 0, nr_partial = 1,
       kn_partial = [Some \<lparr>first_page = 0, sl_order = 0, sl_inuse = 1, totalobj = 1, freeobj = 0,
         obj_list = [\<lparr>ob_index = 1, ob_start = 0xffff000000001000, ob_end = 0xffff000000001020, ob_is_free = False\<rparr>]\<rparr>],
       nr_slabs = 1, total_objects = 1, kn_full = []\<rparr>]\<rparr>"

definition trace_example :: slub where
  "trace_example = plugin.extend
     \<lparr>typetable = [''track'' \<mapsto> \<lparr>m_name = ''track'', m_size = 24, m_offset = 0\<rparr>,
        ''track@addrs'' \<mapsto> \<lparr>m_name = ''addrs'', m_size = 8, m_offset = 16\<rparr>,
        ''track@cpu'' \<mapsto> \<lparr>m_name = ''cpu'', m_size = 4, m_offset = 0\<rparr>,
        ''track@pid'' \<mapsto> \<lparr>m_name = ''pid'', m_size = 4, m_offset = 4\<rparr>,
        ''track@when'' \<mapsto> \<lparr>m_name = ''when'', m_size = 8, m_offset = 8\<rparr>], kaddr_mask = 0\<rparr>
     \<lparr>cache_list = [trace_cache], alloc_trace_map = [], free_trace_map = [], max_pfn = 0, depot_index = 0, stack_slabs = 0\<rparr>"

definition trace_track :: track where
  "trace_track = \<lparr>trackp = 0xffff000000001018, tr_frame = extract_callstack trace_session (-1), tr_cpu = -1, tr_pid = -1,
     tr_when = -1, tr_cache = trace_cache, tr_obj_addr = 0xffff000000001000\<rparr>"

lemma trace_example_lookup:
  "type_size trace_example ''track'' = 24" "field_offset trace_example ''track'' ''addrs'' = 16"
  "field_offset trace_example ''track'' ''cpu'' = 0" "field_offset trace_example ''track'' ''pid'' = 4"
  "field_offset trace_example ''track'' ''when'' = 8" "field_offset trace_example ''track'' ''handle'' = -1"
  "field_size trace_example ''track'' ''addrs'' = 8"
  "cache_list trace_example = [trace_cache]" "alloc_trace_map trace_example = []" "free_trace_map trace_example = []"
  by (simp_all add: type_size_def type_offset_def field_size_def trace_example_def plugin.extend_def)

lemma trace_frame: "tr_frame trace_track \<noteq> ''''"
  by (simp add: trace_track_def extract_callstack_def) (simp add: trace_session_def empty_session_def)

lemma trace_parser_track:
  "parser_track trace_session trace_example 0xffff000000001018 t =
     Some (t\<lparr>tr_cpu := -1, tr_pid := -1, tr_when := -1, tr_frame := tr_frame t @ tr_frame trace_track\<rparr>)"
proof -
  have b: "read_struct trace_session trace_example 0xffff000000001018 ''track'' True = Some (replicate 24 0xff)"
    by (simp add: read_struct_def trace_example_lookup) (simp add: trace_session_def)
  have p: "read_pointer trace_session a True = -1" for a
    by (simp add: read_pointer_def read_memory_def trace_session_def le_nat_replicate)
  have "replicate 4 (0xff :: byte) = [0xff, 0xff, 0xff, 0xff]" by (simp add: eval_nat_numeral)
  then have f: "le_nat (replicate 4 0xff) = 0xffffffff" by simp
  have w: "UINT (replicate 24 0xff) 0 = Some (-1)" "UINT (replicate 24 0xff) 4 = Some (-1)" "ULONG (replicate 24 0xff) 8 = Some (-1)"
    by (simp_all add: UINT_def ULONG_def load_def le_nat_replicate f)
  have k: "IS_KVADDR trace_session 0xffff000000001028" by (simp add: trace_session_def empty_session_def)
  show ?thesis
    using b p w k by (simp add: parser_track_def trace_example_lookup frames_at_def trace_track_def)
qed

lemma trace_all_tracks: "all_tracks trace_session trace_example = Some [(False, trace_track)]"
proof -
  have f: "has_flag trace_cache SLAB_STORE_USER" by (simp add: has_flag_def trace_cache_def SLAB_STORE_USER_def)
  have g: "get_track trace_example trace_cache 0xffff000000001000 False = 0xffff000000001018"
    by (simp add: get_track_def get_info_end_def freeptr_outside_object_def trace_cache_def cache_example_def)
  define o1 where "o1 = \<lparr>ob_index = 1, ob_start = 0xffff000000001000, ob_end = 0xffff000000001020, ob_is_free = False\<rparr>"
  define s1 where "s1 = \<lparr>first_page = 0, sl_order = 0, sl_inuse = 1, totalobj = 1, freeobj = 0, obj_list = [o1]\<rparr>"
  have s: "cache_slabs trace_cache = Some [s1]"
    by (simp add: cache_slabs_def trace_cache_def cache_example_def s1_def o1_def)
  have "obj_tracks trace_session trace_example trace_cache o1 = Some [(False, trace_track)]"
    using trace_frame by (simp add: obj_tracks_def o1_def g trace_parser_track) (simp add: trace_track_def)
  then have "slab_tracks trace_session trace_example trace_cache s1 = Some [(False, trace_track)]"
    by (simp add: slab_tracks_def s1_def)
  then show ?thesis using s f by (simp add: all_tracks_def cache_tracks_def trace_example_lookup)
qed

lemma trace_first_parse:
  "parser_slub_trace trace_session trace_example =
     Some (with_traces trace_example ([(tr_frame trace_track, [trace_track])], []))"
  using parser_slub_trace_pushes [of trace_session trace_example "([], [])"] trace_all_tracks
    lookup_with_traces(10) [of trace_example] by (simp add: trace_example_lookup)

lemma parser_slub_trace_groups_witness:
  "\<exists>pl. parser_slub_trace trace_session trace_example = Some pl \<and>
     tracks_of (alloc_trace_map pl) (tr_frame trace_track) = [trace_track]"
  using parser_slub_trace_groups [OF trace_first_parse] trace_all_tracks trace_first_parse
  by (simp add: trace_example_lookup chosen_def)

lemma parser_slub_trace_again_witness:
  "\<exists>pl1 pl2. parser_slub_trace trace_session trace_example = Some pl1 \<and> parser_slub_trace trace_session pl1 = Some pl2 \<and>
     tracks_of (alloc_trace_map pl2) (tr_frame trace_track) = [trace_track, trace_track]"
  using parser_slub_trace_again [OF trace_first_parse] trace_first_parse
  by (fastforce simp: trace_example_lookup tracks_of_def [of "[(tr_frame trace_track, [trace_track])]"])

definition pid_traces :: slub where
  "pid_traces = trace_example\<lparr>alloc_trace_map := [(''f'', map (\<lambda>p. trace_track\<lparr>tr_pid := p\<rparr>) [7, 3, 7])]\<rparr>"

lemma trace_of_stack_rows_witness:
  "\<exists>rows. trace_of_stack (\<lambda>_. 1) pid_traces 1 = Some rows \<and> map (\<lambda>(p, n, _). (p, n)) rows = [(3, 1), (7, 2)]"
proof -
  let ?ts = "map (\<lambda>p. trace_track\<lparr>tr_pid := p\<rparr>) [7, 3, 7]"
  have "find_by_hash (\<lambda>_. 1) pid_traces 1 = (''f'', map (\<lambda>p. trace_track\<lparr>tr_pid := p\<rparr>) [7, 3, 7])"
    by (simp add: find_by_hash_def pid_traces_def)
  then have "\<exists>rows. trace_of_stack (\<lambda>_. 1) pid_traces 1 = Some rows \<and> sorted_wrt (<) (map fst rows) \<and>
      fst ` set rows = tr_pid ` set ?ts \<and>
      (\<forall>(p, n, sz) \<in> set rows. n = length (pid_tracks p ?ts) \<and> sz = track_bytes (pid_tracks p ?ts))"
    by (rule trace_of_stack_rows) simp_all
  then obtain rows where r: "trace_of_stack (\<lambda>_. 1) pid_traces 1 = Some rows" "sorted_wrt (<) (map fst rows)"
      "fst ` set rows = tr_pid ` set ?ts"
      "\<forall>(p, n, sz) \<in> set rows. n = length (pid_tracks p ?ts) \<and> sz = track_bytes (pid_tracks p ?ts)"
    by blast
  have "sorted (map fst rows)" "distinct (map fst rows)" using r(2) by (simp_all add: strict_sorted_iff)
  moreover have "set (map fst rows) = set [3, 7]" unfolding set_map r(3) by auto
  ultimately have "map fst rows = [3, 7]" by (intro sorted_distinct_set_unique) simp_all
  then obtain x y where "rows = [(3, x), (7, y)]" by (auto simp: map_eq_Cons_conv)
  with r(4) have "map (\<lambda>(p, n, _). (p, n)) rows = [(3, 1), (7, 2)]"
    by (auto simp: pid_tracks_def split: prod.splits)
  with r(1) show ?thesis by (intro exI conjI)
qed

end
