(* ===== verification/Ftrace.thy ===== *)
theory Ftrace
  imports Walk Text
begin

text \<open>
  The trace reader (\<^verbatim>\<open>src/ftrace/ftrace.cpp\<close>, \<^verbatim>\<open>ftrace.h\<close>, \<^verbatim>\<open>trace_event.h\<close>): the trace arrays with their ring
  buffers, the events and their fields, and the decoding of the pages of a ring buffer into log
  entries. The text an event prints of its own fields (\<^verbatim>\<open>TraceEvent::handle\<close>) is output and left out: a log
  entry here keeps what its line starts with and the address the event is printed from.
\<close>

section \<open>Data\<close>

record ring_buffer_per_cpu =
  rb_addr :: ulong
  rb_cpu :: int
  buffer_pages :: "ulong list"
  data_pages :: "ulong list"

record trace_array =
  ta_addr :: ulong
  ta_cpus :: int
  ta_name :: string
  time_start :: ulong
  ta_nr_pages :: ulong
  ta_offset :: ulong
  cpu_ring_buffers :: "ring_buffer_per_cpu list"

record saved_cmdlines_buffer =
  map_pid_to_cmdline :: ulong
  map_cmdline_to_pid :: ulong
  cmdline_num :: uint
  cmdline_idx :: int
  saved_cmdlines :: ulong

record trace_field =
  tf_name :: string
  tf_type :: string
  tf_offset :: int
  tf_size :: int
  tf_is_signed :: int
  tf_filter_type :: int

record TraceEvent =
  te_id :: uint
  te_system_id :: uint
  te_name :: string
  te_system :: string
  te_struct_type :: string
  org_print_fmt :: string
  field_maps :: "string \<rightharpoonup> trace_field"

record trace_log =
  tl_cpu :: int
  tl_timestamp :: ulong
  tl_array_name :: string
  tl_comm :: string
  tl_lat_fmt :: string
  tl_event :: string
  tl_entry :: ulong

text \<open>The global trace array is also an element of the list; the pointer to it is kept as its position.\<close>

record ftrace = plugin +
  pid_max :: int
  nr_cpu_ids :: int
  global_trace :: "nat option"
  trace_list :: "trace_array list"
  trace_logs :: "trace_log list"
  savedcmd_ptr :: "saved_cmdlines_buffer option"
  event_maps :: "uint \<rightharpoonup> TraceEvent"
  common_field_maps :: "string \<rightharpoonup> trace_field"
  comm_pid_dict :: "int \<rightharpoonup> string"

definition ftrace_fields :: "init_stmt list" where
  "ftrace_fields =
    [Field ''trace_array'' ''current_trace'', Field ''trace_array'' ''array_buffer'', Field ''trace_array'' ''max_buffer'',
     Field ''trace_array'' ''buffer'', Field ''trace_array'' ''name'', Field ''trace_array'' ''list'',
     Field ''array_buffer'' ''buffer'', Field ''array_buffer'' ''time_start'', Field ''array_buffer'' ''cpu'',
     Field ''tracer'' ''name'', Field ''ring_buffer'' ''pages'', Field ''ring_buffer'' ''flags'', Field ''ring_buffer'' ''cpus'',
     Field ''ring_buffer'' ''buffers'', Field ''trace_buffer'' ''pages'', Field ''trace_buffer'' ''flags'',
     Field ''trace_buffer'' ''cpus'', Field ''trace_buffer'' ''buffers'', Field ''trace_event_call'' ''print_fmt'',
     Field ''trace_event_call'' ''flags'', Field ''trace_event_call'' ''name'', Field ''trace_event_call'' ''class'',
     Field ''trace_event_call'' ''event'', Field ''trace_event_call'' ''list'', Field ''trace_event_call'' ''tp'',
     Field ''trace_event_class'' ''system'', Field ''trace_event_class'' ''fields'', Field ''trace_event'' ''type'',
     Field ''tracepoint'' ''name'', Field ''ring_buffer_per_cpu'' ''nr_pages'', Field ''ring_buffer_per_cpu'' ''cpu'',
     Field ''ring_buffer_per_cpu'' ''pages'', Field ''ring_buffer_per_cpu'' ''head_page'',
     Field ''ring_buffer_per_cpu'' ''tail_page'', Field ''ring_buffer_per_cpu'' ''commit_page'',
     Field ''ring_buffer_per_cpu'' ''reader_page'', Field ''ring_buffer_per_cpu'' ''overrun'',
     Field ''ring_buffer_per_cpu'' ''entries'', Field ''ring_buffer_event'' ''array'', Struct ''ring_buffer_event'',
     Struct ''trace_entry'', Field ''buffer_page'' ''read'', Field ''buffer_page'' ''list'', Field ''buffer_page'' ''page'',
     Field ''buffer_page'' ''real_end'', Field ''list_head'' ''next'', Field ''ftrace_event_field'' ''link'',
     Field ''ftrace_event_field'' ''name'', Field ''ftrace_event_field'' ''type'', Field ''ftrace_event_field'' ''offset'',
     Field ''ftrace_event_field'' ''size'', Field ''ftrace_event_field'' ''is_signed'',
     Field ''ftrace_event_field'' ''filter_type'', Field ''buffer_data_page'' ''commit'',
     Field ''buffer_data_page'' ''time_stamp'', Field ''buffer_data_page'' ''data'',
     Field ''saved_cmdlines_buffer'' ''map_pid_to_cmdline'', Field ''saved_cmdlines_buffer'' ''map_cmdline_to_pid'',
     Field ''saved_cmdlines_buffer'' ''cmdline_num'', Field ''saved_cmdlines_buffer'' ''cmdline_idx'',
     Field ''saved_cmdlines_buffer'' ''saved_cmdlines'']"

definition Ftrace :: "crash \<Rightarrow> ftrace option" where
  "Ftrace cr = do {
     base \<leftarrow> ParserPlugin cr;
     a \<leftarrow> symbol_value cr ''pid_max'';
     let cpus = (case try_get_symbol_data cr ''nr_cpu_ids'' of None \<Rightarrow> 1 | Some v \<Rightarrow> to_int32 v);
     Some (plugin.extend base
       \<lparr>pid_max = read_int cr a True, nr_cpu_ids = cpus, global_trace = None, trace_list = [], trace_logs = [],
        savedcmd_ptr = None, event_maps = Map.empty, common_field_maps = Map.empty, comm_pid_dict = Map.empty\<rparr>) }"

section \<open>Ring buffers\<close>

text \<open>
  The pages of a ring buffer, as many as it has, and zeros where the list ends early. The link to the head
  page carries a flag in its low bits.
\<close>

fun ring_pages :: "crash \<Rightarrow> 'a plugin_scheme \<Rightarrow> nat \<Rightarrow> ulong \<Rightarrow> ulong \<Rightarrow> ulong list \<times> ulong" where
  "ring_pages cr pl 0 bp_addr real_head_page = ([], real_head_page)"
| "ring_pages cr pl (Suc n) bp_addr real_head_page =
     (if \<not> IS_KVADDR cr bp_addr then (replicate (Suc n) 0, real_head_page)
      else
        let nxt = read_pointer cr (bp_addr + off (field_offset pl ''buffer_page'' ''list'') + off (field_offset pl ''list_head'' ''next'')) True;
            real = nxt AND NOT 3;
            (ps, h) = (if nxt AND 3 \<noteq> 0 then ring_pages cr pl n real real else ring_pages cr pl n nxt real_head_page) in
        (bp_addr # ps, h))"

definition page_index :: "ulong \<Rightarrow> ulong list \<Rightarrow> nat option" where
  "page_index p ps = List.find (\<lambda>i. ps ! i = p) [0..<length ps]"

text \<open>The pages with data, from the head page on round the ring to the page last committed.\<close>

partial_function (option) data_pages_loop :: "ulong list \<Rightarrow> nat \<Rightarrow> nat \<Rightarrow> ulong \<Rightarrow> nat \<Rightarrow> ulong list option" where
  "data_pages_loop pages nr_pages head_page_index commit_page index =
     (if length pages \<le> index then None
      else
        let p = pages ! index;
            nxt = (if Suc index = nr_pages then 0 else Suc index) in
        if p = commit_page then Some [p]
        else if nxt = head_page_index then Some [p]
        else do { rest \<leftarrow> data_pages_loop pages nr_pages head_page_index commit_page nxt; Some (p # rest) })"

definition buffer_page_has_data :: "crash \<Rightarrow> 'a plugin_scheme \<Rightarrow> ulong \<Rightarrow> ulong" where
  "buffer_page_has_data cr pl addr = read_ulong cr (addr + off (field_offset pl ''buffer_page'' ''real_end'')) True"

text \<open>The index of the head page has no value when the page is not found.\<close>

definition ring_data_pages :: "crash \<Rightarrow> 'a plugin_scheme \<Rightarrow> nat \<Rightarrow> ulong list \<Rightarrow> ulong \<Rightarrow> ulong \<Rightarrow> ulong \<Rightarrow> ulong list option" where
  "ring_data_pages cr pl nr_pages pages real_head_page reader_page commit_page = do {
     let first = (if buffer_page_has_data cr pl reader_page \<noteq> 0 then [reader_page] else []);
     if reader_page = commit_page then Some first
     else do {
       h \<leftarrow> page_index real_head_page pages;
       rest \<leftarrow> data_pages_loop pages nr_pages h commit_page h;
       Some (first @ rest) } }"

definition rb_pointer :: "crash \<Rightarrow> 'a plugin_scheme \<Rightarrow> ulong \<Rightarrow> string \<Rightarrow> ulong" where
  "rb_pointer cr pl addr f = read_pointer cr (addr + off (field_offset pl ''ring_buffer_per_cpu'' f)) True"

definition parser_ring_buffer_per_cpu :: "crash \<Rightarrow> 'a plugin_scheme \<Rightarrow> ulong \<Rightarrow> trace_array \<Rightarrow> trace_array option" where
  "parser_ring_buffer_per_cpu cr pl addr ta = do {
     let nr_pages = read_ulong cr (addr + off (field_offset pl ''ring_buffer_per_cpu'' ''nr_pages'')) True;
     if nr_pages = 0 then Some ta
     else do {
       let cpu = read_int cr (addr + off (field_offset pl ''ring_buffer_per_cpu'' ''cpu'')) True;
       let (pages, real_head_page) = ring_pages cr pl (unat nr_pages) (rb_pointer cr pl addr ''pages'') (rb_pointer cr pl addr ''head_page'');
       ds \<leftarrow> ring_data_pages cr pl (unat nr_pages) pages real_head_page (rb_pointer cr pl addr ''reader_page'') (rb_pointer cr pl addr ''commit_page'');
       Some (ta\<lparr>ta_nr_pages := nr_pages,
         cpu_ring_buffers := cpu_ring_buffers ta @ [\<lparr>rb_addr = addr, rb_cpu = cpu, buffer_pages = pages, data_pages = ds\<rparr>]\<rparr>) } }"

definition parser_trace_buffer :: "crash \<Rightarrow> 'a plugin_scheme \<Rightarrow> ulong \<Rightarrow> trace_array \<Rightarrow> trace_array option" where
  "parser_trace_buffer cr pl addr ta = do {
     let ta = ta\<lparr>ta_cpus := read_int cr (addr + off (field_offset pl ''trace_buffer'' ''cpus'')) True\<rparr>;
     let buffers = read_pointer cr (addr + off (field_offset pl ''trace_buffer'' ''buffers'')) True;
     if \<not> IS_KVADDR cr buffers then Some ta
     else fold_opt (\<lambda>i ta.
       let rb = read_pointer cr (buffers + of_nat i * 8) True in
       if \<not> IS_KVADDR cr rb then Some ta else parser_ring_buffer_per_cpu cr pl rb ta) [0..<nat (ta_cpus ta)] ta }"

text \<open>\<^verbatim>\<open>make_shared\<close> clears the members of a new trace array; that of an event has a constructor which leaves the number of its system open, 0 here, and it is set before it is read.\<close>

definition parser_trace_array :: "crash \<Rightarrow> 'a plugin_scheme \<Rightarrow> ulong \<Rightarrow> trace_array option" where
  "parser_trace_array cr pl addr = do {
     let name_addr = read_pointer cr (addr + off (field_offset pl ''trace_array'' ''name'')) True;
     name \<leftarrow> (if IS_KVADDR cr name_addr then read_cstring cr name_addr 64 True else Some '''');
     let array_addr = addr + off (field_offset pl ''trace_array'' ''array_buffer'');
     let start = read_ulong cr (array_addr + off (field_offset pl ''array_buffer'' ''time_start'')) True;
     let ta = \<lparr>ta_addr = addr, ta_cpus = 0, ta_name = name, time_start = start, ta_nr_pages = 0, ta_offset = 0, cpu_ring_buffers = []\<rparr>;
     let buffer = read_pointer cr (array_addr + off (field_offset pl ''array_buffer'' ''buffer'')) True;
     if IS_KVADDR cr buffer then parser_trace_buffer cr pl buffer ta else Some ta }"

definition parser_savedcmd :: "crash \<Rightarrow> ftrace \<Rightarrow> ftrace option" where
  "parser_savedcmd cr pl = do {
     s \<leftarrow> symbol_value cr ''savedcmd'';
     let a = read_pointer cr s True;
     let fld = (\<lambda>f. a + off (field_offset pl ''saved_cmdlines_buffer'' f));
     Some (if IS_KVADDR cr a
       then pl\<lparr>savedcmd_ptr := Some
         \<lparr>map_pid_to_cmdline = fld ''map_pid_to_cmdline'',
          map_cmdline_to_pid = read_pointer cr (fld ''map_cmdline_to_pid'') True,
          cmdline_num = read_uint cr (fld ''cmdline_num'') True, cmdline_idx = read_int cr (fld ''cmdline_idx'') True,
          saved_cmdlines = read_pointer cr (fld ''saved_cmdlines'') True\<rparr>\<rparr>
       else pl) }"

definition trace_array_step :: "crash \<Rightarrow> ulong \<Rightarrow> ulong \<Rightarrow> ftrace \<Rightarrow> ftrace option" where
  "trace_array_step cr gtrace_addr addr pl = do {
     ta \<leftarrow> parser_trace_array cr pl addr;
     Some (if addr = gtrace_addr
       then pl\<lparr>global_trace := Some (length (trace_list pl)), trace_list := trace_list pl @ [ta\<lparr>ta_name := ''global''\<rparr>]\<rparr>
       else pl\<lparr>trace_list := trace_list pl @ [ta]\<rparr>) }"

definition parser_ftrace_trace_arrays :: "crash \<Rightarrow> ftrace \<Rightarrow> ftrace option" where
  "parser_ftrace_trace_arrays cr pl =
     (if \<not> symbol_exists cr ''ftrace_trace_arrays'' then Some pl
      else do {
        trace_arrays_addr \<leftarrow> symbol_value cr ''ftrace_trace_arrays'';
        if \<not> IS_KVADDR cr trace_arrays_addr then Some pl
        else do {
          gtrace_addr \<leftarrow> symbol_value cr ''global_trace'';
          addrs \<leftarrow> for_each_list cr pl trace_arrays_addr (field_offset pl ''trace_array'' ''list'');
          pl \<leftarrow> fold_opt (trace_array_step cr gtrace_addr) addrs pl;
          parser_savedcmd cr pl } })"

section \<open>Events\<close>

definition get_event_type_id :: "crash \<Rightarrow> 'a plugin_scheme \<Rightarrow> ulong \<Rightarrow> uint" where
  "get_event_type_id cr pl addr =
     read_uint cr (addr + off (field_offset pl ''trace_event_call'' ''event'') + off (field_offset pl ''trace_event'' ''type'')) True"

text \<open>A string at an address that is itself read from the dump; empty when that is no kernel address.\<close>

definition string_at :: "crash \<Rightarrow> ulong \<Rightarrow> int \<Rightarrow> string option" where
  "string_at cr name_addr n = (if IS_KVADDR cr name_addr then read_cstring cr name_addr n True else Some '''')"

definition get_event_type_name :: "crash \<Rightarrow> 'a plugin_scheme \<Rightarrow> ulong \<Rightarrow> string option" where
  "get_event_type_name cr pl addr =
     (let flags = read_int cr (addr + off (field_offset pl ''trace_event_call'' ''flags'')) True;
          tracepoint = (if THIS_KERNEL_VERSION cr \<ge> LINUX 4 14 0 then 0x10 else if THIS_KERNEL_VERSION cr \<ge> LINUX 4 9 0 then 0x20 else 0x40) in
      if THIS_KERNEL_VERSION cr \<ge> LINUX 3 18 0 \<and> flags AND tracepoint \<noteq> 0
      then let tracepoint_addr = read_pointer cr (addr + off (field_offset pl ''trace_event_call'' ''tp'')) True in
        string_at cr (read_pointer cr (tracepoint_addr + off (field_offset pl ''tracepoint'' ''name'')) True) 64
      else string_at cr (read_pointer cr (addr + off (field_offset pl ''trace_event_call'' ''name'')) True) 64)"

definition get_event_type_system :: "crash \<Rightarrow> 'a plugin_scheme \<Rightarrow> ulong \<Rightarrow> string option" where
  "get_event_type_system cr pl addr =
     (let class_addr = read_pointer cr (addr + off (field_offset pl ''trace_event_call'' ''class'')) True in
      if IS_KVADDR cr class_addr
      then string_at cr (read_pointer cr (class_addr + off (field_offset pl ''trace_event_class'' ''system'')) True) 64
      else Some '''')"

definition get_event_type_print_fmt :: "crash \<Rightarrow> 'a plugin_scheme \<Rightarrow> ulong \<Rightarrow> string" where
  "get_event_type_print_fmt cr pl addr =
     (let fmt_addr = read_pointer cr (addr + off (field_offset pl ''trace_event_call'' ''print_fmt'')) True in
      if IS_KVADDR cr fmt_addr then read_long_string cr fmt_addr True else '''')"

definition parser_event_field :: "crash \<Rightarrow> 'a plugin_scheme \<Rightarrow> ulong \<Rightarrow> trace_field option" where
  "parser_event_field cr pl addr = do {
     let fld = (\<lambda>f. addr + off (field_offset pl ''ftrace_event_field'' f));
     name \<leftarrow> string_at cr (read_pointer cr (fld ''name'') True) 512;
     type \<leftarrow> string_at cr (read_pointer cr (fld ''type'') True) 512;
     Some \<lparr>tf_name = name, tf_type = type, tf_offset = read_int cr (fld ''offset'') True, tf_size = read_int cr (fld ''size'') True,
       tf_is_signed = read_int cr (fld ''is_signed'') True, tf_filter_type = read_int cr (fld ''filter_type'') True\<rparr> }"

text \<open>A later field of the same name replaces an earlier one.\<close>

definition add_field :: "crash \<Rightarrow> 'a plugin_scheme \<Rightarrow> ulong \<Rightarrow> (string \<rightharpoonup> trace_field) \<Rightarrow> (string \<rightharpoonup> trace_field) option" where
  "add_field cr pl addr m = do { f \<leftarrow> parser_event_field cr pl addr; Some (m(tf_name f \<mapsto> f)) }"

definition parser_common_trace_fields :: "crash \<Rightarrow> ftrace \<Rightarrow> ftrace option" where
  "parser_common_trace_fields cr pl =
     (if \<not> symbol_exists cr ''ftrace_common_fields'' then Some pl
      else do {
        a \<leftarrow> symbol_value cr ''ftrace_common_fields'';
        addrs \<leftarrow> for_each_list cr pl a (field_offset pl ''ftrace_event_field'' ''link'');
        m \<leftarrow> fold_opt (add_field cr pl) addrs (common_field_maps pl);
        Some (pl\<lparr>common_field_maps := m\<rparr>) })"

text \<open>The events with a number of their own have a fixed name and type; all others are named by the kernel.\<close>

definition event_kind :: "uint \<Rightarrow> string \<Rightarrow> string \<times> string" where
  "event_kind id' name =
     (if id' = 6 then (''bprint'', ''bputs_entry'')
      else if id' = 5 then (''print'', ''print_entry'')
      else if id' = 4 then (''kernel_stack'', ''stack_entry'')
      else if id' = 12 then (''user_stack'', ''userstack_entry'')
      else if id' = 14 then (''bputs'', ''bputs_entry'')
      else (name, ''trace_event_raw_'' @ name))"

text \<open>The result is a null pointer for an event already known and for one without a name or a system.\<close>

definition parser_trace_event_call :: "crash \<Rightarrow> ftrace \<Rightarrow> ulong \<Rightarrow> TraceEvent option option" where
  "parser_trace_event_call cr pl addr = do {
     let id' = get_event_type_id cr pl addr;
     if event_maps pl id' \<noteq> None then Some None
     else do {
       kname \<leftarrow> get_event_type_name cr pl addr;
       let (name, struct_type) = event_kind id' kname;
       system \<leftarrow> get_event_type_system cr pl addr;
       if name = '''' \<or> system = '''' then Some None
       else do {
         let event_class = read_pointer cr (addr + off (field_offset pl ''trace_event_call'' ''class'')) True;
         fields \<leftarrow> (if IS_KVADDR cr event_class
           then do {
             addrs \<leftarrow> for_each_list cr pl (event_class + off (field_offset pl ''trace_event_class'' ''fields''))
               (field_offset pl ''ftrace_event_field'' ''link'');
             fold_opt (add_field cr pl) addrs Map.empty }
           else Some Map.empty);
         Some (Some \<lparr>te_id = id', te_system_id = 0, te_name = name, te_system = system, te_struct_type = struct_type,
           org_print_fmt = get_event_type_print_fmt cr pl addr, field_maps = fields\<rparr>) } } }"

definition event_list_step :: "crash \<Rightarrow> ulong \<Rightarrow> ftrace \<Rightarrow> ftrace option" where
  "event_list_step cr addr pl = do {
     e \<leftarrow> parser_trace_event_call cr pl addr;
     Some (case e of None \<Rightarrow> pl | Some ev \<Rightarrow> pl\<lparr>event_maps := (event_maps pl)(te_id ev \<mapsto> ev)\<rparr>) }"

definition parser_ftrace_events_list :: "crash \<Rightarrow> ftrace \<Rightarrow> ftrace option" where
  "parser_ftrace_events_list cr pl =
     (if \<not> symbol_exists cr ''ftrace_events'' then Some pl
      else do {
        ftrace_events \<leftarrow> symbol_value cr ''ftrace_events'';
        if \<not> IS_KVADDR cr ftrace_events then Some pl
        else do {
          addrs \<leftarrow> for_each_list cr pl ftrace_events (field_offset pl ''trace_event_call'' ''list'');
          fold_opt (event_list_step cr) addrs pl } })"

section \<open>Entries\<close>

definition TRACE_FLAG_IRQS_OFF :: byte where "TRACE_FLAG_IRQS_OFF = 0x01"
definition TRACE_FLAG_IRQS_NOSUPPORT :: byte where "TRACE_FLAG_IRQS_NOSUPPORT = 0x02"
definition TRACE_FLAG_NEED_RESCHED :: byte where "TRACE_FLAG_NEED_RESCHED = 0x04"
definition TRACE_FLAG_HARDIRQ :: byte where "TRACE_FLAG_HARDIRQ = 0x08"
definition TRACE_FLAG_SOFTIRQ :: byte where "TRACE_FLAG_SOFTIRQ = 0x10"
definition TRACE_FLAG_PREEMPT_RESCHED :: byte where "TRACE_FLAG_PREEMPT_RESCHED = 0x20"
definition TRACE_FLAG_NMI :: byte where "TRACE_FLAG_NMI = 0x40"
definition TRACE_FLAG_BH_OFF :: byte where "TRACE_FLAG_BH_OFF = 0x80"

definition first_digit :: "byte \<Rightarrow> char" where
  "first_digit n = hd (show_dec (unat n))"

definition get_lat_fmt :: "byte \<Rightarrow> byte \<Rightarrow> string" where
  "get_lat_fmt flags preempt_count =
     (let on = (\<lambda>f. flags AND f \<noteq> 0);
          resched = flags AND (TRACE_FLAG_NEED_RESCHED OR TRACE_FLAG_PREEMPT_RESCHED) in
      [if on TRACE_FLAG_IRQS_OFF \<and> on TRACE_FLAG_BH_OFF then CHR ''D''
       else if on TRACE_FLAG_IRQS_OFF then CHR ''d''
       else if on TRACE_FLAG_BH_OFF then CHR ''b''
       else if on TRACE_FLAG_IRQS_NOSUPPORT then CHR ''X'' else CHR ''.'',
       if resched = TRACE_FLAG_NEED_RESCHED OR TRACE_FLAG_PREEMPT_RESCHED then CHR ''N''
       else if resched = TRACE_FLAG_NEED_RESCHED then CHR ''n''
       else if resched = TRACE_FLAG_PREEMPT_RESCHED then CHR ''p'' else CHR ''.'',
       if on TRACE_FLAG_NMI \<and> on TRACE_FLAG_HARDIRQ then CHR ''Z''
       else if on TRACE_FLAG_NMI then CHR ''z''
       else if on TRACE_FLAG_HARDIRQ \<and> on TRACE_FLAG_SOFTIRQ then CHR ''H''
       else if on TRACE_FLAG_HARDIRQ then CHR ''h''
       else if on TRACE_FLAG_SOFTIRQ then CHR ''s'' else CHR ''.'',
       if preempt_count AND 0xf \<noteq> 0 then first_digit (preempt_count AND 0xf) else CHR ''.'',
       if preempt_count AND 0xf0 \<noteq> 0 then first_digit (drop_bit 4 preempt_count) else CHR ''.''])"

text \<open>
  The command of a process out of the kernel's table of saved commands. A pid is mapped to a slot, and the
  slot has to name the pid again; where it names another one the process is looked up among the tasks.
\<close>

definition saved_comm :: "crash \<Rightarrow> int \<Rightarrow> saved_cmdlines_buffer option \<Rightarrow> int \<Rightarrow> string option" where
  "saved_comm cr pmax savedcmd pid =
     (if pid = 0 then Some ''<idle>''
      else case savedcmd of
        None \<Rightarrow> Some ''<TBD>''
      | Some sc \<Rightarrow>
          (let tpid = pid AND (pmax - 1);
               index = read_int cr (map_pid_to_cmdline sc + off tpid * 4) True;
               pid_addr = map_cmdline_to_pid sc + off index * 4;
               comm_addr = saved_cmdlines sc + off (index * 16) in
           if index < 0 \<or> \<not> IS_KVADDR cr pid_addr then Some ''<TBD>''
           else if 2 ^ 31 \<le> index * 16 then None
           else if read_int cr pid_addr True = pid \<and> IS_KVADDR cr comm_addr then read_cstring cr comm_addr 16 True
           else case pid_to_context cr pid of None \<Rightarrow> Some ''<TBD>'' | Some tc \<Rightarrow> Some (tc_comm tc)))"

definition find_cmdline :: "crash \<Rightarrow> int \<Rightarrow> ftrace \<Rightarrow> (ftrace \<times> string) option" where
  "find_cmdline cr pid pl = do {
     comm \<leftarrow> saved_comm cr (pid_max pl) (savedcmd_ptr pl) pid;
     let name = comm @ ''-'' @ show_int pid;
     Some (pl\<lparr>comm_pid_dict := (comm_pid_dict pl)(pid \<mapsto> name)\<rparr>, name) }"

definition parse_trace_entry :: "crash \<Rightarrow> string \<Rightarrow> int \<Rightarrow> ulong \<Rightarrow> ulong \<Rightarrow> ftrace \<Rightarrow> ftrace option" where
  "parse_trace_entry cr array_name cpu addr timestamp pl =
     (case read_struct_into cr addr 8 True of
        None \<Rightarrow> Some pl
      | Some entry \<Rightarrow> do {
          type \<leftarrow> USHORT entry 0; flags \<leftarrow> UCHAR entry 2; preempt_count \<leftarrow> UCHAR entry 3; pid \<leftarrow> C_INT entry 4;
          case event_maps pl (ucast type) of
            None \<Rightarrow> Some pl
          | Some ev \<Rightarrow>
              if pid > pid_max pl \<or> te_name ev = '''' then Some pl
              else do {
                (pl, comm) \<leftarrow> (case comm_pid_dict pl pid of Some c \<Rightarrow> Some (pl, c) | None \<Rightarrow> find_cmdline cr pid pl);
                Some (pl\<lparr>trace_logs := trace_logs pl @
                  [\<lparr>tl_cpu = cpu, tl_timestamp = timestamp, tl_array_name = array_name, tl_comm = comm,
                    tl_lat_fmt = get_lat_fmt flags preempt_count, tl_event = te_name ev, tl_entry = addr\<rparr>]\<rparr>) } })"

section \<open>Pages of a ring buffer\<close>

text \<open>
  What the loop does with one event header: it stops, or it parses an entry, sets the time and steps
  on. The header has 5 bits of type and 27 bits of time. The length of an event of type 0 and of a
  discarded event is in the word after the header, \<^verbatim>\<open>array[0]\<close>, which the 4 bytes read do not hold.
\<close>

datatype rb_action = Stop | Step "ulong option" ulong int

definition event_action :: "crash \<Rightarrow> 'a plugin_scheme \<Rightarrow> ulong \<Rightarrow> ulong \<Rightarrow> ulong \<Rightarrow> uint \<Rightarrow> rb_action option" where
  "event_action cr pl event_addr event_end event_timestamp rb_event =
     (let type_len = take_bit 5 rb_event;
          time_delta = drop_bit 5 rb_event;
          event_timestamp = event_timestamp + ucast time_delta;
          sz = type_size pl ''ring_buffer_event'';
          array = event_addr + off (field_offset pl ''ring_buffer_event'' ''array'') in
      if type_len = 0 then None
      else if type_len \<le> 28 then Some (Step (Some array) event_timestamp (sz + 4 * uint type_len))
      else if type_len = 29 then
        (if event_addr > event_end then Some Stop
         else if time_delta = 1 then None
         else Some (Step None event_timestamp (to_int32 (off sz + (event_end - event_addr)))))
      else if type_len = 30 then
        Some (Step None (event_timestamp + ucast (push_bit 27 (read_uint cr array True))) (sz + 4))
      else Some (Step None 0 (sz + 4)))"

partial_function (option) buffer_page_loop ::
  "crash \<Rightarrow> string \<Rightarrow> int \<Rightarrow> ulong \<Rightarrow> ulong \<Rightarrow> ulong \<Rightarrow> ulong \<Rightarrow> ulong \<Rightarrow> ulong \<Rightarrow> ftrace \<Rightarrow> ftrace option" where
  "buffer_page_loop cr array_name cpu commit time_stamp event_end event_addr total_read event_timestamp pl =
     (if \<not> total_read < commit then Some pl
      else case read_struct_into cr event_addr 4 True of
        None \<Rightarrow> Some pl
      | Some buf \<Rightarrow> do {
          rb_event \<leftarrow> UINT buf 0;
          act \<leftarrow> event_action cr pl event_addr event_end event_timestamp rb_event;
          case act of
            Stop \<Rightarrow> Some pl
          | Step entry event_timestamp trace_len \<Rightarrow> do {
              pl \<leftarrow> (case entry of
                 None \<Rightarrow> Some pl
               | Some a \<Rightarrow> if IS_KVADDR cr a then parse_trace_entry cr array_name cpu a (time_stamp + event_timestamp) pl else Some pl);
              buffer_page_loop cr array_name cpu commit time_stamp event_end (event_addr + off trace_len) (total_read + off trace_len)
                event_timestamp pl } })"

definition parse_buffer_page :: "crash \<Rightarrow> string \<Rightarrow> int \<Rightarrow> ulong \<Rightarrow> ftrace \<Rightarrow> ftrace option" where
  "parse_buffer_page cr array_name cpu addr pl =
     (let bdp_addr = read_pointer cr (addr + off (field_offset pl ''buffer_page'' ''page'')) True;
          commit = read_ulong cr (bdp_addr + off (field_offset pl ''buffer_data_page'' ''commit'')) True;
          time_stamp = read_ulonglong cr (bdp_addr + off (field_offset pl ''buffer_data_page'' ''time_stamp'')) True in
      if \<not> IS_KVADDR cr bdp_addr \<or> commit = 0 then Some pl
      else buffer_page_loop cr array_name cpu commit time_stamp (bdp_addr + commit)
        (bdp_addr + off (field_offset pl ''buffer_data_page'' ''data'')) 0 0 pl)"

section \<open>Logs\<close>

text \<open>
  The logs are read once, from all pages of all arrays, and sorted with the latest first. The order of
  logs with equal times is not specified by the sort; here it is that of the pages.
\<close>

definition all_pages :: "trace_array list \<Rightarrow> (string \<times> int \<times> ulong) list" where
  "all_pages tas = concat (map (\<lambda>ta. concat (map (\<lambda>rb. map (\<lambda>p. (ta_name ta, rb_cpu rb, p)) (data_pages rb)) (cpu_ring_buffers ta))) tas)"

definition read_trace_logs :: "crash \<Rightarrow> ftrace \<Rightarrow> ftrace option" where
  "read_trace_logs cr pl =
     (if trace_logs pl \<noteq> [] then Some pl
      else do {
        pl \<leftarrow> fold_opt (\<lambda>(name, cpu, p). parse_buffer_page cr name cpu p) (all_pages (trace_list pl)) pl;
        Some (pl\<lparr>trace_logs := sort_key (\<lambda>l. - uint (tl_timestamp l)) (trace_logs pl)\<rparr>) })"

definition print_trace_log :: "crash \<Rightarrow> ftrace \<Rightarrow> (ftrace \<times> trace_log list) option" where
  "print_trace_log cr pl = do { pl \<leftarrow> read_trace_logs cr pl; Some (pl, trace_logs pl) }"

definition print_trace_log_cpu :: "crash \<Rightarrow> int \<Rightarrow> ftrace \<Rightarrow> (ftrace \<times> trace_log list) option" where
  "print_trace_log_cpu cr cpu pl = do { pl \<leftarrow> read_trace_logs cr pl; Some (pl, filter (\<lambda>l. tl_cpu l = cpu) (trace_logs pl)) }"

definition print_trace_log_name :: "crash \<Rightarrow> string \<Rightarrow> ftrace \<Rightarrow> (ftrace \<times> trace_log list) option" where
  "print_trace_log_name cr name pl = do { pl \<leftarrow> read_trace_logs cr pl; Some (pl, filter (\<lambda>l. tl_array_name l = name) (trace_logs pl)) }"

section \<open>Laws: the ring\<close>

text \<open>The part of a list up to and with the first occurrence of an element, or all of it.\<close>

definition until :: "'a \<Rightarrow> 'a list \<Rightarrow> 'a list" where
  "until c xs = takeWhile (\<lambda>x. x \<noteq> c) xs @ take 1 (dropWhile (\<lambda>x. x \<noteq> c) xs)"

lemma until_simps [simp]: "until c [] = []" "until c (x # xs) = (if x = c then [x] else x # until c xs)"
  by (simp_all add: until_def)

lemma length_ring_pages: "length (fst (ring_pages cr pl n bp h)) = n"
  by (induction cr pl n bp h rule: ring_pages.induct) (auto simp: Let_def split: prod.splits dest: arg_cong [where f = fst])

lemma page_index_Some: "page_index p ps = Some h \<Longrightarrow> h < length ps \<and> ps ! h = p"
  by (auto simp: page_index_def find_Some_iff)

lemma page_index_ex: "p \<in> set ps \<Longrightarrow> \<exists>h. page_index p ps = Some h"
  by (cases "page_index p ps") (auto simp: page_index_def find_None_iff in_set_conv_nth)

lemma data_pages_loop_rotate:
  assumes "length pages = nr" "h < nr" "k < nr"
  shows "data_pages_loop pages nr h c ((h + k) mod nr) = Some (until c (drop k (rotate h pages)))"
  using assms(3)
proof (induction "nr - k" arbitrary: k rule: less_induct)
  case less
  let ?i = "(h + k) mod nr"
  have i: "?i < length pages" using assms by simp
  have nth: "rotate h pages ! k = pages ! ?i" using assms(1) less.prems by (simp add: nth_rotate)
  have nxt: "(if Suc ?i = nr then 0 else Suc ?i) = (h + Suc k) mod nr" by (simp add: mod_Suc)
  have last: "(h + Suc k) mod nr = h \<longleftrightarrow> Suc k = nr"
  proof -
    have "(h + Suc k) mod nr = (if h + Suc k < nr then h + Suc k else h + Suc k - nr)"
      using assms(2) less.prems by (simp add: mod_if)
    then show ?thesis using less.prems assms(2) by auto
  qed
  have drop: "drop k (rotate h pages) = pages ! ?i # drop (Suc k) (rotate h pages)"
    using Cons_nth_drop_Suc [of k "rotate h pages"] assms(1) less.prems nth by simp
  show ?case
  proof (cases "pages ! ?i = c \<or> Suc k = nr")
    case True
    then show ?thesis
      using i drop nxt last assms(1) by (subst data_pages_loop.simps) (auto simp: Let_def)
  next
    case False
    then have "data_pages_loop pages nr h c ((h + Suc k) mod nr) = Some (until c (drop (Suc k) (rotate h pages)))"
      using less.hyps [of "Suc k"] less.prems by simp
    then show ?thesis using False i drop nxt last by (subst data_pages_loop.simps) (simp add: Let_def)
  qed
qed

section \<open>Laws: event headers\<close>

lemma header_fields:
  assumes "n < 32" "d < 2 ^ 27"
  shows "take_bit 5 (of_nat (n + 32 * d) :: uint) = of_nat n" "drop_bit 5 (of_nat (n + 32 * d) :: uint) = of_nat d"
proof -
  have lt: "n + 32 * d < 2 ^ 32" using assms by simp
  have u: "unat (of_nat (n + 32 * d) :: uint) = n + 32 * d" using lt by (intro unat_of_nat_small) simp
  have d: "unat (of_nat d :: uint) = d" using assms by (intro unat_of_nat_small) simp
  have n: "unat (of_nat n :: uint) = n" using assms by (intro unat_of_nat_small) simp
  show "take_bit 5 (of_nat (n + 32 * d) :: uint) = of_nat n"
    unfolding word_unat_eq_iff unsigned_take_bit_eq u n using assms(1) by (simp add: take_bit_eq_mod)
  show "drop_bit 5 (of_nat (n + 32 * d) :: uint) = of_nat d"
    unfolding word_unat_eq_iff unsigned_drop_bit_eq u d using assms(1) lt by (simp add: drop_bit_eq_div take_bit_eq_mod)
qed

text \<open>The records the kernel writes: data, an extension of the time, an absolute time.\<close>

datatype rb_rec = DataRec nat nat "byte list" | ExtendRec nat nat | StampRec nat nat

fun rec_bytes :: "rb_rec \<Rightarrow> byte list" where
  "rec_bytes (DataRec n d payload) = le_bytes 4 (n + 32 * d) @ payload"
| "rec_bytes (ExtendRec d e) = le_bytes 4 (30 + 32 * d) @ le_bytes 4 e"
| "rec_bytes (StampRec d e) = le_bytes 4 (31 + 32 * d) @ le_bytes 4 e"

fun rec_ok :: "rb_rec \<Rightarrow> bool" where
  "rec_ok (DataRec n d payload) \<longleftrightarrow> 1 \<le> n \<and> n \<le> 28 \<and> d < 2 ^ 27 \<and> length payload = 4 * n"
| "rec_ok (ExtendRec d e) \<longleftrightarrow> d < 2 ^ 27 \<and> e < 2 ^ 32"
| "rec_ok (StampRec d e) \<longleftrightarrow> d < 2 ^ 27 \<and> e < 2 ^ 32"

text \<open>
  The entries of the records with the times the kernel means: a data record adds its delta, an extension
  its delta and its 27-bit units, and an absolute stamp replaces the time.
\<close>

fun rec_entries :: "ulong \<Rightarrow> ulong \<Rightarrow> rb_rec list \<Rightarrow> (ulong \<times> ulong) list" where
  "rec_entries a t [] = []"
| "rec_entries a t (DataRec n d payload # rs) =
     (a + 4, t + of_nat d) # rec_entries (a + of_nat (4 + 4 * n)) (t + of_nat d) rs"
| "rec_entries a t (ExtendRec d e # rs) = rec_entries (a + 8) (t + of_nat (d + e * 2 ^ 27)) rs"
| "rec_entries a t (StampRec d e # rs) = rec_entries (a + 8) (of_nat (d + e * 2 ^ 27)) rs"

text \<open>The records whose times the reader follows: an extension of at most 31 units, no absolute stamp.\<close>

fun time_ok :: "rb_rec \<Rightarrow> bool" where
  "time_ok (DataRec n d payload) \<longleftrightarrow> True"
| "time_ok (ExtendRec d e) \<longleftrightarrow> e < 32"
| "time_ok (StampRec d e) \<longleftrightarrow> False"

text \<open>The entries the loop finds, with times relative to the page: an extension counts modulo 32, a stamp as 0.\<close>

fun loop_entries :: "ulong \<Rightarrow> ulong \<Rightarrow> rb_rec list \<Rightarrow> (ulong \<times> ulong) list" where
  "loop_entries a ts [] = []"
| "loop_entries a ts (DataRec n d payload # rs) =
     (a + 4, ts + of_nat d) # loop_entries (a + of_nat (4 + 4 * n)) (ts + of_nat d) rs"
| "loop_entries a ts (ExtendRec d e # rs) = loop_entries (a + 8) (ts + of_nat d + of_nat (e mod 32 * 2 ^ 27)) rs"
| "loop_entries a ts (StampRec d e # rs) = loop_entries (a + 8) 0 rs"

lemma loop_entries_times:
  "list_all time_ok rs \<Longrightarrow>
     fold_opt (\<lambda>(e, t). f e (t0 + t)) (loop_entries a ts rs) = fold_opt (\<lambda>(e, t). f e t) (rec_entries a (t0 + ts) rs)"
proof (induction a ts rs rule: loop_entries.induct)
  case (2 a ts n d payload rs)
  then show ?case by (intro ext) (simp add: add.assoc)
qed (auto simp: add.assoc)

definition event_layout :: "'a plugin_scheme \<Rightarrow> bool" where
  "event_layout pl \<longleftrightarrow> type_size pl ''ring_buffer_event'' = 4 \<and> field_offset pl ''ring_buffer_event'' ''array'' = 4"

lemma shl27: "ucast (push_bit 27 (of_nat e :: uint)) = (of_nat (e mod 32 * 2 ^ 27) :: ulong)"
proof -
  have m: "e * 2 ^ 27 mod 2 ^ 32 = e mod 32 * 2 ^ 27" using mod_mult_mult2 [of e "2 ^ 27" 32] by simp
  have "unat (push_bit 27 (of_nat e :: uint)) = e mod 32 * 2 ^ 27"
    using m by (simp add: push_bit_eq_mult unat_word_ariths unat_of_nat mod_mult_right_eq mult.commute)
  then show ?thesis by (metis of_nat_unat)
qed

section \<open>Laws: the records of a page\<close>

text \<open>Neither an entry nor a command look-up changes the type table, so the layout of an event stays.\<close>

lemma find_cmdline_table: "find_cmdline cr pid pl = Some (pl', c) \<Longrightarrow> typetable pl' = typetable pl"
  by (auto simp: find_cmdline_def bind_eq_Some_conv Let_def)

lemma parse_trace_entry_table: "parse_trace_entry cr nm cpu a t pl = Some pl' \<Longrightarrow> typetable pl' = typetable pl"
  by (auto simp: parse_trace_entry_def bind_eq_Some_conv find_cmdline_table split: option.splits if_splits)

lemma event_layout_table: "typetable pl' = typetable pl \<Longrightarrow> event_layout pl' = event_layout (pl :: ftrace)"
  by (simp add: event_layout_def type_size_def type_offset_def)

lemma le_nat_small: "v < 256 ^ n \<Longrightarrow> le_nat (le_bytes n v) = v"
  by (simp add: le_nat_le_bytes)

text \<open>One round of the loop on each kind of record.\<close>

lemma header_read:
  assumes "mem_at cr KVADDR a (le_bytes 4 v @ rest)" "v < 2 ^ 32"
  shows "read_struct_into cr a 4 True = Some (le_bytes 4 v)" "UINT (le_bytes 4 v) 0 = Some (of_nat v)"
  using mem_atD [OF assms(1), of 4 0] assms(2) by (simp_all add: read_struct_into_def UINT_def load_def le_nat_small)

lemma ext_read:
  assumes "mem_at cr KVADDR a (xs @ le_bytes 4 v @ rest)" "v < 2 ^ 32" "length xs = 4"
  shows "read_uint cr (a + 4) True = of_nat v"
  using mem_atD [OF assms(1), of 4 4] assms(2,3) by (simp add: read_uint_def read_memory_def le_nat_small)

lemma ucast_of_nat32: "d < 2 ^ 32 \<Longrightarrow> ucast (of_nat d :: uint) = (of_nat d :: ulong)"
  using unat_of_nat_small [of d, where 'a = 32] of_nat_unat [of "of_nat d :: uint", where 'a = "64 word"] by simp

lemma event_action_data:
  assumes "event_layout pl" "1 \<le> n" "n \<le> 28" "d < 2 ^ 27"
  shows "event_action cr pl a ee ts (of_nat (n + 32 * d)) = Some (Step (Some (a + 4)) (ts + of_nat d) (4 + 4 * int n))"
proof -
  have n: "unat (of_nat n :: uint) = n" using assms by (intro unat_of_nat_small) simp
  then have "of_nat n \<noteq> (0 :: uint)" "of_nat n \<le> (28 :: uint)" using assms(2,3) by (auto simp: word_le_nat_alt)
  moreover have "uint (of_nat n :: uint) = int n" using n by (metis uint_nat)
  ultimately show ?thesis
    using assms(1) header_fields [of n d] ucast_of_nat32 [of d] assms(3,4)
    unfolding event_action_def event_layout_def Let_def by (simp only: if_False if_True) simp
qed

lemma event_action_time:
  assumes "event_layout pl" "d < 2 ^ 27"
  shows "event_action cr pl a ee ts (of_nat (30 + 32 * d)) =
      Some (Step None (ts + of_nat d + ucast (push_bit 27 (read_uint cr (a + 4) True))) 8)"
    and "event_action cr pl a ee ts (of_nat (31 + 32 * d)) = Some (Step None 0 8)"
proof -
  have u: "ucast (of_nat d :: uint) = (of_nat d :: ulong)" using ucast_of_nat32 [of d] assms(2) by simp
  show "event_action cr pl a ee ts (of_nat (30 + 32 * d)) =
      Some (Step None (ts + of_nat d + ucast (push_bit 27 (read_uint cr (a + 4) True))) 8)"
    using assms header_fields [of 30 d] u unfolding event_action_def event_layout_def Let_def by simp
  show "event_action cr pl a ee ts (of_nat (31 + 32 * d)) = Some (Step None 0 8)"
    using assms header_fields [of 31 d] unfolding event_action_def event_layout_def Let_def by simp
qed

text \<open>The round on a record hands its entry, if it has one, to the parser and steps to the next record.\<close>

definition rec_entry :: "ulong \<Rightarrow> ulong \<Rightarrow> rb_rec \<Rightarrow> (ulong \<times> ulong) list" where
  "rec_entry a ts r = loop_entries a ts [r]"

fun rec_time :: "ulong \<Rightarrow> rb_rec \<Rightarrow> ulong" where
  "rec_time ts (DataRec n d p) = ts + of_nat d"
| "rec_time ts (ExtendRec d e) = ts + of_nat d + of_nat (e mod 32 * 2 ^ 27)"
| "rec_time ts (StampRec d e) = 0"

lemma loop_entries_Cons:
  "rec_ok r \<Longrightarrow> loop_entries a ts (r # rs) = rec_entry a ts r @ loop_entries (a + of_nat (length (rec_bytes r))) (rec_time ts r) rs"
  by (cases r) (simp_all add: rec_entry_def)

lemma buffer_page_loop_round:
  assumes "event_layout pl" "rec_ok r" "mem_at cr KVADDR a (rec_bytes r @ rest)" "rd < limit"
    and "\<forall>i < length (rec_bytes r @ rest). IS_KVADDR cr (a + of_nat i)"
  shows "buffer_page_loop cr nm cpu limit t0 ee a rd ts pl =
    fold_opt (\<lambda>(e, t). parse_trace_entry cr nm cpu e (t0 + t)) (rec_entry a ts r) pl \<bind>
    buffer_page_loop cr nm cpu limit t0 ee (a + of_nat (length (rec_bytes r))) (rd + of_nat (length (rec_bytes r))) (rec_time ts r)"
proof (cases r)
  case (DataRec n d payload)
  have ok: "1 \<le> n" "n \<le> 28" "d < 2 ^ 27" "length payload = 4 * n" using assms(2) by (simp_all add: DataRec)
  have h: "read_struct_into cr a 4 True = Some (le_bytes 4 (n + 32 * d))" "UINT (le_bytes 4 (n + 32 * d)) 0 = Some (of_nat (n + 32 * d))"
    using header_read [of cr a "n + 32 * d" "payload @ rest"] assms(3) ok by (simp_all add: DataRec)
  have k: "IS_KVADDR cr (a + 4)" using spec [OF assms(5), of 4] ok by (simp add: DataRec)
  have l: "off (4 + 4 * int n) = (of_nat (length (rec_bytes r)) :: ulong)" using ok by (simp add: DataRec)
  show ?thesis
    unfolding buffer_page_loop.simps [of cr nm cpu limit t0 ee a rd ts pl] h option.case bind.bind_lunit
      event_action_data [OF assms(1) ok(1-3)] rb_action.case l
    using assms(4) k by (simp add: rec_entry_def DataRec)
next
  case (ExtendRec d e)
  have ok: "d < 2 ^ 27" "e < 2 ^ 32" using assms(2) by (simp_all add: ExtendRec)
  have h: "read_struct_into cr a 4 True = Some (le_bytes 4 (30 + 32 * d))" "UINT (le_bytes 4 (30 + 32 * d)) 0 = Some (of_nat (30 + 32 * d))"
    using header_read [of cr a "30 + 32 * d" "le_bytes 4 e @ rest"] assms(3) ok by (simp_all add: ExtendRec)
  have e: "read_uint cr (a + 4) True = of_nat e"
    using ext_read [of cr a "le_bytes 4 (30 + 32 * d)" e rest] assms(3) ok by (simp add: ExtendRec)
  have l: "off 8 = (of_nat (length (rec_bytes r)) :: ulong)" by (simp add: ExtendRec)
  show ?thesis
    unfolding buffer_page_loop.simps [of cr nm cpu limit t0 ee a rd ts pl] h option.case bind.bind_lunit
      event_action_time(1) [OF assms(1) ok(1)] rb_action.case l e shl27
    using assms(4) by (simp add: rec_entry_def ExtendRec)
next
  case (StampRec d e)
  have ok: "d < 2 ^ 27" using assms(2) by (simp add: StampRec)
  have h: "read_struct_into cr a 4 True = Some (le_bytes 4 (31 + 32 * d))" "UINT (le_bytes 4 (31 + 32 * d)) 0 = Some (of_nat (31 + 32 * d))"
    using header_read [of cr a "31 + 32 * d" "le_bytes 4 e @ rest"] assms(3) ok by (simp_all add: StampRec)
  have l: "off 8 = (of_nat (length (rec_bytes r)) :: ulong)" by (simp add: StampRec)
  show ?thesis
    unfolding buffer_page_loop.simps [of cr nm cpu limit t0 ee a rd ts pl] h option.case bind.bind_lunit
      event_action_time(2) [OF assms(1) ok(1)] rb_action.case l
    using assms(4) by (simp add: rec_entry_def StampRec)
qed

lemma rec_bytes_pos: "0 < length (rec_bytes r)"
  by (cases r) auto

lemma fold_entries_table:
  "fold_opt (\<lambda>(e, t). parse_trace_entry cr nm cpu e (t0 + t)) es pl = Some pl' \<Longrightarrow> typetable pl' = typetable pl"
  by (induction es arbitrary: pl) (auto simp: bind_eq_Some_conv dest: parse_trace_entry_table)

lemma buffer_page_loop_records:
  assumes "list_all rec_ok rs" "event_layout pl" "mem_at cr KVADDR a (concat (map rec_bytes rs))"
    and "\<forall>i < length (concat (map rec_bytes rs)). IS_KVADDR cr (a + of_nat i)"
    and "unat rd + length (concat (map rec_bytes rs)) < 2 ^ 64"
  shows "buffer_page_loop cr nm cpu (rd + of_nat (length (concat (map rec_bytes rs)))) t0 ee a rd ts pl =
    fold_opt (\<lambda>(e, t). parse_trace_entry cr nm cpu e (t0 + t)) (loop_entries a ts rs) pl"
  using assms
proof (induction rs arbitrary: a rd ts pl)
  case Nil
  then show ?case by (subst buffer_page_loop.simps) simp
next
  case (Cons r rs)
  let ?n = "length (rec_bytes r)" and ?b = "concat (map rec_bytes rs)"
  let ?limit = "rd + of_nat (length (concat (map rec_bytes (r # rs))))"
  have ok: "rec_ok r" using Cons.prems(1) by simp
  have len: "unat rd + ?n + length ?b < 2 ^ 64" using Cons.prems(5) by simp
  have u: "unat (rd + of_nat m) = unat rd + m" if "unat rd + m < 2 ^ 64" for m
    using that unat_of_nat_small [of "unat rd + m", where 'a = 64] by simp
  have "rd < ?limit" using u [of "?n + length ?b"] len rec_bytes_pos [of r] by (simp add: word_less_nat_alt add.assoc)
  then have round: "buffer_page_loop cr nm cpu ?limit t0 ee a rd ts pl =
      fold_opt (\<lambda>(e, t). parse_trace_entry cr nm cpu e (t0 + t)) (rec_entry a ts r) pl \<bind>
      buffer_page_loop cr nm cpu ?limit t0 ee (a + of_nat ?n) (rd + of_nat ?n) (rec_time ts r)"
    using buffer_page_loop_round [of pl r cr a ?b rd ?limit nm cpu t0 ee ts] Cons.prems by simp
  have m: "mem_at cr KVADDR (a + of_nat ?n) ?b" using mem_at_drop [OF Cons.prems(3), of ?n] by simp
  have kv: "\<forall>i < length ?b. IS_KVADDR cr (a + of_nat ?n + of_nat i)"
  proof (intro allI impI)
    fix i assume "i < length ?b"
    then show "IS_KVADDR cr (a + of_nat ?n + of_nat i)"
      using spec [OF Cons.prems(4), of "?n + i"] by (simp add: add.assoc)
  qed
  have bound: "unat (rd + of_nat ?n) + length ?b < 2 ^ 64" using u [of ?n] len by simp
  have limit: "?limit = rd + of_nat ?n + of_nat (length ?b)" by (simp add: add.assoc)
  have "buffer_page_loop cr nm cpu ?limit t0 ee (a + of_nat ?n) (rd + of_nat ?n) (rec_time ts r) q =
      fold_opt (\<lambda>(e, t). parse_trace_entry cr nm cpu e (t0 + t)) (loop_entries (a + of_nat ?n) (rec_time ts r) rs) q"
    if "fold_opt (\<lambda>(e, t). parse_trace_entry cr nm cpu e (t0 + t)) (rec_entry a ts r) pl = Some q" for q
    unfolding limit
    using Cons.IH [OF _ _ m kv bound] Cons.prems(1,2) event_layout_table [OF fold_entries_table [OF that]] by simp
  then show ?case
    unfolding round loop_entries_Cons [of r a ts rs, OF ok] fold_opt_append
    by (cases "fold_opt (\<lambda>(e, t). parse_trace_entry cr nm cpu e (t0 + t)) (rec_entry a ts r) pl") simp_all
qed

section \<open>Laws: logs\<close>

text \<open>A property of the state that every entry keeps is kept by a page and by all pages.\<close>

lemma buffer_page_loop_invariant:
  assumes step: "\<And>a t pl pl'. P pl \<Longrightarrow> parse_trace_entry cr nm cpu a t pl = Some pl' \<Longrightarrow> P pl'"
    and "buffer_page_loop cr nm cpu limit t0 ee a rd ts pl = Some pl'" "P pl"
  shows "P pl'"
proof -
  have "cr = cr \<and> nm = nm \<and> cpu = cpu \<longrightarrow> P pl \<longrightarrow> P pl'"
  proof (rule buffer_page_loop.raw_induct [where P = "\<lambda>c n u limit t0 ee a rd ts pl pl'. c = cr \<and> n = nm \<and> u = cpu \<longrightarrow> P pl \<longrightarrow> P pl'",
      OF _ assms(2)], goal_cases)
    case (1 bpl c n u limit t0 ee a rd ts pl pl')
    show ?case
    proof (intro impI)
      assume c: "c = cr \<and> n = nm \<and> u = cpu" and "P pl"
      show "P pl'"
      proof (cases "rd < limit \<and> read_struct_into c a 4 True \<noteq> None")
        case True
        then obtain buf w act where act: "read_struct_into c a 4 True = Some buf" "UINT buf 0 = Some w"
            "event_action c pl a ee ts w = Some act"
          using 1(2) by (auto simp: bind_eq_Some_conv split: option.splits)
        show ?thesis
        proof (cases act)
          case Stop
          then show ?thesis using 1(2) True act \<open>P pl\<close> by simp
        next
          case (Step e ts' len)
          then obtain pl1 where pl1: "(case e of None \<Rightarrow> Some pl
              | Some a \<Rightarrow> if IS_KVADDR c a then parse_trace_entry c n u a (t0 + ts') pl else Some pl) = Some pl1"
            "bpl c n u limit t0 ee (a + off len) (rd + off len) ts' pl1 = Some pl'"
            using 1(2) True act by (auto simp: bind_eq_Some_conv)
          have "P pl1" using pl1(1) \<open>P pl\<close> c by (auto split: option.splits if_splits intro: step)
          then show ?thesis using 1(1) [OF pl1(2)] c by simp
        qed
      next
        case False
        then show ?thesis using 1(2) \<open>P pl\<close> by (auto split: if_splits option.splits)
      qed
    qed
  qed
  then show ?thesis using assms(3) by simp
qed

lemma parse_buffer_page_invariant:
  assumes "\<And>nm cpu a t pl pl'. P pl \<Longrightarrow> parse_trace_entry cr nm cpu a t pl = Some pl' \<Longrightarrow> P pl'"
    and "parse_buffer_page cr nm cpu a pl = Some pl'" "P pl"
  shows "P pl'"
  using assms(2,3) buffer_page_loop_invariant [where P = P, OF assms(1)]
  by (auto simp: parse_buffer_page_def Let_def split: if_splits)

lemma read_pages_invariant:
  assumes "\<And>nm cpu a t pl pl'. P pl \<Longrightarrow> parse_trace_entry cr nm cpu a t pl = Some pl' \<Longrightarrow> P pl'"
    and "fold_opt (\<lambda>(name, cpu, p). parse_buffer_page cr name cpu p) ps pl = Some pl'" "P pl"
  shows "P pl'"
proof (rule fold_opt_invariant [where P = P and f = "\<lambda>(name, cpu, p). parse_buffer_page cr name cpu p", OF _ assms(3,2)])
  fix x s s'
  assume "P s" "(case x of (name, cpu, p) \<Rightarrow> parse_buffer_page cr name cpu p) s = Some s'"
  then show "P s'" using parse_buffer_page_invariant [where P = P, OF assms(1)] by (cases x) auto
qed

text \<open>What a log says: an event of the table, and a process by the name the kernel saved for it.\<close>

definition cmd_name :: "crash \<Rightarrow> ftrace \<Rightarrow> int \<Rightarrow> string \<Rightarrow> bool" where
  "cmd_name cr pl pid c \<longleftrightarrow> (\<exists>s. saved_comm cr (pid_max pl) (savedcmd_ptr pl) pid = Some s \<and> c = s @ ''-'' @ show_int pid)"

definition log_ok :: "crash \<Rightarrow> ftrace \<Rightarrow> trace_log \<Rightarrow> bool" where
  "log_ok cr pl l \<longleftrightarrow> (\<exists>i ev. event_maps pl i = Some ev \<and> tl_event l = te_name ev \<and> te_name ev \<noteq> '''') \<and>
     (\<exists>pid \<le> pid_max pl. cmd_name cr pl pid (tl_comm l))"

definition logs_ok :: "crash \<Rightarrow> ftrace \<Rightarrow> ftrace \<Rightarrow> bool" where
  "logs_ok cr pl0 pl \<longleftrightarrow>
     pid_max pl = pid_max pl0 \<and> savedcmd_ptr pl = savedcmd_ptr pl0 \<and> event_maps pl = event_maps pl0 \<and> trace_list pl = trace_list pl0 \<and>
     (\<forall>p c. comm_pid_dict pl p = Some c \<longrightarrow> cmd_name cr pl0 p c) \<and> (\<forall>l \<in> set (trace_logs pl). log_ok cr pl0 l)"

lemma find_cmdline_ok:
  assumes "find_cmdline cr pid pl = Some (pl', c)" "logs_ok cr pl0 pl"
  shows "logs_ok cr pl0 pl' \<and> cmd_name cr pl0 pid c"
  using assms by (auto simp: find_cmdline_def logs_ok_def cmd_name_def bind_eq_Some_conv Let_def split: if_splits)

lemma parse_trace_entry_ok:
  assumes "parse_trace_entry cr nm cpu a t pl = Some pl'" "logs_ok cr pl0 pl"
  shows "logs_ok cr pl0 pl'"
proof -
  have "pl' = pl \<or> (\<exists>i ev pl1 pid c l. event_maps pl i = Some ev \<and> te_name ev \<noteq> '''' \<and> pid \<le> pid_max pl \<and>
      (case comm_pid_dict pl pid of Some c \<Rightarrow> Some (pl, c) | None \<Rightarrow> find_cmdline cr pid pl) = Some (pl1, c) \<and>
      pl' = pl1\<lparr>trace_logs := trace_logs pl1 @ [l]\<rparr> \<and> tl_event l = te_name ev \<and> tl_comm l = c)"
  proof (cases "read_struct_into cr a 8 True")
    case (Some entry)
    then obtain type flags pc pid where d: "USHORT entry 0 = Some type" "UCHAR entry 2 = Some flags" "UCHAR entry 3 = Some pc" "C_INT entry 4 = Some pid"
      using assms(1) by (auto simp: parse_trace_entry_def bind_eq_Some_conv)
    show ?thesis
    proof (cases "event_maps pl (ucast type)")
      case ev: (Some ev)
      show ?thesis
      proof (cases "pid > pid_max pl \<or> te_name ev = ''''")
        case False
        then obtain pl1 c where "(case comm_pid_dict pl pid of Some c \<Rightarrow> Some (pl, c) | None \<Rightarrow> find_cmdline cr pid pl) = Some (pl1, c)"
            "pl' = pl1\<lparr>trace_logs := trace_logs pl1 @ [\<lparr>tl_cpu = cpu, tl_timestamp = t, tl_array_name = nm, tl_comm = c,
               tl_lat_fmt = get_lat_fmt flags pc, tl_event = te_name ev, tl_entry = a\<rparr>]\<rparr>"
          using assms(1) Some d ev by (auto simp: parse_trace_entry_def bind_eq_Some_conv)
        moreover have "te_name ev \<noteq> ''''" "pid \<le> pid_max pl" using False by auto
        ultimately show ?thesis using ev by (intro disjI2 exI conjI) (assumption | simp)+
      qed (use assms(1) Some d ev in \<open>auto simp: parse_trace_entry_def\<close>)
    qed (use assms(1) Some d in \<open>auto simp: parse_trace_entry_def\<close>)
  qed (use assms(1) in \<open>auto simp: parse_trace_entry_def\<close>)
  then consider "pl' = pl"
    | (log) i ev pl1 pid c l where "event_maps pl i = Some ev" "te_name ev \<noteq> ''''" "pid \<le> pid_max pl"
        "(case comm_pid_dict pl pid of Some c \<Rightarrow> Some (pl, c) | None \<Rightarrow> find_cmdline cr pid pl) = Some (pl1, c)"
        "pl' = pl1\<lparr>trace_logs := trace_logs pl1 @ [l]\<rparr>" "tl_event l = te_name ev" "tl_comm l = c"
    by blast
  then show ?thesis
  proof cases
    case log
    have "logs_ok cr pl0 pl1 \<and> cmd_name cr pl0 pid c"
      using log(4) assms(2) find_cmdline_ok [of cr pid pl pl1 c pl0] by (auto simp: logs_ok_def split: option.splits)
    then show ?thesis using log assms(2) by (auto simp: logs_ok_def log_ok_def)
  qed (use assms(2) in simp)
qed

section \<open>Laws: the table of events\<close>

definition events_wf :: "ftrace \<Rightarrow> bool" where
  "events_wf pl \<longleftrightarrow> (\<forall>i ev. event_maps pl i = Some ev \<longrightarrow> te_id ev = i \<and> te_name ev \<noteq> '''' \<and> te_system ev \<noteq> '''')"

lemma parser_trace_event_call_wf:
  assumes "parser_trace_event_call cr pl a = Some (Some ev)"
  shows "te_id ev = get_event_type_id cr pl a" "te_name ev \<noteq> ''''" "te_system ev \<noteq> ''''" "event_maps pl (te_id ev) = None"
proof -
  let ?i = "get_event_type_id cr pl a"
  have n: "event_maps pl ?i = None" using assms by (auto simp: parser_trace_event_call_def Let_def split: if_splits)
  obtain kn sys where k: "get_event_type_name cr pl a = Some kn" "get_event_type_system cr pl a = Some sys"
    using assms n by (cases "get_event_type_name cr pl a"; cases "get_event_type_system cr pl a")
      (auto simp: parser_trace_event_call_def Let_def split: prod.splits)
  obtain name st where e: "event_kind ?i kn = (name, st)" by fastforce
  have ne: "name \<noteq> ''''" "sys \<noteq> ''''"
    using assms n k e by (auto simp: parser_trace_event_call_def Let_def split: if_splits)
  show "te_id ev = ?i" "te_name ev \<noteq> ''''" "te_system ev \<noteq> ''''" "event_maps pl (te_id ev) = None"
    using assms n k e ne by (auto simp: parser_trace_event_call_def Let_def bind_eq_Some_conv)
qed

lemma event_list_step_wf:
  assumes "events_wf pl" "event_list_step cr a pl = Some pl'"
  shows "events_wf pl'"
proof -
  obtain e where e: "parser_trace_event_call cr pl a = Some e" using assms(2) by (auto simp: event_list_step_def bind_eq_Some_conv)
  show ?thesis
  proof (cases e)
    case (Some ev)
    then show ?thesis
      using assms e parser_trace_event_call_wf(2,3) [of cr pl a ev] by (auto simp: event_list_step_def events_wf_def split: if_splits)
  qed (use assms e in \<open>auto simp: event_list_step_def\<close>)
qed

text \<open>An event once in the table stays there unchanged.\<close>

lemma event_list_step_keeps:
  assumes "event_list_step cr a pl = Some pl'"
  shows "event_maps pl \<subseteq>\<^sub>m event_maps pl'"
proof -
  obtain e where e: "parser_trace_event_call cr pl a = Some e" using assms by (auto simp: event_list_step_def bind_eq_Some_conv)
  show ?thesis
  proof (cases e)
    case (Some ev)
    then show ?thesis
      using assms e parser_trace_event_call_wf(4) [of cr pl a ev] by (auto simp: event_list_step_def map_le_def dom_def)
  qed (use assms e in \<open>auto simp: event_list_step_def\<close>)
qed

section \<open>Properties\<close>

text \<open>C19. The pages with data of a ring buffer are the reader page, if it has data, and then the pages of the ring
  from the head page round to the page last committed, each once and in the order of the ring; when that page is
  not in the ring, the whole ring. The walk always ends.\<close>

theorem ring_data_pages_ring:
  assumes "length pages = nr" "real_head \<in> set pages" "reader \<noteq> last_commit"
  shows "\<exists>h < nr. pages ! h = real_head \<and>
    ring_data_pages cr pl nr pages real_head reader last_commit =
      Some ((if buffer_page_has_data cr pl reader \<noteq> 0 then [reader] else []) @ until last_commit (rotate h pages))"
proof -
  obtain h where h: "page_index real_head pages = Some h" using page_index_ex [OF assms(2)] by blast
  then have b: "h < nr" "pages ! h = real_head" using page_index_Some [of real_head pages h] assms(1) by auto
  have "data_pages_loop pages nr h last_commit h = Some (until last_commit (rotate h pages))"
    using data_pages_loop_rotate [OF assms(1) b(1), of 0] b by simp
  then show ?thesis using h b assms(3) by (auto simp: ring_data_pages_def Let_def)
qed

text \<open>C18. A page on which the kernel has written data records (of the types 1 to 28) and time extensions of less
  than 32 units is decoded record by record: the entries handed on are those of the data records, in
  order, at their addresses, each at the time of the page plus the deltas and extensions up to it. Pages
  with longer extensions, absolute time stamps, padding or records of type 0 are left out.\<close>

theorem parse_buffer_page_decodes:
  assumes "list_all rec_ok rs" "list_all time_ok rs" "rs \<noteq> []" "event_layout pl"
    and "read_pointer cr (addr + off (field_offset pl ''buffer_page'' ''page'')) True = bdp" "IS_KVADDR cr bdp"
    and "read_ulong cr (bdp + off (field_offset pl ''buffer_data_page'' ''commit'')) True = of_nat (length (concat (map rec_bytes rs)))"
    and "length (concat (map rec_bytes rs)) < 2 ^ 64"
    and "a = bdp + off (field_offset pl ''buffer_data_page'' ''data'')"
    and "mem_at cr KVADDR a (concat (map rec_bytes rs))"
    and "\<forall>i < length (concat (map rec_bytes rs)). IS_KVADDR cr (a + of_nat i)"
    and "t0 = read_ulonglong cr (bdp + off (field_offset pl ''buffer_data_page'' ''time_stamp'')) True"
  shows "parse_buffer_page cr nm cpu addr pl =
    fold_opt (\<lambda>(e, t). parse_trace_entry cr nm cpu e t) (rec_entries a t0 rs) pl"
proof -
  let ?n = "length (concat (map rec_bytes rs))"
  obtain r rs' where "rs = r # rs'" using assms(3) by (cases rs) auto
  then have "0 < ?n" using rec_bytes_pos [of r] by simp
  then have "of_nat ?n \<noteq> (0 :: ulong)" using assms(8) unat_of_nat_small [of ?n, where 'a = 64] by auto
  then have "parse_buffer_page cr nm cpu addr pl =
      fold_opt (\<lambda>(e, t). parse_trace_entry cr nm cpu e (t0 + t)) (loop_entries a 0 rs) pl"
    using buffer_page_loop_records [OF assms(1,4,10,11), of 0 nm cpu t0 "bdp + of_nat ?n" 0] assms(5-9,12)
    by (simp add: parse_buffer_page_def Let_def)
  then show ?thesis
    using loop_entries_times [OF assms(2), of "parse_trace_entry cr nm cpu" t0 a 0] by simp
qed

text \<open>C30. An extension of the time is shifted in 32 bits: only its five low bits count, and every 32 units of 2^27
  ns (4.3 seconds) are lost from the times that follow.\<close>

theorem time_extend_truncated:
  assumes "event_layout pl" "d < 2 ^ 27" "read_uint cr (a + 4) True = of_nat e"
  shows "event_action cr pl a ee ts (of_nat (30 + 32 * d)) =
    Some (Step None (ts + of_nat d + of_nat (e mod 32 * 2 ^ 27)) 8)"
  using event_action_time(1) [OF assms(1,2)] assms(3) by (simp add: shl27)

text \<open>C22. Reading the events keeps the table well-formed: an event is found under its own number and has a name and a
  system. An event already in the table is never replaced.\<close>

theorem parser_ftrace_events_list_wf:
  assumes "events_wf pl" "parser_ftrace_events_list cr pl = Some pl'"
  shows "events_wf pl' \<and> event_maps pl \<subseteq>\<^sub>m event_maps pl'"
proof -
  have "events_wf s' \<and> event_maps pl \<subseteq>\<^sub>m event_maps s'" if "fold_opt (event_list_step cr) as pl = Some s'" for as s'
  proof (rule fold_opt_invariant [where P = "\<lambda>s. events_wf s \<and> event_maps pl \<subseteq>\<^sub>m event_maps s", OF _ _ that])
    fix x s s'
    assume "events_wf s \<and> event_maps pl \<subseteq>\<^sub>m event_maps s" "event_list_step cr x s = Some s'"
    then show "events_wf s' \<and> event_maps pl \<subseteq>\<^sub>m event_maps s'"
      using event_list_step_wf [of s cr x s'] event_list_step_keeps [of cr x s s'] map_le_trans by blast
  qed (use assms(1) in \<open>simp add: map_le_refl\<close>)
  then show ?thesis
    using assms by (auto simp: parser_ftrace_events_list_def bind_eq_Some_conv split: if_splits)
qed

text \<open>C21. The logs come with the latest first. Each names an event of the table and a process by the command the
  kernel saved for it: a name kept from an earlier entry is the one a new look-up would give.\<close>

theorem read_trace_logs_ok:
  assumes "trace_logs pl = []" "comm_pid_dict pl = Map.empty" "read_trace_logs cr pl = Some pl'"
  shows "sorted_wrt (\<lambda>l l'. tl_timestamp l' \<le> tl_timestamp l) (trace_logs pl') \<and>
    (\<forall>l \<in> set (trace_logs pl'). log_ok cr pl l) \<and> (\<forall>p c. comm_pid_dict pl' p = Some c \<longrightarrow> cmd_name cr pl p c)"
proof -
  obtain pl1 where pl1: "fold_opt (\<lambda>(name, cpu, p). parse_buffer_page cr name cpu p) (all_pages (trace_list pl)) pl = Some pl1"
    and pl': "pl' = pl1\<lparr>trace_logs := sort_key (\<lambda>l. - uint (tl_timestamp l)) (trace_logs pl1)\<rparr>"
    using assms(1,3) by (auto simp: read_trace_logs_def bind_eq_Some_conv)
  have "logs_ok cr pl pl1"
  proof (rule read_pages_invariant [where P = "logs_ok cr pl", OF _ pl1])
    show "logs_ok cr pl pl" using assms(1,2) by (simp add: logs_ok_def)
  qed (rule parse_trace_entry_ok)
  moreover have "sorted_wrt (\<lambda>l l'. tl_timestamp l' \<le> tl_timestamp l) (trace_logs pl')"
    using sorted_sort_key [of "\<lambda>l. - uint (tl_timestamp l)" "trace_logs pl1"]
    by (simp add: pl' sorted_map word_le_def)
  ultimately show ?thesis by (simp add: pl' logs_ok_def)
qed

lemma teen_digit: "10 \<le> n \<Longrightarrow> n < 20 \<Longrightarrow> hd (digits 10 n) = digit 1"
proof -
  assume n: "10 \<le> n" "n < 20"
  then have "n div 10 = 1" by (simp add: div_nat_eqI)
  moreover have "digits 10 1 = [digit 1]" by (subst digits.simps) simp
  ultimately show ?thesis using n by (subst digits.simps) simp
qed

text \<open>A count of 10 to 15 disabled preemptions is shown as 1, its first decimal digit.\<close>

theorem get_lat_fmt_preempt:
  assumes "10 \<le> unat (preempt AND 0xf)"
  shows "get_lat_fmt flags preempt ! 3 = get_lat_fmt flags 1 ! 3"
proof -
  have "preempt AND 0xf = take_bit 4 preempt" by (simp add: take_bit_eq_mask mask_eq_exp_minus_1)
  then have "unat (preempt AND 0xf) < 16"
    using take_bit_nat_less_exp [of 4 "unat preempt"] by (simp add: unsigned_take_bit_eq)
  then have "first_digit (preempt AND 0xf) = digit 1" using assms teen_digit [of "unat (preempt AND 0xf)"] by (simp add: first_digit_def show_dec_def)
  moreover have "preempt AND 0xf \<noteq> 0" using assms by auto
  moreover have "digits 10 1 = [digit 1]" by (subst digits.simps) simp
  then have "first_digit 1 = digit 1" by (simp add: first_digit_def show_dec_def)
  ultimately show ?thesis by (simp add: get_lat_fmt_def Let_def)
qed

section \<open>Examples\<close>

text \<open>A page at time 7 with two data records and a time extension between them.\<close>

definition page_records :: "rb_rec list" where
  "page_records = [DataRec 2 5 (replicate 8 0), ExtendRec 0 3, DataRec 2 2 (replicate 8 0)]"

definition page_bytes :: "byte list" where
  "page_bytes = le_bytes 8 7 @ le_bytes 8 32 @ concat (map rec_bytes page_records)"

definition trace_page :: ulong where "trace_page = 0xffff000000001000"

definition page_session :: crash where
  "page_session = empty_session\<lparr>readmem := \<lambda>_ a n.
     if a = 0xffff000000000100 then Some (le_bytes 8 (unat trace_page)) else dump_read trace_page page_bytes a n\<rparr>"

definition trace_state :: ftrace where
  "trace_state = plugin.extend
     \<lparr>typetable = [''buffer_page@page'' \<mapsto> \<lparr>m_name = ''page'', m_size = 8, m_offset = 0\<rparr>,
        ''buffer_data_page@time_stamp'' \<mapsto> \<lparr>m_name = ''time_stamp'', m_size = 8, m_offset = 0\<rparr>,
        ''buffer_data_page@commit'' \<mapsto> \<lparr>m_name = ''commit'', m_size = 8, m_offset = 8\<rparr>,
        ''buffer_data_page@data'' \<mapsto> \<lparr>m_name = ''data'', m_size = 0, m_offset = 16\<rparr>,
        ''ring_buffer_event'' \<mapsto> \<lparr>m_name = ''ring_buffer_event'', m_size = 4, m_offset = 0\<rparr>,
        ''ring_buffer_event@array'' \<mapsto> \<lparr>m_name = ''array'', m_size = 0, m_offset = 4\<rparr>], kaddr_mask = 0\<rparr>
     \<lparr>pid_max = 32768, nr_cpu_ids = 1, global_trace = None,
      trace_list = [\<lparr>ta_addr = 0, ta_cpus = 1, ta_name = ''global'', time_start = 0, ta_nr_pages = 1, ta_offset = 0,
        cpu_ring_buffers = [\<lparr>rb_addr = 0, rb_cpu = 0, buffer_pages = [0xffff000000000100], data_pages = [0xffff000000000100]\<rparr>]\<rparr>],
      trace_logs = [], savedcmd_ptr = None,
      event_maps = [0 \<mapsto> \<lparr>te_id = 0, te_system_id = 0, te_name = ''e'', te_system = ''s'', te_struct_type = '''', org_print_fmt = '''', field_maps = Map.empty\<rparr>],
      common_field_maps = Map.empty, comm_pid_dict = Map.empty\<rparr>"

lemma trace_state_lookup:
  "field_offset trace_state ''buffer_page'' ''page'' = 0" "field_offset trace_state ''buffer_data_page'' ''time_stamp'' = 0"
  "field_offset trace_state ''buffer_data_page'' ''commit'' = 8" "field_offset trace_state ''buffer_data_page'' ''data'' = 16"
  "event_layout trace_state" "trace_logs trace_state = []" "comm_pid_dict trace_state = Map.empty"
  "all_pages (trace_list trace_state) = [(''global'', 0, 0xffff000000000100)]"
  by (simp_all add: event_layout_def type_size_def type_offset_def trace_state_def plugin.extend_def all_pages_def)

lemma page_records_bytes: "length (concat (map rec_bytes page_records)) = 32" "list_all rec_ok page_records"
  by (simp_all add: page_records_def)

lemma page_session_mem: "mem_at page_session KVADDR trace_page page_bytes"
  unfolding mem_at_def
proof (intro allI impI)
  fix i n
  assume n: "0 < n \<and> i + n \<le> length page_bytes"
  have l: "length page_bytes = 48" by (simp add: page_bytes_def page_records_bytes)
  have u: "unat (of_nat i :: ulong) = i" using n l by (intro unat_of_nat_small) simp
  have "trace_page + of_nat i \<noteq> 0xffff000000000100"
  proof
    assume "trace_page + of_nat i = 0xffff000000000100"
    then have "(of_nat i :: ulong) = 0xffff000000000100 - trace_page" by (simp add: algebra_simps)
    then have "i = unat (0xffff000000000100 - trace_page)" using u by simp
    then show False using n l by (simp add: trace_page_def)
  qed
  then show "readmem page_session KVADDR (trace_page + of_nat i) (int n) = Some (take n (drop i page_bytes))"
    using n u by (simp add: page_session_def dump_read_def Let_def)
qed

lemma page_session_data: "mem_at page_session KVADDR (trace_page + 16) (concat (map rec_bytes page_records))"
  using mem_at_drop [OF page_session_mem, of 16] by (simp add: page_bytes_def)

lemma page_session_fields:
  "read_pointer page_session 0xffff000000000100 True = trace_page"
  "read_ulonglong page_session trace_page True = 7" "read_ulong page_session (trace_page + 8) True = 32"
  "IS_KVADDR page_session trace_page"
proof -
  have m: "readmem page_session KVADDR trace_page 8 = Some (le_bytes 8 7)" "readmem page_session KVADDR (trace_page + 8) 8 = Some (le_bytes 8 32)"
    using mem_atD [OF page_session_mem, of 8 0] mem_atD [OF page_session_mem, of 8 8] by (simp_all add: page_bytes_def)
  show "read_ulonglong page_session trace_page True = 7" "read_ulong page_session (trace_page + 8) True = 32"
    using m by (simp_all add: read_ulonglong_def read_ulong_def read_memory_def le_nat_le_bytes)
  show "read_pointer page_session 0xffff000000000100 True = trace_page"
    by (simp add: read_pointer_def read_memory_def page_session_def le_nat_le_bytes) (simp add: trace_page_def)
  show "IS_KVADDR page_session trace_page" by (simp add: page_session_def empty_session_def trace_page_def)
qed

lemma page_session_kv: "i < 64 \<Longrightarrow> IS_KVADDR page_session (trace_page + of_nat i)"
proof -
  assume "i < 64"
  then have "unat (of_nat i :: ulong) = i" by (intro unat_of_nat_small) simp
  then have "unat (trace_page + of_nat i) = unat trace_page + i"
    using \<open>i < 64\<close> by (subst unat_plus_if') (simp add: trace_page_def)
  then show ?thesis
    by (simp add: page_session_def empty_session_def word_le_nat_alt) (simp add: trace_page_def)
qed

lemma page_session_data_kv: "\<forall>i < 32. IS_KVADDR page_session (trace_page + 16 + of_nat i)"
proof (intro allI impI)
  fix i :: nat assume "i < 32"
  then show "IS_KVADDR page_session (trace_page + 16 + of_nat i)" using page_session_kv [of "16 + i"] by (simp add: add.assoc)
qed

lemma page_records_times:
  "list_all time_ok page_records"
  "rec_entries (trace_page + 16) 7 page_records = [(0xffff000000001014, 12), (0xffff000000001028, 14 + 3 * 2 ^ 27)]"
  by (simp_all add: page_records_def trace_page_def)

lemma parse_buffer_page_decodes_witness:
  "parse_buffer_page page_session ''global'' 0 0xffff000000000100 trace_state =
     fold_opt (\<lambda>(e, t). parse_trace_entry page_session ''global'' 0 e t)
       [(0xffff000000001014, 12), (0xffff000000001028, 14 + 3 * 2 ^ 27)] trace_state"
proof -
  have "page_records \<noteq> []" by (simp add: page_records_def)
  then show ?thesis
    using page_session_data_kv page_records_times parse_buffer_page_decodes [of page_records trace_state page_session "0xffff000000000100" trace_page "trace_page + 16" 7 "''global''" 0]
      page_session_data
    by (simp only: page_records_bytes trace_state_lookup page_session_fields) (simp add: page_session_fields)
qed

lemma ring_data_pages_ring_witness: "ring_data_pages empty_session small_plugin 3 [1, 2, 3] 2 9 1 = Some [2, 3, 1]"
proof -
  have "\<exists>h < 3. [1, 2, 3] ! h = (2 :: ulong) \<and> ring_data_pages empty_session small_plugin 3 [1, 2, 3] 2 9 1 =
      Some ((if buffer_page_has_data empty_session small_plugin 9 \<noteq> 0 then [9] else []) @ until 1 (rotate h [1, 2, 3]))"
    by (rule ring_data_pages_ring) simp_all
  moreover have "h = 1" if "h < 3" "[1, 2, 3] ! h = (2 :: ulong)" for h :: nat
    using that by (auto simp: less_Suc_eq numeral_3_eq_3)
  moreover have "buffer_page_has_data empty_session small_plugin 9 = 0"
    by (simp add: buffer_page_has_data_def read_ulong_def read_memory_def empty_session_def)
  ultimately show ?thesis by (force simp: rotate1_def)
qed

lemma time_extend_truncated_witness:
  "event_action (empty_session\<lparr>readmem := \<lambda>t a n. Some (le_bytes 4 33)\<rparr>) trace_state 0xffff00000000101c 0 5 30 =
     Some (Step None (5 + 2 ^ 27) 8)"
proof -
  let ?cr = "empty_session\<lparr>readmem := \<lambda>t a n. Some (le_bytes 4 33)\<rparr>"
  have "read_uint ?cr (0xffff00000000101c + 4) True = of_nat 33"
    by (simp add: read_uint_def read_memory_def le_nat_le_bytes)
  then show ?thesis
    using time_extend_truncated [of trace_state 0 ?cr "0xffff00000000101c" 33 0 5] trace_state_lookup(5) by simp
qed

text \<open>A kernel with two events: the one at 0x40 is new and has the number 7, the one at 0x50 has the number 0,
  which the table knows already.\<close>

definition event_session :: crash where
  "event_session = empty_session\<lparr>IS_KVADDR := \<lambda>_. True, symbol_exists := \<lambda>_. True, symbol_value := \<lambda>_. Some 0x1000,
     empty_list := \<lambda>_. False, do_list := \<lambda>l. Some (if ld_end l = 0x1000 then [0x40, 0x50] else []),
     readmem := \<lambda>t a n. if n = 16 then Some (8 # replicate 15 0)
       else if n = 64 then Some ([115, 99, 104, 101, 100] @ replicate 59 0)
       else if n = 4 \<and> a = 0x40 then Some [7, 0, 0, 0] else Some (replicate (nat n) 0)\<rparr>"

definition event_plugin :: ftrace where
  "event_plugin = trace_state\<lparr>typetable := \<lambda>_. Some \<lparr>m_name = '''', m_size = 16, m_offset = 0\<rparr>\<rparr>"

lemma event_lookup:
  "type_offset (event_plugin\<lparr>event_maps := m\<rparr>) t f = 0" "type_offset event_plugin t f = 0"
  "type_size (event_plugin\<lparr>event_maps := m\<rparr>) t = 16" "type_size event_plugin t = 16"
  by (simp_all add: event_plugin_def type_offset_def type_size_def)

lemma event_name: "to_string ([115, 99, 104, 101, 100] :: byte list) = ''sched''"
  by code_simp

lemma event_reads:
  "IS_KVADDR event_session a" "read_pointer event_session a True = 0" "read_cstring event_session a 64 True = Some ''sched''"
  "read_uint event_session 0x40 True = 7" "read_uint event_session 0x50 True = 0" "read_int event_session 0x40 True = 7"
  "read_struct event_session event_plugin a t True = Some (8 # replicate 15 0)"
  "for_each_list event_session event_plugin 0x1000 0 = Some [0x40, 0x50]" "for_each_list event_session event_plugin 0 0 = Some []"
  by (simp_all add: event_session_def read_pointer_def read_memory_def read_cstring_def read_uint_def read_int_def
      read_struct_def event_lookup for_each_list_def ULONG_def load_def event_name cstr_def to_int32_def)

lemma event_call:
  "\<exists>ev. parser_trace_event_call event_session event_plugin 0x40 = Some (Some ev) \<and> te_id ev = 7 \<and> te_name ev = ''sched''"
proof -
  have "event_maps event_plugin 7 = None" by (simp add: event_plugin_def trace_state_def plugin.extend_def)
  then show ?thesis
    by (simp add: parser_trace_event_call_def get_event_type_id_def get_event_type_name_def get_event_type_system_def
        string_at_def event_lookup event_reads event_kind_def Let_def)
qed

lemma event_known:
  "event_maps pl 0 \<noteq> None \<Longrightarrow> typetable pl = typetable event_plugin \<Longrightarrow>
     parser_trace_event_call event_session pl 0x50 = Some None"
proof -
  assume m: "event_maps pl 0 \<noteq> None" and t: "typetable pl = typetable event_plugin"
  have "type_offset pl t f = 0" for t f using t event_lookup(2) [of t f] by (simp add: type_offset_def)
  then show "parser_trace_event_call event_session pl 0x50 = Some None"
    using m by (simp add: parser_trace_event_call_def get_event_type_id_def event_reads)
qed

lemma parser_ftrace_events_list_wf_witness:
  "\<exists>pl ev. parser_ftrace_events_list event_session event_plugin = Some pl \<and> events_wf pl \<and>
     event_maps event_plugin 7 = None \<and> event_maps pl 7 = Some ev \<and> te_name ev = ''sched'' \<and>
     event_maps pl 0 = event_maps event_plugin 0"
proof -
  obtain ev where ev: "parser_trace_event_call event_session event_plugin 0x40 = Some (Some ev)" "te_id ev = 7" "te_name ev = ''sched''"
    using event_call by blast
  let ?pl = "event_plugin\<lparr>event_maps := (event_maps event_plugin)(7 \<mapsto> ev)\<rparr>"
  have m: "event_maps event_plugin 0 \<noteq> None" "event_maps event_plugin 7 = None" "events_wf event_plugin"
    by (simp_all add: event_plugin_def trace_state_def plugin.extend_def events_wf_def)
  have "parser_trace_event_call event_session ?pl 0x50 = Some None" using m(1) by (intro event_known) simp_all
  moreover have "symbol_exists event_session s" "symbol_value event_session s = Some 0x1000" for s
    by (simp_all add: event_session_def)
  ultimately have p: "parser_ftrace_events_list event_session event_plugin = Some ?pl"
    using ev by (simp add: parser_ftrace_events_list_def event_list_step_def event_lookup event_reads)
  from parser_ftrace_events_list_wf [OF m(3) p] p m ev(3) show ?thesis by auto
qed

lemma page_entry_returns:
  assumes "readmem page_session KVADDR e 8 = Some (replicate 8 0)"
  shows "\<exists>pl'. parse_trace_entry page_session nm cpu e t pl = Some pl'"
proof -
  have r: "replicate 8 (0 :: byte) = [0, 0, 0, 0, 0, 0, 0, 0]" by (simp add: eval_nat_numeral)
  have "read_struct_into page_session e 8 True = Some [0, 0, 0, 0, 0, 0, 0, 0]" using assms r by (simp add: read_struct_into_def)
  moreover have "saved_comm page_session m s 0 = Some ''<idle>''" for m s by (simp add: saved_comm_def)
  ultimately show ?thesis
    by (auto simp: parse_trace_entry_def find_cmdline_def Let_def USHORT_def UCHAR_def C_INT_def load_def split: option.splits)
qed

lemma page_session_logs: "\<exists>pl. read_trace_logs page_session trace_state = Some pl"
proof -
  have "readmem page_session KVADDR (trace_page + 20) 8 = Some (replicate 8 0)" "readmem page_session KVADDR (trace_page + 40) 8 = Some (replicate 8 0)"
    using mem_atD [OF page_session_mem, of 8 20] mem_atD [OF page_session_mem, of 8 40] by (simp_all add: page_bytes_def page_records_def)
  then have "\<exists>pl1. parse_trace_entry page_session ''global'' 0 0xffff000000001014 t pl = Some pl1"
      "\<exists>pl1. parse_trace_entry page_session ''global'' 0 0xffff000000001028 t pl = Some pl1" for t pl
    using page_entry_returns [of "trace_page + 20"] page_entry_returns [of "trace_page + 40"] by (simp_all add: trace_page_def)
  note e = this
  obtain pl1 where e1: "parse_trace_entry page_session ''global'' 0 0xffff000000001014 12 trace_state = Some pl1" using e(1) by blast
  obtain pl2 where e2: "parse_trace_entry page_session ''global'' 0 0xffff000000001028 (14 + 3 * 2 ^ 27) pl1 = Some pl2" using e(2) by blast
  have "parse_buffer_page page_session ''global'' 0 0xffff000000000100 trace_state =
      buffer_page_loop page_session ''global'' 0 (0 + of_nat 32) 7 (trace_page + 32) (trace_page + 16) 0 0 trace_state"
    using page_session_fields by (simp add: parse_buffer_page_def trace_state_lookup)
  also have "\<dots> = fold_opt (\<lambda>(e, t). parse_trace_entry page_session ''global'' 0 e (7 + t)) (loop_entries (trace_page + 16) 0 page_records) trace_state"
    using buffer_page_loop_records [OF page_records_bytes(2) trace_state_lookup(5) page_session_data, of 0] page_session_data_kv
    unfolding page_records_bytes(1) by simp
  also have "\<dots> = fold_opt (\<lambda>(e, t). parse_trace_entry page_session ''global'' 0 e t) (rec_entries (trace_page + 16) 7 page_records) trace_state"
    using loop_entries_times [OF page_records_times(1), of "parse_trace_entry page_session ''global'' 0" 7 "trace_page + 16" 0]
    by simp
  also have "\<dots> = Some pl2" using e1 e2 unfolding page_records_times by simp
  finally have "parse_buffer_page page_session ''global'' 0 0xffff000000000100 trace_state = Some pl2" .
  then show ?thesis by (simp add: read_trace_logs_def trace_state_lookup)
qed

lemma read_trace_logs_ok_witness:
  "\<exists>pl. read_trace_logs page_session trace_state = Some pl \<and>
     sorted_wrt (\<lambda>l l'. tl_timestamp l' \<le> tl_timestamp l) (trace_logs pl) \<and> (\<forall>l \<in> set (trace_logs pl). log_ok page_session trace_state l)"
proof -
  obtain pl where pl: "read_trace_logs page_session trace_state = Some pl" using page_session_logs by blast
  show ?thesis using read_trace_logs_ok [OF trace_state_lookup(6,7) pl] pl by blast
qed

lemma get_lat_fmt_preempt_witness: "get_lat_fmt 0 12 ! 3 = get_lat_fmt 0 1 ! 3"
  by (rule get_lat_fmt_preempt) simp

end
