(* ===== verification/TraceFile.thy ===== *)
theory TraceFile
  imports Ftrace "HOL-Library.Sublist"
begin

text \<open>
  The writer of trace files (\<^verbatim>\<open>src/ftrace/ftrace.cpp\<close>, from \<^verbatim>\<open>write_trace_data\<close> on): the file trace-cmd reads, with
  its header, the formats of the events, the kernel's symbols, printk formats and command names, the
  options with the places of the buffers, and the pages of the ring buffers. The options are written
  twice, the second time over the first, once the places are known. The reference readers follow the
  layout that the source draws in its comments.
\<close>

section \<open>The file and the text buffer\<close>

text \<open>
  A file open for writing is its bytes and the position. A write behind the end fills the gap with
  zeros; \<^verbatim>\<open>fseek\<close> alone does not change the file, and fails for a negative offset.
\<close>

record trace_out =
  contents :: "byte list"
  fpos :: nat

definition fput :: "byte list \<Rightarrow> trace_out \<Rightarrow> trace_out" where
  "fput bs f =
     (if bs = [] then f
      else f\<lparr>contents := take (fpos f) (contents f @ replicate (fpos f - length (contents f)) 0) @ bs @ drop (fpos f + length bs) (contents f),
             fpos := fpos f + length bs\<rparr>)"

definition fwrite :: "byte list \<Rightarrow> nat \<Rightarrow> trace_out \<Rightarrow> trace_out option" where
  "fwrite buf n f = (if n \<le> length buf then Some (fput (take n buf) f) else None)"

definition ftell :: "trace_out \<Rightarrow> ulong" where
  "ftell f = of_nat (fpos f)"

definition fseek_set :: "ulong \<Rightarrow> trace_out \<Rightarrow> trace_out" where
  "fseek_set p f = (if sint p < 0 then f else f\<lparr>fpos := unat p\<rparr>)"

text \<open>A C string literal with its terminator.\<close>

definition literal :: "string \<Rightarrow> byte list" where
  "literal s = to_bytes s @ [0]"

type_synonym textbuf = "byte list \<times> nat"

text \<open>\<^verbatim>\<open>vsnprintf\<close> of a text of \<open>t\<close> to \<open>buf + pos\<close>: at most \<open>len\<close> bytes with the terminator.\<close>

definition vsnprintf :: "byte list \<Rightarrow> nat \<Rightarrow> nat \<Rightarrow> byte list \<Rightarrow> byte list" where
  "vsnprintf buf pos len t =
     (if len = 0 then buf
      else let w = take (len - 1) t @ [0] in take pos buf @ w @ drop (pos + length w) buf)"

definition resize :: "nat \<Rightarrow> byte list \<Rightarrow> byte list" where
  "resize n buf = take n buf @ replicate (n - length buf) 0"

text \<open>
  A text whose length is no C \<^verbatim>\<open>int\<close> makes \<^verbatim>\<open>vsnprintf\<close> return -1 and is dropped. A position behind the buffer
  would make the remaining size wrap.
\<close>

definition write_to_buf :: "string \<Rightarrow> textbuf \<Rightarrow> textbuf option" where
  "write_to_buf s = (\<lambda>(buffer, pos).
     let t = to_bytes s; n = length t in
     if length buffer < pos then None
     else if 2 ^ 31 \<le> n then Some (buffer, pos)
     else
       let buffer = vsnprintf buffer pos (length buffer - pos) t in
       if n < length buffer - pos then Some (buffer, pos + n)
       else
         let buffer = resize (pos + n + 1) buffer in
         Some (vsnprintf buffer pos (length buffer - pos) t, pos + n))"

text \<open>The length, then the text without the terminator; an empty buffer has the size - 1 of the largest number.\<close>

definition fwrite_text :: "nat \<Rightarrow> textbuf \<Rightarrow> trace_out \<Rightarrow> trace_out option" where
  "fwrite_text k = (\<lambda>(buf, pos) f.
     let f = fput (le_bytes k pos) f in
     if buf = [] then None else fwrite buf (length buf - 1) f)"

section \<open>What the writer takes from crash and from the standard library\<close>

text \<open>
  The symbols between \<^verbatim>\<open>st->symtable\<close> and \<^verbatim>\<open>st->symend\<close>; those of a module, the last one included, and for kernels
  with module memories those of each memory that has a table; the answer of \<^verbatim>\<open>MEMBER_TYPE\<close> for the format
  of \<^verbatim>\<open>trace_bprintk_fmt\<close>; crash's \<^verbatim>\<open>read_string\<close> with its length and the 4096 bytes it fills. The orders are
  those in which a \<^verbatim>\<open>std::unordered_map\<close> is iterated: that of the events, that of the common fields (\<^term>\<open>None\<close>)
  and those of the fields of each event.
\<close>

record syment =
  sy_value :: ulong
  sy_type :: char
  sy_name :: string

record load_module =
  mod_name :: string
  mod_symtable :: "syment list"
  mem_symtable :: "syment list option list"

record trace_env =
  symtable :: "syment list"
  load_modules :: "load_module list"
  MODULE_MEMORY :: bool
  fmt_is_array :: bool
  read_string :: "ulong \<Rightarrow> nat \<times> byte list"
  event_order :: "uint list"
  field_order :: "uint option \<Rightarrow> string list"

definition values_in :: "'k list \<Rightarrow> ('k \<rightharpoonup> 'v) \<Rightarrow> 'v list" where
  "values_in ks m = List.map_filter m ks"

definition events :: "trace_env \<Rightarrow> ftrace \<Rightarrow> TraceEvent list" where
  "events env pl = values_in (event_order env) (event_maps pl)"

definition tab :: string where
  "tab = [CHR 0x09]"

definition nl :: string where
  "nl = [CHR 0x0A]"

definition show_uint :: "int \<Rightarrow> string" where
  "show_uint v = show_dec (unat (word_of_int v :: uint))"

section \<open>Header\<close>

text \<open>The first byte of an int in the memory of the little-endian host.\<close>

definition is_bigendian :: bool where
  "is_bigendian \<longleftrightarrow> hd (le_bytes 4 0x12345678) = 0x12"

definition write_init_data :: "crash \<Rightarrow> trace_out \<Rightarrow> trace_out" where
  "write_init_data cr f =
     (let f = fput ([0x17, 0x08, 0x44] @ to_bytes ''tracing'') f;
          f = fput (literal ''6'') f;
          f = fput (le_bytes 1 (if is_bigendian then 1 else 0)) f;
          f = fput (le_bytes 1 8) f in
      fput (le_bytes 4 (PAGESIZE cr)) f)"

definition header_page_texts :: "crash \<Rightarrow> string list" where
  "header_page_texts cr =
     [tab @ ''field: u64 timestamp;'' @ tab @ ''offset:0;'' @ tab @ ''size:8;'' @ tab @ ''signed:0;'' @ nl,
      tab @ ''field: local_t commit;'' @ tab @ ''offset:8;'' @ tab @ ''size:'' @ show_dec 8 @ '';'' @ tab @ ''signed:1;'' @ nl,
      tab @ ''field: int overwrite;'' @ tab @ ''offset:8;'' @ tab @ ''size:'' @ show_dec 8 @ '';'' @ tab @ ''signed:1;'' @ nl,
      tab @ ''field: char data;'' @ tab @ ''offset:'' @ show_dec (8 + 8) @ '';'' @ tab @ ''size:''
        @ show_dec (unat (of_nat (PAGESIZE cr) - 8 - 8 :: ulong)) @ '';'' @ tab @ ''signed:1;'' @ nl]"

definition header_event_text :: string where
  "header_event_text =
     ''# compressed entry header'' @ nl @ tab @ ''type_len    :    5 bits'' @ nl @ tab @ ''time_delta  :   27 bits'' @ nl
     @ tab @ ''array       :   32 bits'' @ nl @ nl @ tab @ ''padding     : type == 29'' @ nl
     @ tab @ ''time_extend : type == 30'' @ nl @ tab @ ''data max type_len  == 28'' @ nl"

definition write_header_data :: "crash \<Rightarrow> trace_out \<Rightarrow> trace_out option" where
  "write_header_data cr f = do {
     let f = fput (literal ''header_page'') f;
     head_buf \<leftarrow> fold_opt write_to_buf (header_page_texts cr) ([], 0);
     f \<leftarrow> fwrite_text 8 head_buf f;
     let f = fput (literal ''header_event'') f;
     event_buf \<leftarrow> write_to_buf header_event_text ([], 0);
     fwrite_text 8 event_buf f }"

section \<open>Events\<close>

definition field_text :: "trace_field \<Rightarrow> string" where
  "field_text fld =
     (let type = tf_type fld;
          rest = '';'' @ tab @ ''offset:'' @ show_uint (tf_offset fld) @ '';'' @ tab @ ''size:'' @ show_uint (tf_size fld)
            @ '';'' @ tab @ ''signed:'' @ (if tf_is_signed fld \<noteq> 0 then ''1'' else ''0'') @ '';'' @ nl in
      tab @ ''field:'' @
      (case (if type = ''__data_loc'' then None else find_char (CHR ''['') type) of
         None \<Rightarrow> c_str type @ '' '' @ c_str (tf_name fld)
       | Some position \<Rightarrow> take position (c_str type) @ '' '' @ c_str (tf_name fld) @ c_str (drop position type))
      @ rest)"

definition event_texts :: "trace_env \<Rightarrow> ftrace \<Rightarrow> TraceEvent \<Rightarrow> string list" where
  "event_texts env pl ev =
     [''name: '' @ c_str (te_name ev) @ nl, ''ID: '' @ show_int (sint (te_id ev)) @ nl, ''format:'' @ nl]
     @ map field_text (values_in (field_order env None) (common_field_maps pl))
     @ [nl]
     @ map field_text (values_in (field_order env (Some (te_id ev))) (field_maps ev))
     @ [nl @ ''print fmt: '' @ c_str (org_print_fmt ev) @ nl]"

definition write_event :: "trace_env \<Rightarrow> ftrace \<Rightarrow> TraceEvent \<Rightarrow> trace_out \<Rightarrow> trace_out option" where
  "write_event env pl ev f = do {
     event_buf \<leftarrow> fold_opt write_to_buf (event_texts env pl ev) ([], 0);
     fwrite_text 8 event_buf f }"

definition write_events :: "trace_env \<Rightarrow> ftrace \<Rightarrow> uint \<Rightarrow> trace_out \<Rightarrow> trace_out option" where
  "write_events env pl system_id f =
     (let evs = filter (\<lambda>e. te_system_id e = system_id) (events env pl) in
      fold_opt (write_event env pl) evs (fput (le_bytes 4 (length evs)) f))"

text \<open>The systems are numbered in the order they are met, after \<^verbatim>\<open>ftrace\<close> with number 1.\<close>

fun number_systems :: "uint list \<Rightarrow> uint \<Rightarrow> (string \<rightharpoonup> uint) \<Rightarrow> (uint \<rightharpoonup> TraceEvent) \<Rightarrow> uint \<times> (uint \<rightharpoonup> TraceEvent)" where
  "number_systems [] system_id ids m = (system_id, m)"
| "number_systems (k # ks) system_id ids m =
     (case m k of
        None \<Rightarrow> number_systems ks system_id ids m
      | Some e \<Rightarrow>
          (case ids (te_system e) of
             Some i \<Rightarrow> number_systems ks system_id ids (m(k \<mapsto> e\<lparr>te_system_id := i\<rparr>))
           | None \<Rightarrow> number_systems ks (system_id + 1) (ids(te_system e \<mapsto> system_id)) (m(k \<mapsto> e\<lparr>te_system_id := system_id\<rparr>))))"

text \<open>The search stops at the first event of the system, or is left with the last event of all.\<close>

definition system_event :: "TraceEvent list \<Rightarrow> uint \<Rightarrow> TraceEvent option" where
  "system_event evs id' =
     (case List.find (\<lambda>e. te_system_id e = id') evs of
        Some e \<Rightarrow> Some e
      | None \<Rightarrow> if evs = [] then None else Some (last evs))"

definition write_system :: "trace_env \<Rightarrow> ftrace \<Rightarrow> uint \<Rightarrow> trace_out \<Rightarrow> trace_out option" where
  "write_system env pl id' f = do {
     ev \<leftarrow> system_event (events env pl) id';
     write_events env pl (te_system_id ev) (fput (literal (te_system ev)) f) }"

definition write_events_data :: "trace_env \<Rightarrow> ftrace \<Rightarrow> trace_out \<Rightarrow> (ftrace \<times> trace_out) option" where
  "write_events_data env pl f = do {
     let (system_id, m) = number_systems (event_order env) 2 [''ftrace'' \<mapsto> 1] (event_maps pl);
     let pl = pl\<lparr>event_maps := m\<rparr>;
     f \<leftarrow> write_events env pl 1 f;
     let nr_systems = system_id - 2;
     let f = fput (le_bytes 4 (unat nr_systems)) f;
     f \<leftarrow> fold_opt (write_system env pl) (map of_nat [2..<unat (nr_systems + 2)]) f;
     Some (pl, f) }"

section \<open>Symbols, printk formats and commands\<close>

definition mod_syms :: "string \<Rightarrow> syment list \<Rightarrow> string list" where
  "mod_syms mname sps =
     map (\<lambda>sp. show_hex (unat (sy_value sp)) @ '' m '' @ sy_name sp @ tab @ ''['' @ mname @ '']'' @ nl)
       (filter (\<lambda>sp. take 8 (sy_name sp) \<noteq> ''_MODULE_'') sps)"

definition save_proc_kallsyms_mod_v6_4 :: "trace_env \<Rightarrow> textbuf \<Rightarrow> textbuf option" where
  "save_proc_kallsyms_mod_v6_4 env =
     fold_opt write_to_buf
       (concat (map (\<lambda>lm. concat (map (\<lambda>t. case t of None \<Rightarrow> [] | Some sps \<Rightarrow> mod_syms (mod_name lm) sps) (mem_symtable lm)))
          (load_modules env)))"

definition save_proc_kallsyms_mod_legacy :: "trace_env \<Rightarrow> textbuf \<Rightarrow> textbuf option" where
  "save_proc_kallsyms_mod_legacy env =
     fold_opt write_to_buf (concat (map (\<lambda>lm. mod_syms (mod_name lm) (mod_symtable lm)) (load_modules env)))"

definition write_kallsyms_data :: "trace_env \<Rightarrow> trace_out \<Rightarrow> trace_out option" where
  "write_kallsyms_data env f = do {
     sym_buf \<leftarrow> fold_opt write_to_buf
       (map (\<lambda>sp. show_hex (unat (sy_value sp)) @ '' '' @ [sy_type sp] @ '' '' @ sy_name sp @ nl) (symtable env)) ([], 0);
     sym_buf \<leftarrow> (if MODULE_MEMORY env then save_proc_kallsyms_mod_v6_4 env sym_buf else save_proc_kallsyms_mod_legacy env sym_buf);
     fwrite_text 4 sym_buf f }"

definition escape :: "byte \<Rightarrow> string" where
  "escape b =
     (let c = chr b in
      if c = CHR 0x0A then [CHR 0x5C, CHR ''n'']
      else if c = CHR 0x09 then [CHR 0x5C, CHR ''t'']
      else if c = CHR 0x5C then [CHR 0x5C, CHR 0x5C]
      else if c = CHR 0x22 then [CHR 0x5C, CHR 0x22]
      else [c])"

text \<open>The characters up to the terminator; the loop leaves the buffer when there is none.\<close>

definition printk_texts :: "ulong \<Rightarrow> byte list \<Rightarrow> string list option" where
  "printk_texts addr tmpbuf =
     (if 0 \<in> set tmpbuf
      then Some ([''0x'' @ show_hex (unat addr) @ '' : '' @ [CHR 0x22]] @ map escape (cstr tmpbuf) @ [[CHR 0x22] @ nl])
      else None)"

definition write_printk :: "ulong \<Rightarrow> byte list \<Rightarrow> textbuf \<Rightarrow> textbuf option" where
  "write_printk addr tmpbuf buf = do { ts \<leftarrow> printk_texts addr tmpbuf; fold_opt write_to_buf ts buf }"

definition kernel_fmt_step :: "trace_env \<Rightarrow> crash \<Rightarrow> byte list \<Rightarrow> nat \<Rightarrow> textbuf \<Rightarrow> textbuf option" where
  "kernel_fmt_step env cr bprintks i buf = do {
     a \<leftarrow> ULONG bprintks (8 * int i);
     if \<not> IS_KVADDR cr a then Some buf
     else let (len, tmpbuf) = read_string env a in
       if len = 0 then Some buf else write_printk a tmpbuf buf }"

text \<open>The walk of the list of modules' formats, with the number of formats so far.\<close>

partial_function (option) mod_fmt_loop :: "trace_env \<Rightarrow> crash \<Rightarrow> ulong \<Rightarrow> ulong \<Rightarrow> ulong \<Rightarrow> textbuf \<Rightarrow> (ulong \<times> textbuf) option" where
  "mod_fmt_loop env cr fmt_list mod_next count buf =
     (if mod_next = fmt_list then Some (count, buf)
      else
        let node_addr = mod_next + 16;
            node_addr = (if fmt_is_array env then node_addr else read_ulong cr node_addr True) in
        case read_struct_into cr mod_next 16 True of
          None \<Rightarrow> Some (count, buf)
        | Some head \<Rightarrow> do {
            nxt \<leftarrow> ULONG head 0;
            let (len, tmpbuf) = read_string env node_addr;
            if len = 0 then mod_fmt_loop env cr fmt_list nxt count buf
            else do {
              buf \<leftarrow> write_printk node_addr tmpbuf buf;
              mod_fmt_loop env cr fmt_list nxt (count + 1) buf } })"

definition write_printk_data :: "trace_env \<Rightarrow> crash \<Rightarrow> trace_out \<Rightarrow> trace_out option" where
  "write_printk_data env cr f =
     (if \<not> symbol_exists cr ''__start___trace_bprintk_fmt'' \<or> \<not> symbol_exists cr ''__stop___trace_bprintk_fmt'' then Some f
      else do {
        bprintk_fmt_s \<leftarrow> symbol_value cr ''__start___trace_bprintk_fmt'';
        bprintk_fmt_e \<leftarrow> symbol_value cr ''__stop___trace_bprintk_fmt'';
        let count = (bprintk_fmt_e - bprintk_fmt_s) div 8;
        data_buf \<leftarrow> (if count = 0 then Some ([], 0)
          else case read_struct_into cr bprintk_fmt_s (to_int32 (count * 8)) True of
            None \<Rightarrow> Some ([], 0)
          | Some bprintks \<Rightarrow> fold_opt (kernel_fmt_step env cr bprintks) [0..<unat count] ([], 0));
        (count, data_buf) \<leftarrow> (if \<not> symbol_exists cr ''trace_bprintk_fmt_list'' then Some (count, data_buf)
          else do {
            fmt_list \<leftarrow> symbol_value cr ''trace_bprintk_fmt_list'';
            case read_struct_into cr fmt_list 16 True of
              None \<Rightarrow> Some (count, data_buf)
            | Some head \<Rightarrow> do { nxt \<leftarrow> ULONG head 0; mod_fmt_loop env cr fmt_list nxt count data_buf } });
        let f = (if count = 0 then fput (le_bytes 4 0) f else f);
        if fst data_buf \<noteq> [] then fwrite_text 4 data_buf f else Some f })"

definition write_cmdlines :: "crash \<Rightarrow> trace_out \<Rightarrow> trace_out option" where
  "write_cmdlines cr f =
     (if length (task_contexts cr) < RUNNING_TASKS cr then None
      else do {
        data_buf \<leftarrow> fold_opt write_to_buf
          (map (\<lambda>tc. show_int (to_int32 (tc_pid tc)) @ '' '' @ tc_comm tc @ nl) (take (RUNNING_TASKS cr) (task_contexts cr))) ([], 0);
        fwrite_text 8 data_buf f })"

section \<open>Options and buffers\<close>

definition TRACECMD_OPTION_DONE :: nat where
  "TRACECMD_OPTION_DONE = 0"

definition TRACECMD_OPTION_BUFFER :: nat where
  "TRACECMD_OPTION_BUFFER = 3"

definition write_option :: "trace_array \<Rightarrow> trace_out \<Rightarrow> trace_out" where
  "write_option ta f =
     (if ta_name ta = ''global'' then f
      else
        let f = fput (le_bytes 2 TRACECMD_OPTION_BUFFER) f;
            f = fput (le_bytes 4 (length (ta_name ta) + 1 + 8)) f;
            f = fput (le_bytes 8 (unat (ta_offset ta))) f in
        fput (to_bytes (ta_name ta) @ [0]) f)"

definition write_res_data :: "ftrace \<Rightarrow> trace_out \<Rightarrow> trace_out" where
  "write_res_data pl f =
     (let f = fput (le_bytes 4 (unat (word_of_int (nr_cpu_ids pl) :: uint))) f;
          f = fput (literal ''options  '') f;
          f = fold write_option (trace_list pl) f;
          f = fput (le_bytes 2 TRACECMD_OPTION_DONE) f in
      fput (literal ''flyrecord'') f)"

definition roundup_page :: "ulong \<Rightarrow> ulong \<Rightarrow> ulong" where
  "roundup_page x y = (x + (y - 1)) div y * y"

definition nth_opt :: "'v list \<Rightarrow> nat \<Rightarrow> 'v option" where
  "nth_opt xs i = (if i < length xs then Some (xs ! i) else None)"

definition cpu_header_step :: "crash \<Rightarrow> trace_array \<Rightarrow> nat \<Rightarrow> trace_out \<times> ulong \<Rightarrow> (trace_out \<times> ulong) option" where
  "cpu_header_step cr ta cpu = (\<lambda>(f, buffer_offset). do {
     ring_buffer \<leftarrow> nth_opt (cpu_ring_buffers ta) cpu;
     let buffer_size = of_nat (PAGESIZE cr) * of_nat (length (data_pages ring_buffer));
     Some (fput (le_bytes 8 (unat buffer_size)) (fput (le_bytes 8 (unat buffer_offset)) f), buffer_offset + buffer_size) })"

text \<open>A page that cannot be read is a null pointer, and written from it.\<close>

definition write_buffer_page :: "crash \<Rightarrow> ftrace \<Rightarrow> ulong \<Rightarrow> trace_out \<Rightarrow> trace_out option" where
  "write_buffer_page cr pl bp f = do {
     let page = read_pointer cr (bp + off (field_offset pl ''buffer_page'' ''page'')) True;
     buf \<leftarrow> read_memory cr page (int (PAGESIZE cr)) True;
     fwrite buf (PAGESIZE cr) f }"

definition cpu_data_step :: "crash \<Rightarrow> ftrace \<Rightarrow> trace_array \<Rightarrow> nat \<Rightarrow> trace_out \<Rightarrow> trace_out option" where
  "cpu_data_step cr pl ta cpu f = do {
     ring_buffer \<leftarrow> nth_opt (cpu_ring_buffers ta) cpu;
     fold_opt (write_buffer_page cr pl) (data_pages ring_buffer) f }"

text \<open>The product with the number of CPUs is one of C \<^verbatim>\<open>int\<close>s.\<close>

definition write_trace_array_buffers :: "crash \<Rightarrow> ftrace \<Rightarrow> trace_array \<Rightarrow> trace_out \<Rightarrow> trace_out option" where
  "write_trace_array_buffers cr pl ta f =
     (if ta_cpus ta * 16 < - (2 ^ 31) \<or> 2 ^ 31 \<le> ta_cpus ta * 16 then None
      else do {
        let data_start_offset = roundup_page (ftell f + off (ta_cpus ta * 16)) (of_nat (PAGESIZE cr));
        (f, _) \<leftarrow> fold_opt (cpu_header_step cr ta) [0..<nat (ta_cpus ta)] (f, data_start_offset);
        fold_opt (cpu_data_step cr pl ta) [0..<nat (ta_cpus ta)] (fseek_set data_start_offset f) })"

text \<open>One of the two passes of \<^verbatim>\<open>write_buffer_data\<close>, over the global trace array or over the others.\<close>

fun buffer_pass :: "crash \<Rightarrow> ftrace \<Rightarrow> bool \<Rightarrow> trace_array list \<Rightarrow> trace_out \<Rightarrow> (trace_array list \<times> trace_out) option" where
  "buffer_pass cr pl glob [] f = Some ([], f)"
| "buffer_pass cr pl glob (ta # tas) f =
     (if (ta_name ta = ''global'') \<noteq> glob
      then do { (tas, f) \<leftarrow> buffer_pass cr pl glob tas f; Some (ta # tas, f) }
      else do {
        let ta = ta\<lparr>ta_offset := ftell f\<rparr>;
        f \<leftarrow> write_trace_array_buffers cr pl ta (if glob then f else fput (literal ''flyrecord'') f);
        (tas, f) \<leftarrow> buffer_pass cr pl glob tas f;
        Some (ta # tas, f) })"

definition write_buffer_data :: "crash \<Rightarrow> ftrace \<Rightarrow> trace_out \<Rightarrow> (ftrace \<times> trace_out) option" where
  "write_buffer_data cr pl f = do {
     (tas, f) \<leftarrow> buffer_pass cr pl True (trace_list pl) f;
     (tas, f) \<leftarrow> buffer_pass cr pl False tas f;
     Some (pl\<lparr>trace_list := tas\<rparr>, f) }"

text \<open>The second half of \<^verbatim>\<open>write_trace_data\<close>: the options, the buffers, and the options again.\<close>

definition write_resources :: "crash \<Rightarrow> ftrace \<Rightarrow> trace_out \<Rightarrow> (ftrace \<times> trace_out) option" where
  "write_resources cr pl f = do {
     let res_data_offset = ftell f;
     (pl, f) \<leftarrow> write_buffer_data cr pl (write_res_data pl f);
     Some (pl, write_res_data pl (fseek_set res_data_offset f)) }"

definition write_trace_data :: "trace_env \<Rightarrow> crash \<Rightarrow> ftrace \<Rightarrow> trace_out \<Rightarrow> (ftrace \<times> trace_out) option" where
  "write_trace_data env cr pl f = do {
     f \<leftarrow> write_header_data cr (write_init_data cr f);
     (pl, f) \<leftarrow> write_events_data env pl f;
     f \<leftarrow> write_kallsyms_data env f;
     f \<leftarrow> write_printk_data env cr f;
     f \<leftarrow> write_cmdlines cr f;
     write_resources cr pl f }"

text \<open>\<^verbatim>\<open>ftrace_dump\<close> writes to a new file.\<close>

definition ftrace_dump :: "trace_env \<Rightarrow> crash \<Rightarrow> ftrace \<Rightarrow> (ftrace \<times> byte list) option" where
  "ftrace_dump env cr pl = map_option (\<lambda>(pl, f). (pl, contents f)) (write_trace_data env cr pl \<lparr>contents = [], fpos = 0\<rparr>)"

section \<open>The text buffer holds what was written\<close>

definition text_buf :: "string \<Rightarrow> textbuf" where
  "text_buf t = (to_bytes t @ [0], length t)"

lemma length_to_bytes [simp]: "length (to_bytes s) = length s"
  by (simp add: to_bytes_def)

lemma to_bytes_append: "to_bytes (s @ t) = to_bytes s @ to_bytes t"
  by (simp add: to_bytes_def)

lemma write_to_buf_first: "length s < 2 ^ 31 \<Longrightarrow> write_to_buf s ([], 0) = Some (text_buf s)"
  by (simp add: write_to_buf_def text_buf_def vsnprintf_def resize_def Let_def)

lemma write_to_buf_next:
  assumes "length s < 2 ^ 31"
  shows "write_to_buf s (text_buf t) = Some (text_buf (t @ s))"
proof (cases "s = []")
  case True
  then show ?thesis by (simp add: write_to_buf_def text_buf_def vsnprintf_def Let_def to_bytes_def)
next
  case False
  then have "0 < length s" by simp
  then show ?thesis using assms
    by (simp add: write_to_buf_def text_buf_def vsnprintf_def resize_def Let_def to_bytes_append)
qed

lemma fold_write_next:
  "\<forall>s \<in> set ts. length s < 2 ^ 31 \<Longrightarrow> fold_opt write_to_buf ts (text_buf t) = Some (text_buf (t @ concat ts))"
  by (induction ts arbitrary: t) (simp_all add: write_to_buf_next)

lemma fold_write:
  assumes "ts \<noteq> []" "\<forall>s \<in> set ts. length s < 2 ^ 31"
  shows "fold_opt write_to_buf ts ([], 0) = Some (text_buf (concat ts))"
  using assms by (cases ts) (simp_all add: write_to_buf_first fold_write_next)

lemma length_le_concat: "s \<in> set ts \<Longrightarrow> length s \<le> length (concat ts)"
  by (induction ts) auto

lemma fold_write_concat:
  assumes "ts \<noteq> []" "length (concat ts) < 2 ^ 31"
  shows "fold_opt write_to_buf ts ([], 0) = Some (text_buf (concat ts))"
  using assms length_le_concat [of _ ts] by (intro fold_write) (auto intro: le_less_trans)

lemma fwrite_text_text_buf:
  "fwrite_text k (text_buf t) f = Some (fput (to_bytes t) (fput (le_bytes k (length t)) f))"
  by (simp add: fwrite_text_def text_buf_def fwrite_def Let_def)

section \<open>Writing at the end of the file\<close>

text \<open>
  While the position is at or behind the end, a write adds its bytes at the position and keeps all
  there is. \<open>emits\<close> is the contract of an operation that does no more than this, and does return.
\<close>

definition bytes_at :: "byte list \<Rightarrow> nat \<Rightarrow> byte list \<Rightarrow> bool" where
  "bytes_at c i bs \<longleftrightarrow> take (length bs) (drop i c) = bs"

definition at_end :: "trace_out \<Rightarrow> bool" where
  "at_end f \<longleftrightarrow> length (contents f) \<le> fpos f"

definition appends :: "trace_out \<Rightarrow> byte list \<Rightarrow> trace_out \<Rightarrow> bool" where
  "appends f bs f' \<longleftrightarrow> at_end f' \<and> prefix (contents f) (contents f') \<and> fpos f' = fpos f + length bs \<and> bytes_at (contents f') (fpos f) bs"

definition emits :: "(trace_out \<Rightarrow> trace_out option) \<Rightarrow> byte list \<Rightarrow> bool" where
  "emits g bs \<longleftrightarrow> (\<forall>f. at_end f \<longrightarrow> (\<exists>f'. g f = Some f' \<and> appends f bs f'))"

lemma bytes_at_Nil [simp]: "bytes_at c i []"
  by (simp add: bytes_at_def)

lemma bytes_at_length: "bytes_at c i bs \<Longrightarrow> length bs \<le> length (drop i c)"
  by (metis bytes_at_def length_take min.cobounded1)

lemma bytes_at_prefix:
  assumes "bytes_at c i bs" "prefix c c'"
  shows "bytes_at c' i bs"
proof -
  obtain z where "c' = c @ z" using assms(2) by (auto simp: prefix_def)
  then have "take (length bs) (drop i c') = take (length bs) (drop i c)"
    using bytes_at_length [OF assms(1)] by simp
  then show ?thesis using assms(1) by (simp add: bytes_at_def)
qed

lemma bytes_at_append:
  "bytes_at c i (as @ bs) \<longleftrightarrow> bytes_at c i as \<and> bytes_at c (i + length as) bs"
proof -
  have "take (length as + length bs) (drop i c) = take (length as) (drop i c) @ take (length bs) (drop (length as) (drop i c))"
    by (rule take_add)
  moreover have "length (take (length as) (drop i c)) = length as \<Longrightarrow> ?thesis"
    using calculation by (simp add: bytes_at_def add.commute append_eq_append_conv)
  moreover have "length (take (length as) (drop i c)) \<noteq> length as \<Longrightarrow> ?thesis"
  proof -
    assume n: "length (take (length as) (drop i c)) \<noteq> length as"
    then have "\<not> bytes_at c i as" by (auto simp: bytes_at_def)
    moreover have "\<not> bytes_at c i (as @ bs)"
    proof
      assume "bytes_at c i (as @ bs)"
      then have "length as + length bs \<le> length (drop i c)"
        by (metis bytes_at_def length_append length_take min.cobounded1)
      then show False using n by simp
    qed
    ultimately show ?thesis by blast
  qed
  ultimately show ?thesis by blast
qed

lemma appends_fput: "at_end f \<Longrightarrow> appends f bs (fput bs f)"
  by (cases "bs = []") (simp_all add: appends_def at_end_def fput_def bytes_at_def)

lemma appends_trans: "appends f as f' \<Longrightarrow> appends f' bs f'' \<Longrightarrow> appends f (as @ bs) f''"
  unfolding appends_def bytes_at_append
  by (auto intro: bytes_at_prefix prefix_order.trans)

lemma appends_at_end: "appends f bs f' \<Longrightarrow> at_end f'"
  by (simp add: appends_def)

lemma emits_fput: "emits (\<lambda>f. Some (fput bs f)) bs"
  by (simp add: emits_def appends_fput)

lemma emits_bind: "emits g as \<Longrightarrow> emits h bs \<Longrightarrow> emits (\<lambda>f. g f \<bind> h) (as @ bs)"
  unfolding emits_def by (metis appends_at_end appends_trans bind.bind_lunit)

lemma emits_after_fput: "emits h bs \<Longrightarrow> emits (\<lambda>f. h (fput as f)) (as @ bs)"
  using emits_bind [OF emits_fput [of as], of h bs] by simp

lemma emits_fold:
  "\<forall>x \<in> set xs. emits (g x) (enc x) \<Longrightarrow> emits (fold_opt g xs) (concat (map enc xs))"
proof (induction xs)
  case Nil
  then show ?case by (simp add: emits_def appends_def)
next
  case (Cons x xs)
  then show ?case using emits_bind [of "g x" "enc x" "fold_opt g xs"] by simp
qed

lemma emitsD: "emits g bs \<Longrightarrow> at_end f \<Longrightarrow> \<exists>f'. g f = Some f' \<and> appends f bs f'"
  by (simp add: emits_def)

definition block :: "nat \<Rightarrow> byte list \<Rightarrow> byte list" where
  "block k bs = le_bytes k (length bs) @ bs"

lemma emits_texts:
  assumes "ts \<noteq> []" "length (concat ts) < 2 ^ 31"
  shows "emits (\<lambda>f. fold_opt write_to_buf ts ([], 0) \<bind> (\<lambda>b. fwrite_text k b f)) (block k (to_bytes (concat ts)))"
  using emits_after_fput [OF emits_fput, of "to_bytes (concat ts)" "le_bytes k (length (concat ts))"]
  by (simp add: fold_write_concat [OF assms] fwrite_text_text_buf block_def)

end
