(* ===== verification/TraceEvents.thy ===== *)
theory TraceEvents
  imports TraceFile
begin

text \<open>
  Readers for the sections of a trace file (\<^verbatim>\<open>src/ftrace/ftrace.cpp\<close>): the contract \<open>codec\<close> between a writer and a reader,
  and the section of the events. Its systems are numbered in the order they are met, and the section is read
  back as the texts of the events of each system.
\<close>

section \<open>Reference readers\<close>

text \<open>
  A reader takes a value off the front of the bytes. The contract of a reader for a way to write values:
  it gives back the value and leaves what follows. Lists with their number in front follow from it.
\<close>

locale codec =
  fixes ok :: "'v \<Rightarrow> bool" and enc :: "'v \<Rightarrow> 'b list" and dec :: "'b list \<Rightarrow> ('v \<times> 'b list) option"
  assumes dec_enc: "ok x \<Longrightarrow> dec (enc x @ r) = Some (x, r)"

locale byte_codec = codec ok enc dec
  for ok :: "'v \<Rightarrow> bool" and enc :: "'v \<Rightarrow> byte list" and dec :: "byte list \<Rightarrow> ('v \<times> byte list) option"

fun dec_n :: "('b list \<Rightarrow> ('v \<times> 'b list) option) \<Rightarrow> nat \<Rightarrow> 'b list \<Rightarrow> ('v list \<times> 'b list) option" where
  "dec_n dec 0 bs = Some ([], bs)"
| "dec_n dec (Suc n) bs = do { (x, bs) \<leftarrow> dec bs; (xs, bs) \<leftarrow> dec_n dec n bs; Some (x # xs, bs) }"

definition dec_num :: "nat \<Rightarrow> byte list \<Rightarrow> (nat \<times> byte list) option" where
  "dec_num k bs = (if length bs < k then None else Some (le_nat (take k bs), drop k bs))"

definition dec_list :: "(byte list \<Rightarrow> ('v \<times> byte list) option) \<Rightarrow> byte list \<Rightarrow> ('v list \<times> byte list) option" where
  "dec_list dec bs = do { (n, bs) \<leftarrow> dec_num 4 bs; dec_n dec n bs }"

lemma dec_num_le_bytes: "v < 256 ^ k \<Longrightarrow> dec_num k (le_bytes k v @ r) = Some (v, r)"
  by (simp add: dec_num_def le_nat_le_bytes)

context codec
begin

lemma dec_n_enc: "\<forall>x \<in> set xs. ok x \<Longrightarrow> dec_n dec (length xs) (concat (map enc xs) @ r) = Some (xs, r)"
  by (induction xs) (simp_all add: dec_enc)

end

context byte_codec
begin

lemma dec_list_enc:
  "\<forall>x \<in> set xs. ok x \<Longrightarrow> length xs < 2 ^ 32 \<Longrightarrow>
     dec_list dec (le_bytes 4 (length xs) @ concat (map enc xs) @ r) = Some (xs, r)"
  by (simp add: dec_list_def dec_num_le_bytes dec_n_enc)

end

text \<open>The text of an event: its length in eight bytes, then the text.\<close>

definition dec_block :: "byte list \<Rightarrow> (byte list \<times> byte list) option" where
  "dec_block bs = do { (n, bs) \<leftarrow> dec_num 8 bs; if length bs < n then None else Some (take n bs, drop n bs) }"

interpretation eb: byte_codec "\<lambda>t. length t < 2 ^ 31" "block 8" dec_block
  by unfold_locales (simp add: block_def dec_block_def dec_num_le_bytes)

text \<open>A system: its name with the terminator, then its events.\<close>

definition enc_events :: "byte list list \<Rightarrow> byte list" where
  "enc_events ts = le_bytes 4 (length ts) @ concat (map (block 8) ts)"

definition enc_system :: "string \<times> byte list list \<Rightarrow> byte list" where
  "enc_system = (\<lambda>(s, ts). literal s @ enc_events ts)"

definition dec_name :: "byte list \<Rightarrow> (string \<times> byte list) option" where
  "dec_name bs = (if 0 \<in> set bs then Some (to_string (cstr bs), drop (Suc (length (cstr bs))) bs) else None)"

definition dec_system :: "byte list \<Rightarrow> ((string \<times> byte list list) \<times> byte list) option" where
  "dec_system bs = do { (s, bs) \<leftarrow> dec_name bs; (ts, bs) \<leftarrow> dec_list dec_block bs; Some ((s, ts), bs) }"

definition texts_ok :: "byte list list \<Rightarrow> bool" where
  "texts_ok ts \<longleftrightarrow> length ts < 2 ^ 32 \<and> (\<forall>t \<in> set ts. length t < 2 ^ 31)"

lemma dec_list_enc_events: "texts_ok ts \<Longrightarrow> dec_list dec_block (enc_events ts @ r) = Some (ts, r)"
  using eb.dec_list_enc [of ts r] by (simp add: texts_ok_def enc_events_def)

lemma ord_0: "ord c = 0 \<longleftrightarrow> c = CHR 0x00"
proof -
  have "chr 0 = CHR 0x00" by code_simp
  then show ?thesis by (metis chr_ord ord_chr)
qed

lemma no_nul_to_bytes: "CHR 0x00 \<notin> set s \<Longrightarrow> 0 \<notin> set (to_bytes s)"
  by (auto simp: to_bytes_def ord_0)

lemma dec_name_literal:
  assumes "CHR 0x00 \<notin> set s"
  shows "dec_name (literal s @ r) = Some (s, r)"
  using no_nul_to_bytes [OF assms] by (simp add: dec_name_def literal_def)

interpretation es: byte_codec "\<lambda>(s, ts). CHR 0x00 \<notin> set s \<and> texts_ok ts" enc_system dec_system
  by unfold_locales
    (auto simp: dec_system_def enc_system_def dec_name_literal dec_list_enc_events)

definition dec_events_data :: "byte list \<Rightarrow> ((byte list list \<times> (string \<times> byte list list) list) \<times> byte list) option" where
  "dec_events_data bs = do {
     (ts, bs) \<leftarrow> dec_list dec_block bs;
     (ss, bs) \<leftarrow> dec_list dec_system bs;
     Some ((ts, ss), bs) }"

section \<open>Events\<close>

text \<open>The systems in the order they are met, after those seen already, and the number of a system.\<close>

fun new_systems :: "string list \<Rightarrow> string list \<Rightarrow> string list" where
  "new_systems seen [] = []"
| "new_systems seen (s # ss) = (if s \<in> set seen then new_systems seen ss else s # new_systems (seen @ [s]) ss)"

definition all_systems :: "string list \<Rightarrow> string list \<Rightarrow> string list" where
  "all_systems seen ss = seen @ new_systems seen ss"

fun pos_of :: "string \<Rightarrow> string list \<Rightarrow> nat" where
  "pos_of s [] = 0"
| "pos_of s (x # xs) = (if x = s then 0 else Suc (pos_of s xs))"

lemma pos_of_nth: "distinct xs \<Longrightarrow> i < length xs \<Longrightarrow> pos_of (xs ! i) xs = i"
  by (induction xs arbitrary: i) (auto simp: nth_Cons' nth_mem)

lemma nth_pos_of: "s \<in> set xs \<Longrightarrow> pos_of s xs < length xs \<and> xs ! pos_of s xs = s"
  by (induction xs) auto

lemma pos_of_append: "s \<in> set xs \<Longrightarrow> pos_of s (xs @ ys) = pos_of s xs"
  by (induction xs) auto

lemma pos_of_last: "s \<notin> set xs \<Longrightarrow> pos_of s (xs @ s # ys) = length xs"
  by (induction xs) auto

lemma distinct_all_systems: "distinct seen \<Longrightarrow> distinct (all_systems seen ss)"
proof (induction ss arbitrary: seen)
  case (Cons s ss)
  show ?case
  proof (cases "s \<in> set seen")
    case False
    then show ?thesis using Cons.IH [of "seen @ [s]"] Cons.prems by (simp add: all_systems_def)
  qed (use Cons in \<open>simp add: all_systems_def\<close>)
qed (simp add: all_systems_def)

lemma set_new_systems: "set (new_systems seen ss) = set ss - set seen"
  by (induction seen ss rule: new_systems.induct) auto

lemma length_new_systems: "length (new_systems seen ss) \<le> length ss"
  by (induction seen ss rule: new_systems.induct) auto

lemma values_in_Nil [simp]: "values_in [] m = []"
  by (simp add: values_in_def map_filter_simps)

lemma values_in_Cons:
  "values_in (k # ks) m = (case m k of None \<Rightarrow> values_in ks m | Some x \<Rightarrow> x # values_in ks m)"
  by (simp add: values_in_def map_filter_simps split: option.splits)

lemma values_in_upd: "k \<notin> set ks \<Longrightarrow> values_in ks (m(k \<mapsto> x)) = values_in ks m"
  by (induction ks) (auto simp: values_in_Cons split: option.splits)

definition set_number :: "string list \<Rightarrow> TraceEvent \<Rightarrow> TraceEvent" where
  "set_number all e = e\<lparr>te_system_id := of_nat (Suc (pos_of (te_system e) all))\<rparr>"

definition ids_numbered :: "string list \<Rightarrow> (string \<rightharpoonup> uint) \<Rightarrow> bool" where
  "ids_numbered seen ids \<longleftrightarrow> distinct seen \<and> (\<forall>s. ids s = (if s \<in> set seen then Some (of_nat (Suc (pos_of s seen))) else None))"

lemma number_systems_result:
  assumes "ids_numbered seen ids" "distinct ks"
  shows "\<exists>m'. number_systems ks (of_nat (Suc (length seen))) ids m
                = (of_nat (Suc (length (all_systems seen (map te_system (values_in ks m))))), m')
              \<and> (\<forall>k. m' k = (if k \<in> set ks then map_option (set_number (all_systems seen (map te_system (values_in ks m)))) (m k) else m k))"
  using assms
proof (induction ks arbitrary: seen ids m)
  case Nil
  then show ?case by (simp add: all_systems_def)
next
  case (Cons k ks)
  note d = Cons.prems(2)
  then have d': "distinct ks" by simp
  show ?case
  proof (cases "m k")
    case None
    with Cons.IH [OF Cons.prems(1), of m] d show ?thesis by (auto simp: values_in_Cons)
  next
    case (Some e)
    let ?s = "te_system e" and ?vs = "map te_system (values_in ks m)"
    have v: "values_in ks (m(k \<mapsto> x)) = values_in ks m" for x
      using d by (simp add: values_in_upd)
    show ?thesis
    proof (cases "?s \<in> set seen")
      case True
      then have i: "ids ?s = Some (of_nat (Suc (pos_of ?s seen)))" using Cons.prems(1) by (simp add: ids_numbered_def)
      let ?m = "m(k \<mapsto> e\<lparr>te_system_id := of_nat (Suc (pos_of ?s seen))\<rparr>)" and ?all = "all_systems seen ?vs"
      obtain m' where r: "number_systems ks (of_nat (Suc (length seen))) ids ?m = (of_nat (Suc (length ?all)), m')"
        and m': "\<forall>j. m' j = (if j \<in> set ks then map_option (set_number ?all) (?m j) else ?m j)"
        using Cons.IH [OF Cons.prems(1) d', of ?m] unfolding v by blast
      have all: "all_systems seen (map te_system (values_in (k # ks) m)) = ?all"
        using True Some by (simp add: values_in_Cons all_systems_def)
      have "set_number ?all e = e\<lparr>te_system_id := of_nat (Suc (pos_of ?s seen))\<rparr>"
        using True by (simp add: set_number_def all_systems_def pos_of_append)
      then show ?thesis unfolding all using r m' d Some i by (intro exI [of _ m'] conjI) (simp, auto)
    next
      case False
      then have i: "ids ?s = None" using Cons.prems(1) by (simp add: ids_numbered_def)
      let ?m = "m(k \<mapsto> e\<lparr>te_system_id := of_nat (Suc (length seen))\<rparr>)" and ?all = "all_systems (seen @ [?s]) ?vs"
      have n: "ids_numbered (seen @ [?s]) (ids(?s \<mapsto> of_nat (Suc (length seen))))"
        using Cons.prems(1) False by (auto simp: ids_numbered_def pos_of_append pos_of_last)
      obtain m' where r: "number_systems ks (of_nat (Suc (length (seen @ [?s])))) (ids(?s \<mapsto> of_nat (Suc (length seen)))) ?m
            = (of_nat (Suc (length ?all)), m')"
        and m': "\<forall>j. m' j = (if j \<in> set ks then map_option (set_number ?all) (?m j) else ?m j)"
        using Cons.IH [OF n d', of ?m] unfolding v by blast
      have all: "all_systems seen (map te_system (values_in (k # ks) m)) = ?all"
        using False Some by (simp add: values_in_Cons all_systems_def)
      have "set_number ?all e = e\<lparr>te_system_id := of_nat (Suc (length seen))\<rparr>"
        using False by (simp add: set_number_def all_systems_def pos_of_last)
      then show ?thesis unfolding all using r m' d Some i by (intro exI [of _ m'] conjI) (simp add: add.commute, auto)
    qed
  qed
qed

definition event_bytes :: "trace_env \<Rightarrow> ftrace \<Rightarrow> TraceEvent \<Rightarrow> byte list" where
  "event_bytes env pl ev = to_bytes (concat (event_texts env pl ev))"

definition system_texts :: "trace_env \<Rightarrow> ftrace \<Rightarrow> string \<Rightarrow> byte list list" where
  "system_texts env pl s = map (event_bytes env pl) (filter (\<lambda>e. te_system e = s) (events env pl))"

definition other_systems :: "trace_env \<Rightarrow> ftrace \<Rightarrow> string list" where
  "other_systems env pl = new_systems [''ftrace''] (map te_system (events env pl))"

lemma fold_opt_map: "fold_opt g (map h xs) = fold_opt (\<lambda>x. g (h x)) xs"
  by (induction xs) auto

lemma values_in_map:
  "set ks \<subseteq> A \<Longrightarrow> \<forall>k. m' k = (if k \<in> A then map_option g (m k) else m k) \<Longrightarrow> values_in ks m' = map g (values_in ks m)"
  by (induction ks) (auto simp: values_in_Cons split: option.splits)

lemma event_texts_number:
  "event_texts env (pl\<lparr>event_maps := m\<rparr>) (set_number all e) = event_texts env pl e"
  by (simp add: event_texts_def set_number_def)

lemma emits_write_event:
  assumes "length (event_bytes env pl ev) < 2 ^ 31"
  shows "emits (write_event env (pl\<lparr>event_maps := m\<rparr>) (set_number all ev)) (block 8 (event_bytes env pl ev))"
proof -
  have "event_texts env pl ev \<noteq> []" by (simp add: event_texts_def)
  moreover have "length (concat (event_texts env pl ev)) < 2 ^ 31" using assms by (simp add: event_bytes_def)
  ultimately show ?thesis
    unfolding write_event_def event_texts_number event_bytes_def by (rule emits_texts)
qed

text \<open>The events after numbering, for the systems \<open>all\<close>.\<close>

definition numbered_events :: "trace_env \<Rightarrow> ftrace \<Rightarrow> (uint \<rightharpoonup> TraceEvent) \<Rightarrow> string list \<Rightarrow> bool" where
  "numbered_events env pl m all \<longleftrightarrow>
     events env (pl\<lparr>event_maps := m\<rparr>) = map (set_number all) (events env pl)
     \<and> distinct all \<and> length all < 2 ^ 32 - 1 \<and> (\<forall>e \<in> set (events env pl). te_system e \<in> set all)"

lemma system_number_iff:
  assumes "distinct all" "length all < 2 ^ 32 - 1" "te_system e \<in> set all" "j < length all"
  shows "te_system_id (set_number all e) = of_nat (Suc j) \<longleftrightarrow> te_system e = all ! j"
proof -
  have p: "pos_of (te_system e) all < length all" "all ! pos_of (te_system e) all = te_system e"
    using nth_pos_of [OF assms(3)] by auto
  have "(of_nat (Suc (pos_of (te_system e) all)) :: uint) = of_nat (Suc j) \<longleftrightarrow> pos_of (te_system e) all = j"
    using p(1) assms(2,4) by (subst word_unat_eq_iff, subst unat_of_nat_small, simp, subst unat_of_nat_small, simp_all)
  then show ?thesis
    using p pos_of_nth [OF assms(1,4)] by (auto simp: set_number_def simp del: of_nat_Suc)
qed

lemma numbered_filter:
  assumes "numbered_events env pl m all" "j < length all"
  shows "filter (\<lambda>e. te_system_id e = of_nat (Suc j)) (events env (pl\<lparr>event_maps := m\<rparr>))
         = map (set_number all) (filter (\<lambda>e. te_system e = all ! j) (events env pl))"
proof -
  have "\<forall>e \<in> set (events env pl). te_system_id (set_number all e) = of_nat (Suc j) \<longleftrightarrow> te_system e = all ! j"
    using assms system_number_iff by (auto simp: numbered_events_def simp del: of_nat_Suc)
  then show ?thesis
    using assms(1) by (auto simp: numbered_events_def filter_map comp_def simp del: of_nat_Suc intro!: arg_cong [where f = "map _"] filter_cong)
qed

definition small_texts :: "trace_env \<Rightarrow> ftrace \<Rightarrow> bool" where
  "small_texts env pl \<longleftrightarrow> (\<forall>e \<in> set (events env pl). length (event_bytes env pl e) < 2 ^ 31)"

lemma emits_write_events:
  assumes "numbered_events env pl m all" "j < length all" "small_texts env pl"
  shows "emits (write_events env (pl\<lparr>event_maps := m\<rparr>) (of_nat (Suc j))) (enc_events (system_texts env pl (all ! j)))"
proof -
  let ?es = "filter (\<lambda>e. te_system e = all ! j) (events env pl)" and ?pl = "pl\<lparr>event_maps := m\<rparr>"
  have "emits (fold_opt (write_event env ?pl) (map (set_number all) ?es)) (concat (map (\<lambda>e. block 8 (event_bytes env pl e)) ?es))"
    unfolding fold_opt_map
    using assms(3) by (intro emits_fold) (auto simp: small_texts_def intro: emits_write_event)
  from emits_after_fput [OF this, of "le_bytes 4 (length ?es)"]
  show ?thesis
    by (simp add: write_events_def [abs_def] numbered_filter [OF assms(1,2)] enc_events_def system_texts_def comp_def del: of_nat_Suc)
qed

lemma system_event_numbered:
  assumes n: "numbered_events env pl m all" and j: "j < length all"
    and ex: "e0 \<in> set (events env pl)" "te_system e0 = all ! j"
  shows "\<exists>e. system_event (events env (pl\<lparr>event_maps := m\<rparr>)) (of_nat (Suc j)) = Some e
             \<and> te_system e = all ! j \<and> te_system_id e = of_nat (Suc j)"
proof -
  let ?evs = "events env (pl\<lparr>event_maps := m\<rparr>)" and ?P = "\<lambda>e. te_system_id e = (of_nat (Suc j) :: uint)"
  have "set_number all e0 \<in> set (filter ?P ?evs)"
    using ex by (simp add: numbered_filter [OF n j] del: of_nat_Suc)
  then have "\<exists>x. x \<in> set ?evs \<and> ?P x" by auto
  then obtain e where e: "List.find ?P ?evs = Some e"
    by (cases "List.find ?P ?evs") (auto simp: find_None_iff simp del: of_nat_Suc)
  then have "?P e" "e \<in> set ?evs" by (auto simp: find_Some_iff)
  then have "e \<in> set (filter ?P ?evs)" by simp
  then obtain e1 where "e = set_number all e1" "te_system e1 = all ! j"
    by (auto simp: numbered_filter [OF n j] simp del: of_nat_Suc)
  then have "te_system e = all ! j" by (simp add: set_number_def)
  with \<open>?P e\<close> e show ?thesis by (simp add: system_event_def del: of_nat_Suc)
qed

lemma emits_write_system:
  assumes "numbered_events env pl m all" "j < length all" "small_texts env pl"
    "e0 \<in> set (events env pl)" "te_system e0 = all ! j"
  shows "emits (write_system env (pl\<lparr>event_maps := m\<rparr>) (of_nat (Suc j))) (enc_system (all ! j, system_texts env pl (all ! j)))"
proof -
  obtain e where "system_event (events env (pl\<lparr>event_maps := m\<rparr>)) (of_nat (Suc j)) = Some e"
    "te_system e = all ! j" "te_system_id e = of_nat (Suc j)"
    using system_event_numbered [OF assms(1,2,4,5)] by blast
  then show ?thesis
    using emits_after_fput [OF emits_write_events [OF assms(1-3)], of "literal (all ! j)"]
    by (simp add: write_system_def [abs_def] enc_system_def del: of_nat_Suc)
qed

lemma numbering:
  assumes "distinct (event_order env)" "length (events env pl) < 2 ^ 32 - 2"
  shows "\<exists>m. number_systems (event_order env) 2 [''ftrace'' \<mapsto> 1] (event_maps pl)
               = (of_nat (Suc (Suc (length (other_systems env pl)))), m)
             \<and> numbered_events env pl m (''ftrace'' # other_systems env pl)"
proof -
  let ?all = "all_systems [''ftrace''] (map te_system (events env pl))"
  have n: "ids_numbered [''ftrace''] [''ftrace'' \<mapsto> 1]" by (auto simp: ids_numbered_def)
  obtain m where r: "number_systems (event_order env) (of_nat (Suc (length [''ftrace'']))) [''ftrace'' \<mapsto> 1] (event_maps pl)
      = (of_nat (Suc (length ?all)), m)"
    and m: "\<forall>k. m k = (if k \<in> set (event_order env) then map_option (set_number ?all) (event_maps pl k) else event_maps pl k)"
    using number_systems_result [OF n assms(1), of "event_maps pl"] unfolding events_def by blast
  have a: "?all = ''ftrace'' # other_systems env pl"
    by (simp add: all_systems_def other_systems_def)
  have "events env (pl\<lparr>event_maps := m\<rparr>) = map (set_number ?all) (events env pl)"
    using values_in_map [OF subset_refl m] by (simp add: events_def)
  moreover have "length ?all < 2 ^ 32 - 1"
    using length_new_systems [of "[''ftrace'']" "map te_system (events env pl)"] assms(2) by (simp add: all_systems_def)
  moreover have "\<forall>e \<in> set (events env pl). te_system e \<in> set ?all"
    by (auto simp: all_systems_def set_new_systems)
  ultimately have "numbered_events env pl m ?all"
    using distinct_all_systems [of "[''ftrace'']"] by (simp add: numbered_events_def)
  with r show ?thesis unfolding a by auto
qed

definition events_data :: "trace_env \<Rightarrow> ftrace \<Rightarrow> byte list" where
  "events_data env pl =
     enc_events (system_texts env pl ''ftrace'')
     @ le_bytes 4 (length (other_systems env pl))
     @ concat (map enc_system (map (\<lambda>s. (s, system_texts env pl s)) (other_systems env pl)))"

lemma write_events_data_emits:
  assumes "distinct (event_order env)" "length (events env pl) < 2 ^ 32 - 2" "small_texts env pl" "at_end f"
  shows "\<exists>m f'. write_events_data env pl f = Some (pl\<lparr>event_maps := m\<rparr>, f') \<and> appends f (events_data env pl) f'"
proof -
  let ?os = "other_systems env pl" and ?all = "''ftrace'' # other_systems env pl"
  obtain m where r: "number_systems (event_order env) 2 [''ftrace'' \<mapsto> 1] (event_maps pl) = (of_nat (Suc (Suc (length ?os))), m)"
    and m: "numbered_events env pl m ?all"
    using numbering [OF assms(1,2)] by blast
  let ?pl = "pl\<lparr>event_maps := m\<rparr>" and ?S = "\<lambda>s. enc_system (s, system_texts env pl s)"
  have l: "Suc (length ?os) < 2 ^ 32 - 1" using m by (simp add: numbered_events_def)
  have u: "unat (of_nat (Suc (Suc (length ?os))) :: uint) = length ?os + 2"
    using l by (simp add: unat_of_nat_small del: of_nat_Suc)
  have u2: "unat (of_nat (Suc (Suc (length ?os))) - 2 :: uint) = length ?os"
    using l by (simp add: unat_of_nat_small)
  have ids: "map of_nat [2..<length ?os + 2] = map (\<lambda>j. of_nat (Suc j) :: uint) [1..<Suc (length ?os)]"
  proof -
    have "[2..<length ?os + 2] = map Suc [1..<Suc (length ?os)]"
      unfolding map_Suc_upt by (simp add: numeral_2_eq_2 del: upt_Suc)
    then show ?thesis by (simp only: map_map comp_def)
  qed
  have names: "map ((!) ?all) [1..<Suc (length ?os)] = ?os"
  proof -
    have "[1..<Suc (length ?os)] = map Suc [0..<length ?os]" unfolding map_Suc_upt by simp
    then show ?thesis by (simp only: map_map comp_def nth_Cons_Suc map_nth)
  qed
  have "emits (write_system env ?pl (of_nat (Suc j))) (?S (?all ! j))" if j: "j \<in> set [1..<Suc (length ?os)]" for j
  proof -
    from j have "?all ! j \<in> set ?os" by (auto simp: nth_Cons')
    then obtain e where "e \<in> set (events env pl)" "te_system e = ?all ! j"
      by (auto simp: other_systems_def set_new_systems)
    with j show ?thesis by (intro emits_write_system [OF m _ assms(3)]) auto
  qed
  then have "emits (fold_opt (\<lambda>j. write_system env ?pl (of_nat (Suc j))) [1..<Suc (length ?os)]) (concat (map (\<lambda>j. ?S (?all ! j)) [1..<Suc (length ?os)]))"
    by (intro emits_fold) blast
  then have sys: "emits (fold_opt (write_system env ?pl) (map of_nat [2..<length ?os + 2])) (concat (map ?S ?os))"
    unfolding ids fold_opt_map by (subst (2) names [symmetric]) (simp add: comp_def del: of_nat_Suc)
  have first: "emits (write_events env ?pl 1) (enc_events (system_texts env pl ''ftrace''))"
    using emits_write_events [OF m, of 0] assms(3) by simp
  from emitsD [OF emits_bind [OF first emits_after_fput [OF sys, of "le_bytes 4 (length ?os)"]] assms(4)]
  obtain f1 f' where "write_events env ?pl 1 f = Some f1"
    "fold_opt (write_system env ?pl) (map of_nat [2..<length ?os + 2]) (fput (le_bytes 4 (length ?os)) f1) = Some f'"
    and "appends f (events_data env pl) f'"
    by (auto simp: Option.bind_eq_Some_conv events_data_def comp_def simp del: upt_Suc)
  then have "write_events_data env pl f = Some (?pl, f')"
    by (simp add: write_events_data_def r u u2 del: of_nat_Suc upt_Suc)
  with \<open>appends f (events_data env pl) f'\<close> show ?thesis by blast
qed

lemma events_data_decodes:
  assumes "small_texts env pl" "length (events env pl) < 2 ^ 32 - 2" "\<forall>e \<in> set (events env pl). CHR 0x00 \<notin> set (te_system e)"
  shows "dec_events_data (events_data env pl @ r)
         = Some ((system_texts env pl ''ftrace'', map (\<lambda>s. (s, system_texts env pl s)) (other_systems env pl)), r)"
proof -
  have ok: "texts_ok (system_texts env pl s)" for s
    using assms(1,2) le_less_trans [OF length_filter_le, of "events env pl"]
    by (fastforce simp: texts_ok_def system_texts_def small_texts_def)
  have "length (other_systems env pl) < 2 ^ 32"
    using length_new_systems [of "[''ftrace'']" "map te_system (events env pl)"] assms(2) by (simp add: other_systems_def)
  moreover have "\<forall>s \<in> set (other_systems env pl). CHR 0x00 \<notin> set s"
    using assms(3) by (auto simp: other_systems_def set_new_systems)
  ultimately show ?thesis
    using es.dec_list_enc [of "map (\<lambda>s. (s, system_texts env pl s)) (other_systems env pl)" r] ok
    by (simp add: dec_events_data_def events_data_def dec_list_enc_events)
qed

text \<open>C16. The event section of a trace file is always written and read back: after the events of the system \<^verbatim>\<open>ftrace\<close>
  come the other systems, each once, in the order they are met and with the texts of exactly its events. The
  reader stops where the section ends.\<close>

theorem write_events_data_roundtrip:
  assumes "distinct (event_order env)" "length (events env pl) < 2 ^ 32 - 2" "small_texts env pl"
    "\<forall>e \<in> set (events env pl). CHR 0x00 \<notin> set (te_system e)" "at_end f"
  shows "\<exists>pl' f' bs. write_events_data env pl f = Some (pl', f') \<and> appends f bs f'
           \<and> (\<forall>r. dec_events_data (bs @ r)
                = Some ((system_texts env pl ''ftrace'', map (\<lambda>s. (s, system_texts env pl s)) (other_systems env pl)), r))"
  using write_events_data_emits [OF assms(1-3,5)] events_data_decodes [OF assms(3,2,4)] by blast

section \<open>Examples\<close>

definition file_start :: trace_out where
  "file_start = \<lparr>contents = [], fpos = 0\<rparr>"

definition fmt_string :: "byte list" where
  "fmt_string = [37, 10] @ 0 # replicate 4093 0"

definition trace_host :: trace_env where
  "trace_host = \<lparr>symtable = [], load_modules = [], MODULE_MEMORY = False, fmt_is_array = True,
     read_string = (\<lambda>_. (2, fmt_string)), event_order = [3, 0], field_order = (\<lambda>_. [])\<rparr>"

definition ftrace_event :: TraceEvent where
  "ftrace_event = \<lparr>te_id = 3, te_system_id = 0, te_name = ''f'', te_system = ''ftrace'', te_struct_type = '''', org_print_fmt = ''p'', field_maps = Map.empty\<rparr>"

definition sched_event :: TraceEvent where
  "sched_event = ftrace_event\<lparr>te_id := 0, te_name := ''w'', te_system := ''sched''\<rparr>"

definition inst_array :: trace_array where
  "inst_array = \<lparr>ta_addr = 0, ta_cpus = 1, ta_name = ''inst'', time_start = 0, ta_nr_pages = 1, ta_offset = 0,
     cpu_ring_buffers = [\<lparr>rb_addr = 0, rb_cpu = 0, buffer_pages = [0x100], data_pages = [0x100]\<rparr>]\<rparr>"

definition file_state :: ftrace where
  "file_state = trace_state\<lparr>trace_list := [inst_array\<lparr>ta_name := ''global''\<rparr>, inst_array], event_maps := [3 \<mapsto> ftrace_event, 0 \<mapsto> sched_event]\<rparr>"

lemma file_start_at_end: "at_end file_start"
  by (simp add: at_end_def file_start_def)

lemma file_events: "events trace_host file_state = [ftrace_event, sched_event]"
  by (simp add: events_def values_in_Cons trace_host_def file_state_def)

lemma file_texts:
  "length (event_bytes trace_host file_state ftrace_event) < 2 ^ 31" "length (event_bytes trace_host file_state sched_event) < 2 ^ 31"
proof -
  have d: "digits 10 3 = [digit 3]" "digits 10 0 = [digit 0]" by (simp_all add: digits.simps)
  have c: "common_field_maps file_state = Map.empty" by (simp add: file_state_def trace_state_def plugin.extend_def)
  show "length (event_bytes trace_host file_state ftrace_event) < 2 ^ 31" "length (event_bytes trace_host file_state sched_event) < 2 ^ 31"
    by (simp_all add: event_bytes_def event_texts_def c d trace_host_def ftrace_event_def sched_event_def c_str_def show_int_def show_dec_def nl_def)
qed

lemma write_events_data_roundtrip_witness:
  "\<exists>pl' f' bs. write_events_data trace_host file_state file_start = Some (pl', f') \<and> appends file_start bs f'
     \<and> (\<forall>r. dec_events_data (bs @ r)
          = Some (([event_bytes trace_host file_state ftrace_event], [(''sched'', [event_bytes trace_host file_state sched_event])]), r))"
proof -
  have "distinct (event_order trace_host)" by (simp add: trace_host_def)
  moreover have "small_texts trace_host file_state" using file_texts by (simp add: small_texts_def file_events)
  moreover have "\<forall>e \<in> set (events trace_host file_state). CHR 0x00 \<notin> set (te_system e)"
    by (simp add: file_events ftrace_event_def sched_event_def)
  moreover have "other_systems trace_host file_state = [''sched'']"
    by (simp add: other_systems_def file_events ftrace_event_def sched_event_def)
  moreover have "system_texts trace_host file_state ''ftrace'' = [event_bytes trace_host file_state ftrace_event]"
    "system_texts trace_host file_state ''sched'' = [event_bytes trace_host file_state sched_event]"
    by (simp_all add: system_texts_def file_events, simp_all add: ftrace_event_def sched_event_def)
  ultimately show ?thesis
    using write_events_data_roundtrip [of trace_host file_state file_start] file_start_at_end by (simp add: file_events)
qed

end
