(* ===== verification/TraceBuffers.thy ===== *)
theory TraceBuffers
  imports TraceEvents
begin

text \<open>
  The options and the buffers of a trace file (\<^verbatim>\<open>write_res_data\<close>, \<^verbatim>\<open>write_buffer_data\<close>): the tables of the CPUs name the pages
  at page boundaries, and patching the options leaves everything behind them in place.
\<close>

section \<open>Options and buffers\<close>

subsection \<open>Pages\<close>

definition buffer_page_bytes :: "crash \<Rightarrow> ftrace \<Rightarrow> ulong \<Rightarrow> byte list option" where
  "buffer_page_bytes cr pl bp =
     read_memory cr (read_pointer cr (bp + off (field_offset pl ''buffer_page'' ''page'')) True) (int (PAGESIZE cr)) True"

definition cpu_data :: "crash \<Rightarrow> ftrace \<Rightarrow> ring_buffer_per_cpu \<Rightarrow> byte list" where
  "cpu_data cr pl rb = concat (map (\<lambda>bp. the (buffer_page_bytes cr pl bp)) (data_pages rb))"

definition trace_ok :: "crash \<Rightarrow> ftrace \<Rightarrow> trace_array \<Rightarrow> bool" where
  "trace_ok cr pl ta \<longleftrightarrow>
     ta_cpus ta = int (length (cpu_ring_buffers ta)) \<and> length (cpu_ring_buffers ta) < 2 ^ 27
     \<and> (\<forall>rb \<in> set (cpu_ring_buffers ta). \<forall>bp \<in> set (data_pages rb). buffer_page_bytes cr pl bp \<noteq> None)
     \<and> CHR 0x00 \<notin> set (ta_name ta) \<and> length (ta_name ta) < 2 ^ 31"

lemma PAGESIZE_pos [simp]: "0 < PAGESIZE cr"
  by (simp add: PAGESIZE_def)

lemma length_buffer_page:
  "readmem_ok cr \<Longrightarrow> buffer_page_bytes cr pl bp = Some bs \<Longrightarrow> length bs = PAGESIZE cr"
  using readmem_okD [of cr] by (fastforce simp: buffer_page_bytes_def read_memory_def)

lemma length_cpu_data:
  assumes "readmem_ok cr" "\<forall>bp \<in> set (data_pages rb). buffer_page_bytes cr pl bp \<noteq> None"
  shows "length (cpu_data cr pl rb) = PAGESIZE cr * length (data_pages rb)"
proof -
  have "\<forall>bp \<in> set bps. buffer_page_bytes cr pl bp \<noteq> None \<Longrightarrow>
      length (concat (map (\<lambda>bp. the (buffer_page_bytes cr pl bp)) bps)) = PAGESIZE cr * length bps" for bps
    by (induction bps) (auto dest: length_buffer_page [OF assms(1)])
  with assms(2) show ?thesis by (simp add: cpu_data_def)
qed

lemma emits_buffer_page:
  assumes "readmem_ok cr" "buffer_page_bytes cr pl bp \<noteq> None"
  shows "emits (write_buffer_page cr pl bp) (the (buffer_page_bytes cr pl bp))"
proof -
  obtain bs where bs: "buffer_page_bytes cr pl bp = Some bs" using assms(2) by blast
  with length_buffer_page [OF assms(1) bs] show ?thesis
    using emits_fput [of bs] by (simp add: write_buffer_page_def [abs_def] buffer_page_bytes_def fwrite_def)
qed

lemma fold_opt_cong_set: "(\<And>x s. x \<in> set xs \<Longrightarrow> g x s = h x s) \<Longrightarrow> fold_opt g xs s = fold_opt h xs s"
  by (induction xs arbitrary: s) (auto intro!: bind_option_cong)

lemma fold_opt_nth:
  "fold_opt (\<lambda>i s. nth_opt xs i \<bind> (\<lambda>x. g x s)) [0..<length xs] s = fold_opt g xs s"
proof -
  have "fold_opt (\<lambda>i s. nth_opt xs i \<bind> (\<lambda>x. g x s)) [0..<length xs] s = fold_opt (\<lambda>i. g (xs ! i)) [0..<length xs] s"
    by (rule fold_opt_cong_set) (simp add: nth_opt_def)
  also have "\<dots> = fold_opt g (map ((!) xs) [0..<length xs]) s" by (simp only: fold_opt_map)
  finally show ?thesis by (simp only: map_nth)
qed

lemma emits_cpu_data:
  assumes "readmem_ok cr" "trace_ok cr pl ta"
  shows "emits (fold_opt (cpu_data_step cr pl ta) [0..<nat (ta_cpus ta)]) (concat (map (cpu_data cr pl) (cpu_ring_buffers ta)))"
proof -
  let ?rbs = "cpu_ring_buffers ta"
  have e: "cpu_data_step cr pl ta = (\<lambda>i s. nth_opt ?rbs i \<bind> (\<lambda>rb. fold_opt (write_buffer_page cr pl) (data_pages rb) s))"
    by (intro ext) (simp add: cpu_data_step_def)
  have "nat (ta_cpus ta) = length ?rbs" using assms(2) by (simp add: trace_ok_def)
  then have "fold_opt (cpu_data_step cr pl ta) [0..<nat (ta_cpus ta)] = fold_opt (\<lambda>rb. fold_opt (write_buffer_page cr pl) (data_pages rb)) ?rbs"
    unfolding e by (simp add: fun_eq_iff fold_opt_nth)
  moreover have "emits (fold_opt (write_buffer_page cr pl) (data_pages rb)) (cpu_data cr pl rb)" if "rb \<in> set ?rbs" for rb
    unfolding cpu_data_def using assms that by (intro emits_fold) (auto simp: trace_ok_def intro: emits_buffer_page)
  ultimately show ?thesis by (simp add: emits_fold)
qed

subsection \<open>The table of the CPUs\<close>

fun cpu_table :: "crash \<Rightarrow> nat \<Rightarrow> ring_buffer_per_cpu list \<Rightarrow> (nat \<times> nat) list" where
  "cpu_table cr b [] = []"
| "cpu_table cr b (rb # rbs) = (let n = PAGESIZE cr * length (data_pages rb) in (b, n) # cpu_table cr (b + n) rbs)"

definition enc_pair :: "nat \<times> nat \<Rightarrow> byte list" where
  "enc_pair = (\<lambda>(a, s). le_bytes 8 a @ le_bytes 8 s)"

definition dec_pair :: "byte list \<Rightarrow> ((nat \<times> nat) \<times> byte list) option" where
  "dec_pair bs = do { (a, bs) \<leftarrow> dec_num 8 bs; (s, bs) \<leftarrow> dec_num 8 bs; Some ((a, s), bs) }"

interpretation cp: codec "\<lambda>(a, s). a < 2 ^ 64 \<and> s < 2 ^ 64" enc_pair dec_pair
  by unfold_locales (auto simp: enc_pair_def dec_pair_def dec_num_le_bytes)

definition all_pages_size :: "crash \<Rightarrow> ring_buffer_per_cpu list \<Rightarrow> nat" where
  "all_pages_size cr rbs = sum_list (map (\<lambda>rb. PAGESIZE cr * length (data_pages rb)) rbs)"

lemma length_cpu_table [simp]: "length (cpu_table cr b rbs) = length rbs"
  by (induction rbs arbitrary: b) (simp_all add: Let_def)

lemma length_enc_table: "length (concat (map enc_pair t)) = 16 * length t"
  by (induction t) (auto simp: enc_pair_def split: prod.splits)

lemma cpu_table_bound:
  "x \<in> set (cpu_table cr b rbs) \<Longrightarrow> fst x + snd x \<le> b + all_pages_size cr rbs"
proof (induction rbs arbitrary: b)
  case (Cons rb rbs)
  then show ?case
    by (fastforce simp: Let_def all_pages_size_def add.assoc dest: Cons.IH)
qed simp

lemma cpu_header_steps:
  assumes "at_end f" "b + all_pages_size cr rbs < 2 ^ 64"
  shows "\<exists>f' b'. fold_opt (\<lambda>rb (f, buffer_offset).
             let buffer_size = of_nat (PAGESIZE cr) * of_nat (length (data_pages rb)) in
             Some (fput (le_bytes 8 (unat buffer_size)) (fput (le_bytes 8 (unat buffer_offset)) f), buffer_offset + buffer_size))
           rbs (f, of_nat b :: ulong) = Some (f', b') \<and> appends f (concat (map enc_pair (cpu_table cr b rbs))) f'"
  using assms
proof (induction rbs arbitrary: f b)
  case Nil
  then show ?case using appends_fput [of f "[]"] by (simp add: fput_def)
next
  case (Cons rb rbs)
  let ?n = "PAGESIZE cr * length (data_pages rb)"
  have bound: "b < 2 ^ 64" "?n < 2 ^ 64" "b + ?n + all_pages_size cr rbs < 2 ^ 64"
    using Cons.prems(2) by (simp_all add: all_pages_size_def)
  have n: "of_nat (PAGESIZE cr) * of_nat (length (data_pages rb)) = (of_nat ?n :: ulong)" by simp
  have u: "unat (of_nat ?n :: ulong) = ?n" "unat (of_nat b :: ulong) = b"
    using bound by (simp_all add: unat_of_nat_small del: of_nat_mult)
  let ?f = "fput (le_bytes 8 ?n) (fput (le_bytes 8 b) f)"
  have a: "appends f (enc_pair (b, ?n)) ?f"
    using appends_trans [OF appends_fput [OF Cons.prems(1), of "le_bytes 8 b"] appends_fput [OF appends_at_end [OF appends_fput [OF Cons.prems(1), of "le_bytes 8 b"]], of "le_bytes 8 ?n"]]
    by (simp add: enc_pair_def)
  from Cons.IH [OF appends_at_end [OF a] bound(3)] obtain f' b' where
    i: "fold_opt (\<lambda>rb (f, buffer_offset).
             let buffer_size = of_nat (PAGESIZE cr) * of_nat (length (data_pages rb)) in
             Some (fput (le_bytes 8 (unat buffer_size)) (fput (le_bytes 8 (unat buffer_offset)) f), buffer_offset + buffer_size))
           rbs (?f, of_nat (b + ?n) :: ulong) = Some (f', b')"
    and t: "appends ?f (concat (map enc_pair (cpu_table cr (b + ?n) rbs))) f'" by blast
  show ?case using i appends_trans [OF a t] by (simp add: Let_def n u del: of_nat_mult)
qed

subsection \<open>The buffers of a trace array\<close>

text \<open>The table of the CPUs at \<open>i\<close>, and the pages it names at a page boundary behind it.\<close>

definition section_at :: "crash \<Rightarrow> ftrace \<Rightarrow> byte list \<Rightarrow> nat \<Rightarrow> trace_array \<Rightarrow> bool" where
  "section_at cr pl c i ta \<longleftrightarrow>
     (\<exists>d. i \<le> d \<and> d + all_pages_size cr (cpu_ring_buffers ta) < 2 ^ 63 \<and> d mod PAGESIZE cr = 0
        \<and> bytes_at c i (concat (map enc_pair (cpu_table cr d (cpu_ring_buffers ta))))
        \<and> bytes_at c d (concat (map (cpu_data cr pl) (cpu_ring_buffers ta))))"

definition section_bound :: "crash \<Rightarrow> trace_array \<Rightarrow> nat" where
  "section_bound cr ta = 16 * length (cpu_ring_buffers ta) + PAGESIZE cr + all_pages_size cr (cpu_ring_buffers ta)"

lemma roundup_of_nat:
  assumes "x + PAGESIZE cr < 2 ^ 63"
  shows "\<exists>d. roundup_page (of_nat x) (of_nat (PAGESIZE cr)) = of_nat d \<and> x \<le> d \<and> d < x + PAGESIZE cr \<and> d mod PAGESIZE cr = 0"
proof -
  let ?P = "PAGESIZE cr"
  define d where "d = (x + (?P - 1)) div ?P * ?P"
  have P: "0 < ?P" by simp
  have "x + (?P - 1) < 2 ^ 64" "?P < 2 ^ 64" using assms by auto
  then have w: "unat (of_nat (x + (?P - 1)) :: ulong) = x + (?P - 1)" "unat (of_nat ?P :: ulong) = ?P"
    using unat_of_nat_small [of "x + (?P - 1)", where 'a = 64] unat_of_nat_small [of ?P, where 'a = 64] by simp_all
  have s: "of_nat x + (of_nat ?P - 1) = (of_nat (x + (?P - 1)) :: ulong)"
  proof -
    have "(of_nat ?P :: ulong) = of_nat (Suc (?P - 1))" using P by simp
    then show ?thesis by (simp only: of_nat_add of_nat_Suc) simp
  qed
  have "roundup_page (of_nat x) (of_nat ?P) = of_nat (unat (of_nat (x + (?P - 1)) div of_nat ?P :: ulong)) * of_nat ?P"
    unfolding roundup_page_def s by simp
  also have "\<dots> = of_nat d" unfolding unat_div w d_def by simp
  finally have "roundup_page (of_nat x) (of_nat ?P) = of_nat d" .
  moreover have m: "x + (?P - 1) = d + (x + (?P - 1)) mod ?P" by (simp add: d_def)
  moreover have "(x + (?P - 1)) mod ?P < ?P" using P by simp
  moreover have "d mod ?P = 0" by (simp add: d_def)
  ultimately show ?thesis by (intro exI [of _ d] conjI) linarith+
qed

lemma sint_of_nat_small:
  assumes "n < 2 ^ 63"
  shows "sint (of_nat n :: ulong) = int n"
proof -
  have "int n < int (2 ^ 63)" using assms by (simp only: of_nat_less_iff)
  then have "int n < 2 ^ 63" by (simp only: of_nat_power of_nat_numeral)
  moreover have "- (2 ^ 63) \<le> int n" by (rule order_trans [of _ 0]) simp_all
  ultimately have "signed_take_bit 63 (int n) = int n" by (rule signed_take_bit_int_eq_self [rotated])
  moreover have "sint (word_of_int (int n) :: ulong) = signed_take_bit 63 (int n)" by (subst sint_sbintrunc') simp
  ultimately show ?thesis by (simp only: of_int_of_nat_eq)
qed

lemma fseek_forward:
  assumes "at_end f" "fpos f \<le> d" "d < 2 ^ 63"
  shows "at_end (fseek_set (of_nat d) f)" "contents (fseek_set (of_nat d) f) = contents f" "fpos (fseek_set (of_nat d) f) = d"
proof -
  have u: "unat (of_nat d :: ulong) = d" using assms(3) by (simp add: unat_of_nat_small)
  moreover have "sint (of_nat d :: ulong) = int d" using assms(3) by (rule sint_of_nat_small)
  ultimately show "at_end (fseek_set (of_nat d) f)" "contents (fseek_set (of_nat d) f) = contents f" "fpos (fseek_set (of_nat d) f) = d"
    using assms by (auto simp: fseek_set_def at_end_def)
qed

lemma cpu_header_fold:
  assumes "ta_cpus ta = int (length (cpu_ring_buffers ta))" "at_end f" "b + all_pages_size cr (cpu_ring_buffers ta) < 2 ^ 64"
  shows "\<exists>f' b'. fold_opt (cpu_header_step cr ta) [0..<nat (ta_cpus ta)] (f, of_nat b) = Some (f', b')
           \<and> appends f (concat (map enc_pair (cpu_table cr b (cpu_ring_buffers ta)))) f'"
proof -
  let ?g = "\<lambda>rb (f, buffer_offset :: ulong).
             let buffer_size = of_nat (PAGESIZE cr) * of_nat (length (data_pages rb)) in
             Some (fput (le_bytes 8 (unat buffer_size)) (fput (le_bytes 8 (unat buffer_offset)) f), buffer_offset + buffer_size)"
  have "cpu_header_step cr ta = (\<lambda>i s. nth_opt (cpu_ring_buffers ta) i \<bind> (\<lambda>rb. ?g rb s))"
    by (intro ext) (auto simp: cpu_header_step_def Let_def intro!: bind_option_cong split: prod.splits)
  then have "fold_opt (cpu_header_step cr ta) [0..<nat (ta_cpus ta)] s = fold_opt ?g (cpu_ring_buffers ta) s" for s
    using assms(1) fold_opt_nth [of "cpu_ring_buffers ta" ?g s] by simp
  with cpu_header_steps [OF assms(2,3)] show ?thesis by simp
qed

lemma length_all_data:
  assumes "readmem_ok cr" "trace_ok cr pl ta"
  shows "length (concat (map (cpu_data cr pl) (cpu_ring_buffers ta))) = all_pages_size cr (cpu_ring_buffers ta)"
proof -
  have "map (length \<circ> cpu_data cr pl) (cpu_ring_buffers ta) = map (\<lambda>rb. PAGESIZE cr * length (data_pages rb)) (cpu_ring_buffers ta)"
    using assms(2) length_cpu_data [OF assms(1)] by (auto simp: trace_ok_def)
  then show ?thesis by (simp only: length_concat all_pages_size_def map_map)
qed

lemma write_trace_array_buffers_spec:
  assumes r: "readmem_ok cr" and t: "trace_ok cr pl ta" and e: "at_end f" and b: "fpos f + section_bound cr ta < 2 ^ 63"
  shows "\<exists>f'. write_trace_array_buffers cr pl ta f = Some f' \<and> at_end f' \<and> prefix (contents f) (contents f')
           \<and> fpos f \<le> fpos f' \<and> fpos f' \<le> fpos f + section_bound cr ta \<and> section_at cr pl (contents f') (fpos f) ta"
proof -
  let ?rbs = "cpu_ring_buffers ta" and ?x = "fpos f + 16 * length (cpu_ring_buffers ta)"
  have cpus: "ta_cpus ta = int (length ?rbs)" "length ?rbs < 2 ^ 27" using t by (auto simp: trace_ok_def)
  have x: "ftell f + off (ta_cpus ta * 16) = of_nat ?x"
    using cpus(1) by (simp add: ftell_def)
  obtain d where d: "roundup_page (of_nat ?x) (of_nat (PAGESIZE cr)) = of_nat d" "?x \<le> d" "d < ?x + PAGESIZE cr" "d mod PAGESIZE cr = 0"
    using roundup_of_nat [of ?x cr] b by (auto simp: section_bound_def)
  have d2: "d + all_pages_size cr ?rbs < 2 ^ 63" using d(3) b by (simp add: section_bound_def)
  then have "d + all_pages_size cr ?rbs < 2 ^ 64" by simp
  from cpu_header_fold [OF cpus(1) e this] obtain f1 b' where
    f1: "fold_opt (cpu_header_step cr ta) [0..<nat (ta_cpus ta)] (f, of_nat d) = Some (f1, b')"
    and a1: "appends f (concat (map enc_pair (cpu_table cr d ?rbs))) f1" by blast
  have p1: "fpos f1 = ?x" using a1 by (simp add: appends_def length_enc_table)
  note s = fseek_forward [OF appends_at_end [OF a1], of d, unfolded p1, OF d(2)]
  have d63: "d < 2 ^ 63" using d2 by simp
  obtain f' where f': "fold_opt (cpu_data_step cr pl ta) [0..<nat (ta_cpus ta)] (fseek_set (of_nat d) f1) = Some f'"
    and a2: "appends (fseek_set (of_nat d) f1) (concat (map (cpu_data cr pl) ?rbs)) f'"
    using emitsD [OF emits_cpu_data [OF r t] s(1) [OF d63]] by blast
  have l: "length (concat (map (cpu_data cr pl) ?rbs)) = all_pages_size cr ?rbs" by (rule length_all_data [OF r t])
  have pf: "prefix (contents f1) (contents f')" using a2 s(2) [OF d63] by (simp add: appends_def)
  have "section_at cr pl (contents f') (fpos f) ta"
    unfolding section_at_def
    using a1 a2 pf d d2 s(3) [OF d63] by (intro exI [of _ d]) (auto simp: appends_def intro: bytes_at_prefix)
  moreover have "write_trace_array_buffers cr pl ta f = Some f'"
    unfolding write_trace_array_buffers_def Let_def x d(1) using cpus f1 f' by simp
  ultimately show ?thesis
    using a1 a2 pf d(2,3) s(3) [OF d63] l by (auto simp: appends_def section_bound_def intro: prefix_order.trans)
qed

subsection \<open>All trace arrays\<close>

abbreviation is_global :: "trace_array \<Rightarrow> bool" where
  "is_global ta \<equiv> ta_name ta = ''global''"

definition placed :: "crash \<Rightarrow> ftrace \<Rightarrow> byte list \<Rightarrow> trace_array \<Rightarrow> bool" where
  "placed cr pl c ta \<longleftrightarrow>
     (if is_global ta then section_at cr pl c (unat (ta_offset ta)) ta
      else bytes_at c (unat (ta_offset ta)) (literal ''flyrecord'') \<and> section_at cr pl c (unat (ta_offset ta) + 10) ta)"

definition without_offset :: "trace_array \<Rightarrow> trace_array" where
  "without_offset ta = ta\<lparr>ta_offset := 0\<rparr>"

definition total_bound :: "crash \<Rightarrow> bool \<Rightarrow> trace_array list \<Rightarrow> nat" where
  "total_bound cr glob tas = sum_list (map (\<lambda>ta. if is_global ta = glob then 10 + section_bound cr ta else 0) tas)"

lemma section_at_prefix: "section_at cr pl c i ta \<Longrightarrow> prefix c c' \<Longrightarrow> section_at cr pl c' i ta"
  unfolding section_at_def by (elim exE conjE, intro exI conjI) (assumption | erule (1) bytes_at_prefix)+

lemma placed_prefix: "placed cr pl c ta \<Longrightarrow> prefix c c' \<Longrightarrow> placed cr pl c' ta"
  by (auto simp: placed_def intro: bytes_at_prefix section_at_prefix)

lemma trace_ok_offset [simp]: "trace_ok cr pl (ta\<lparr>ta_offset := x\<rparr>) = trace_ok cr pl ta"
  by (simp add: trace_ok_def)

lemma section_bound_offset [simp]: "section_bound cr (ta\<lparr>ta_offset := x\<rparr>) = section_bound cr ta"
  by (simp add: section_bound_def)

lemma length_flyrecord [simp]: "length (literal ''flyrecord'') = 10"
  by (simp add: literal_def)

lemma buffer_pass_step:
  assumes r: "readmem_ok cr" and t: "trace_ok cr pl ta" and e: "at_end f" and g: "is_global ta = glob"
    and b: "fpos f + (10 + section_bound cr ta) < 2 ^ 63"
  shows "\<exists>f'. write_trace_array_buffers cr pl (ta\<lparr>ta_offset := ftell f\<rparr>) (if glob then f else fput (literal ''flyrecord'') f) = Some f'
           \<and> at_end f' \<and> prefix (contents f) (contents f') \<and> fpos f \<le> fpos f' \<and> fpos f' \<le> fpos f + (10 + section_bound cr ta)
           \<and> unat (ftell f) = fpos f \<and> placed cr pl (contents f') (ta\<lparr>ta_offset := ftell f\<rparr>)"
proof -
  let ?ta = "ta\<lparr>ta_offset := ftell f\<rparr>" and ?bs = "if glob then [] else literal ''flyrecord''"
  have u: "unat (ftell f) = fpos f" using b by (simp add: ftell_def unat_of_nat_small)
  have a: "appends f ?bs (fput ?bs f)" by (rule appends_fput [OF e])
  have p: "fpos (fput ?bs f) = fpos f + length ?bs" using a by (simp add: appends_def)
  have "fpos (fput ?bs f) + section_bound cr ?ta < 2 ^ 63" using b p by auto
  from write_trace_array_buffers_spec [OF r _ appends_at_end [OF a] this, of pl] t obtain f' where
    f': "write_trace_array_buffers cr pl ?ta (fput ?bs f) = Some f'" "at_end f'" "prefix (contents (fput ?bs f)) (contents f')"
      "fpos (fput ?bs f) \<le> fpos f'" "fpos f' \<le> fpos (fput ?bs f) + section_bound cr ta"
      "section_at cr pl (contents f') (fpos (fput ?bs f)) ?ta" by auto
  have "(if glob then f else fput (literal ''flyrecord'') f) = fput ?bs f" by (simp add: fput_def)
  moreover have "placed cr pl (contents f') ?ta"
    using a f' p u g by (auto simp: placed_def appends_def intro: bytes_at_prefix)
  moreover have "prefix (contents f) (contents f')" using a f'(3) by (auto simp: appends_def intro: prefix_order.trans)
  moreover have "length ?bs \<le> 10" by simp
  then have "fpos f \<le> fpos f'" "fpos f' \<le> fpos f + (10 + section_bound cr ta)" using f'(4,5) p by linarith+
  ultimately show ?thesis using f'(1,2) u by (intro exI [of _ f'] conjI) simp_all
qed

lemma buffer_pass_spec:
  assumes "readmem_ok cr" "\<forall>ta \<in> set tas. trace_ok cr pl ta" "at_end f" "fpos f + total_bound cr glob tas < 2 ^ 63"
  shows "\<exists>tas' f'. buffer_pass cr pl glob tas f = Some (tas', f') \<and> at_end f' \<and> prefix (contents f) (contents f')
           \<and> fpos f \<le> fpos f' \<and> fpos f' \<le> fpos f + total_bound cr glob tas
           \<and> map without_offset tas' = map without_offset tas
           \<and> filter (\<lambda>ta. is_global ta \<noteq> glob) tas' = filter (\<lambda>ta. is_global ta \<noteq> glob) tas
           \<and> (\<forall>ta \<in> set tas'. is_global ta = glob \<longrightarrow> fpos f \<le> unat (ta_offset ta) \<and> placed cr pl (contents f') ta)
           \<and> (case List.find (\<lambda>ta. is_global ta = glob) tas' of None \<Rightarrow> True | Some ta \<Rightarrow> unat (ta_offset ta) = fpos f)"
  using assms
proof (induction tas arbitrary: f)
  case Nil
  then show ?case by (simp add: total_bound_def)
next
  case (Cons ta tas)
  show ?case
  proof (cases "is_global ta = glob")
    case False
    have "fpos f + total_bound cr glob tas < 2 ^ 63" using Cons.prems(4) False by (simp add: total_bound_def)
    from Cons.IH [OF Cons.prems(1) _ Cons.prems(3) this] Cons.prems(2) obtain tas' f' where
      "buffer_pass cr pl glob tas f = Some (tas', f')" "at_end f'" "prefix (contents f) (contents f')"
           "fpos f \<le> fpos f'" "fpos f' \<le> fpos f + total_bound cr glob tas"
           "map without_offset tas' = map without_offset tas"
           "filter (\<lambda>ta. is_global ta \<noteq> glob) tas' = filter (\<lambda>ta. is_global ta \<noteq> glob) tas"
           "\<forall>ta \<in> set tas'. is_global ta = glob \<longrightarrow> fpos f \<le> unat (ta_offset ta) \<and> placed cr pl (contents f') ta"
           "case List.find (\<lambda>ta. is_global ta = glob) tas' of None \<Rightarrow> True | Some ta \<Rightarrow> unat (ta_offset ta) = fpos f"
      by auto
    with False show ?thesis
      by (intro exI [of _ "ta # tas'"] exI [of _ f']) (auto simp: total_bound_def)
  next
    case True
    let ?ta = "ta\<lparr>ta_offset := ftell f\<rparr>"
    have b: "fpos f + (10 + section_bound cr ta) + total_bound cr glob tas < 2 ^ 63"
      using Cons.prems(4) True by (simp add: total_bound_def)
    then have "fpos f + (10 + section_bound cr ta) < 2 ^ 63" by simp
    from buffer_pass_step [OF Cons.prems(1) _ Cons.prems(3) True this, of pl] Cons.prems(2) obtain f1 where
      s: "write_trace_array_buffers cr pl ?ta (if glob then f else fput (literal ''flyrecord'') f) = Some f1"
      "at_end f1" "prefix (contents f) (contents f1)" "fpos f \<le> fpos f1" "fpos f1 \<le> fpos f + (10 + section_bound cr ta)"
      "unat (ftell f) = fpos f" "placed cr pl (contents f1) ?ta" by auto
    have "fpos f1 + total_bound cr glob tas < 2 ^ 63" using b s(5) by simp
    from Cons.IH [OF Cons.prems(1) _ s(2) this] Cons.prems(2) obtain tas' f' where
      i: "buffer_pass cr pl glob tas f1 = Some (tas', f')" "at_end f'" "prefix (contents f1) (contents f')"
           "fpos f1 \<le> fpos f'" "fpos f' \<le> fpos f1 + total_bound cr glob tas"
           "map without_offset tas' = map without_offset tas"
           "filter (\<lambda>ta. is_global ta \<noteq> glob) tas' = filter (\<lambda>ta. is_global ta \<noteq> glob) tas"
           "\<forall>ta \<in> set tas'. is_global ta = glob \<longrightarrow> fpos f1 \<le> unat (ta_offset ta) \<and> placed cr pl (contents f') ta"
      by auto
    have "buffer_pass cr pl glob (ta # tas) f = Some (?ta # tas', f')"
      using True s(1) i(1) by simp
    moreover have "prefix (contents f) (contents f')" using s(3) i(3) by (rule prefix_order.trans)
    moreover have "placed cr pl (contents f') ?ta" using s(7) i(3) by (rule placed_prefix)
    moreover have "map without_offset (?ta # tas') = map without_offset (ta # tas)"
      using i(6) by (simp add: without_offset_def)
    ultimately show ?thesis
      using True s i by (intro exI [of _ "?ta # tas'"] exI [of _ f']) (auto simp: total_bound_def)
  qed
qed

subsection \<open>The options\<close>

definition enc_option :: "string \<times> nat \<Rightarrow> byte list" where
  "enc_option = (\<lambda>(name, p). le_bytes 4 (length name + 1 + 8) @ le_bytes 8 p @ literal name)"

definition dec_option :: "byte list \<Rightarrow> ((string \<times> nat) \<times> byte list) option" where
  "dec_option bs = do {
     (n, bs) \<leftarrow> dec_num 4 bs; (p, bs) \<leftarrow> dec_num 8 bs; (name, bs) \<leftarrow> dec_name bs;
     if n = length name + 9 then Some ((name, p), bs) else None }"

interpretation eo: codec "\<lambda>(name, p). CHR 0x00 \<notin> set name \<and> length name < 2 ^ 31 \<and> p < 2 ^ 64" enc_option dec_option
  by unfold_locales (auto simp: enc_option_def dec_option_def dec_num_le_bytes dec_name_literal)

partial_function (option) dec_options :: "byte list \<Rightarrow> ((string \<times> nat) list \<times> byte list) option" where
  "dec_options bs = do {
     (tag, bs) \<leftarrow> dec_num 2 bs;
     if tag = TRACECMD_OPTION_DONE then Some ([], bs)
     else if tag = TRACECMD_OPTION_BUFFER then do { (x, bs) \<leftarrow> dec_option bs; (xs, bs) \<leftarrow> dec_options bs; Some (x # xs, bs) }
     else None }"

definition dec_literal :: "string \<Rightarrow> byte list \<Rightarrow> byte list option" where
  "dec_literal s bs = (let n = length (literal s) in if take n bs = literal s then Some (drop n bs) else None)"

definition dec_res_data :: "byte list \<Rightarrow> ((nat \<times> (string \<times> nat) list) \<times> byte list) option" where
  "dec_res_data bs = do {
     (n, bs) \<leftarrow> dec_num 4 bs;
     bs \<leftarrow> dec_literal ''options  '' bs;
     (xs, bs) \<leftarrow> dec_options bs;
     bs \<leftarrow> dec_literal ''flyrecord'' bs;
     Some ((n, xs), bs) }"

definition instances :: "trace_array list \<Rightarrow> (string \<times> nat) list" where
  "instances tas = map (\<lambda>ta. (ta_name ta, unat (ta_offset ta))) (filter (\<lambda>ta. \<not> is_global ta) tas)"

definition enc_options :: "(string \<times> nat) list \<Rightarrow> byte list" where
  "enc_options xs = concat (map (\<lambda>x. le_bytes 2 TRACECMD_OPTION_BUFFER @ enc_option x) xs)"

definition res_bytes :: "ftrace \<Rightarrow> byte list" where
  "res_bytes pl = le_bytes 4 (unat (word_of_int (nr_cpu_ids pl) :: uint)) @ literal ''options  '' @ enc_options (instances (trace_list pl))
     @ le_bytes 2 TRACECMD_OPTION_DONE @ literal ''flyrecord''"

lemma fput_fput: "fput bs (fput as f) = fput (as @ bs) f"
  by (cases "as = []"; cases "bs = []"; cases "fpos f \<le> length (contents f)")
    (simp_all add: fput_def add.commute add.left_commute min_def)

lemma fput_Nil [simp]: "fput [] f = f"
  by (simp add: fput_def)

lemma fold_write_option: "fold write_option tas f = fput (enc_options (instances tas)) f"
proof (induction tas arbitrary: f)
  case (Cons ta tas)
  then show ?case
    by (simp add: write_option_def instances_def enc_options_def enc_option_def literal_def Let_def fput_fput)
qed (simp add: instances_def enc_options_def)

lemma write_res_data_fput: "write_res_data pl f = fput (res_bytes pl) f"
  by (simp add: write_res_data_def Let_def fold_write_option fput_fput res_bytes_def)

lemma dec_options_enc:
  assumes "\<forall>x \<in> set xs. case x of (name, p) \<Rightarrow> CHR 0x00 \<notin> set name \<and> length name < 2 ^ 31 \<and> p < 2 ^ 64"
  shows "dec_options (enc_options xs @ le_bytes 2 TRACECMD_OPTION_DONE @ r) = Some (xs, r)"
  using assms
proof (induction xs)
  case Nil
  then show ?case
    by (simp add: enc_options_def dec_options.simps [of "le_bytes 2 _ @ _"] dec_num_le_bytes TRACECMD_OPTION_DONE_def)
next
  case (Cons x xs)
  have t: "dec_num 2 (le_bytes 2 TRACECMD_OPTION_BUFFER @ r') = Some (TRACECMD_OPTION_BUFFER, r')" for r'
    by (simp add: dec_num_le_bytes TRACECMD_OPTION_BUFFER_def)
  have ne: "TRACECMD_OPTION_BUFFER \<noteq> TRACECMD_OPTION_DONE"
    by (simp add: TRACECMD_OPTION_BUFFER_def TRACECMD_OPTION_DONE_def)
  from Cons show ?case
    by (simp add: enc_options_def dec_options.simps [of "le_bytes 2 _ @ _"] t ne eo.dec_enc)
qed

lemma dec_literal_literal: "dec_literal s (literal s @ r) = Some r"
  by (simp add: dec_literal_def)

lemma dec_res_bytes:
  assumes "\<forall>ta \<in> set (trace_list pl). CHR 0x00 \<notin> set (ta_name ta) \<and> length (ta_name ta) < 2 ^ 31"
  shows "dec_res_data (res_bytes pl @ r) = Some ((unat (word_of_int (nr_cpu_ids pl) :: uint), instances (trace_list pl)), r)"
proof -
  have "\<forall>x \<in> set (instances (trace_list pl)). case x of (name, p) \<Rightarrow> CHR 0x00 \<notin> set name \<and> length name < 2 ^ 31 \<and> p < 2 ^ 64"
    using assms unat_less_power [where 'a = 64] by (auto simp: instances_def)
  moreover have "unat (word_of_int (nr_cpu_ids pl) :: uint) < 256 ^ 4"
    using unat_less_power [of "word_of_int (nr_cpu_ids pl) :: uint"] by simp
  ultimately show ?thesis
    by (simp add: dec_res_data_def res_bytes_def dec_num_le_bytes dec_literal_literal dec_options_enc)
qed

subsection \<open>Patching the options\<close>

lemma length_res_bytes:
  assumes "map without_offset (trace_list pl') = map without_offset (trace_list pl)"
  shows "length (res_bytes pl') = length (res_bytes pl)"
proof -
  have l: "length (enc_options (instances tas)) = sum_list (map (\<lambda>ta. if is_global ta then 0 else 15 + length (ta_name ta)) tas)" for tas
    by (induction tas) (simp_all add: enc_options_def instances_def enc_option_def literal_def)
  have "map ta_name (trace_list pl') = map ta_name (trace_list pl)"
    using arg_cong [OF assms, of "map ta_name"] by (simp add: comp_def without_offset_def)
  then have "map (\<lambda>n. if n = ''global'' then 0 else 15 + length n) (map ta_name (trace_list pl'))
      = map (\<lambda>n. if n = ''global'' then 0 else 15 + length n) (map ta_name (trace_list pl))" by simp
  then show ?thesis by (simp add: res_bytes_def l comp_def)
qed

lemma fput_inside:
  assumes "bs \<noteq> []" "fpos f + length bs \<le> length (contents f)"
  shows "contents (fput bs f) = take (fpos f) (contents f) @ bs @ drop (fpos f + length bs) (contents f)"
  using assms by (simp add: fput_def)

lemma bytes_at_patched:
  assumes "p + n \<le> length c" "length bs = n" "p + n \<le> i"
  shows "bytes_at (take p c @ bs @ drop (p + n) c) i xs = bytes_at c i xs"
proof -
  have "length (take p c @ bs) = p + n" using assms by simp
  then have "drop i ((take p c @ bs) @ drop (p + n) c) = drop i c" using assms(3) by (simp del: append_assoc)
  then show ?thesis by (simp add: bytes_at_def)
qed

lemma placed_patched:
  assumes "p + n \<le> length c" "length bs = n" "p + n \<le> unat (ta_offset ta)" "placed cr pl c ta"
  shows "placed cr pl (take p c @ bs @ drop (p + n) c) ta"
proof -
  have "section_at cr pl (take p c @ bs @ drop (p + n) c) i ta" if "p + n \<le> i" "section_at cr pl c i ta" for i
    using that bytes_at_patched [OF assms(1,2)] unfolding section_at_def by (meson le_trans)
  with assms(3,4) bytes_at_patched [OF assms(1-3)] show ?thesis by (auto simp: placed_def)
qed

text \<open>What a reader finds at the place of a trace array: each CPU's entry of the table names its pages.\<close>

definition reads_buffers :: "crash \<Rightarrow> ftrace \<Rightarrow> byte list \<Rightarrow> nat \<Rightarrow> trace_array \<Rightarrow> bool" where
  "reads_buffers cr pl c i ta \<longleftrightarrow>
     (\<exists>table r. dec_n dec_pair (length (cpu_ring_buffers ta)) (drop i c) = Some (table, r)
        \<and> list_all2 (\<lambda>(a, s) rb. a mod PAGESIZE cr = 0 \<and> s = PAGESIZE cr * length (data_pages rb) \<and> take s (drop a c) = cpu_data cr pl rb)
            table (cpu_ring_buffers ta))"

definition reads_trace :: "crash \<Rightarrow> ftrace \<Rightarrow> byte list \<Rightarrow> trace_array \<Rightarrow> bool" where
  "reads_trace cr pl c ta \<longleftrightarrow>
     (let i = unat (ta_offset ta) in
      if is_global ta then reads_buffers cr pl c i ta
      else dec_literal ''flyrecord'' (drop i c) = Some (drop (i + 10) c) \<and> reads_buffers cr pl c (i + 10) ta)"

lemma bytes_at_drop: "bytes_at c i bs \<Longrightarrow> drop i c = bs @ drop (i + length bs) c"
  unfolding bytes_at_def by (metis add.commute append_take_drop_id drop_drop)

lemma cpu_table_reads:
  assumes "readmem_ok cr" "\<forall>rb \<in> set rbs. \<forall>bp \<in> set (data_pages rb). buffer_page_bytes cr pl bp \<noteq> None"
    "d mod PAGESIZE cr = 0" "bytes_at c d (concat (map (cpu_data cr pl) rbs))"
  shows "list_all2 (\<lambda>(a, s) rb. a mod PAGESIZE cr = 0 \<and> s = PAGESIZE cr * length (data_pages rb) \<and> take s (drop a c) = cpu_data cr pl rb)
            (cpu_table cr d rbs) rbs"
  using assms
proof (induction rbs arbitrary: d)
  case (Cons rb rbs)
  let ?n = "PAGESIZE cr * length (data_pages rb)"
  have l: "length (cpu_data cr pl rb) = ?n" using length_cpu_data [OF Cons.prems(1)] Cons.prems(2) by simp
  have "bytes_at c d (cpu_data cr pl rb)" "bytes_at c (d + ?n) (concat (map (cpu_data cr pl) rbs))"
    using Cons.prems(4) l by (simp_all add: bytes_at_append)
  moreover have "(d + ?n) mod PAGESIZE cr = 0" using Cons.prems(3) by simp
  ultimately show ?case
    using Cons.IH [of "d + ?n"] Cons.prems l by (simp add: Let_def bytes_at_def)
qed simp

lemma section_at_reads:
  assumes "readmem_ok cr" "trace_ok cr pl ta" "section_at cr pl c i ta"
  shows "reads_buffers cr pl c i ta"
proof -
  let ?rbs = "cpu_ring_buffers ta"
  from assms(3) obtain d where d: "d + all_pages_size cr ?rbs < 2 ^ 63" "d mod PAGESIZE cr = 0"
    "bytes_at c i (concat (map enc_pair (cpu_table cr d ?rbs)))" "bytes_at c d (concat (map (cpu_data cr pl) ?rbs))"
    by (auto simp: section_at_def)
  have "\<forall>x \<in> set (cpu_table cr d ?rbs). case x of (a, s) \<Rightarrow> a < 2 ^ 64 \<and> s < 2 ^ 64"
    using d(1) by (fastforce dest: cpu_table_bound)
  from cp.dec_n_enc [OF this] have "\<exists>r. dec_n dec_pair (length ?rbs) (drop i c) = Some (cpu_table cr d ?rbs, r)"
    using bytes_at_drop [OF d(3)] by simp
  then show ?thesis
    using cpu_table_reads [OF assms(1) _ d(2,4)] assms(2) by (auto simp: reads_buffers_def trace_ok_def)
qed

lemma placed_reads:
  assumes "readmem_ok cr" "trace_ok cr pl ta" "placed cr pl c ta"
  shows "reads_trace cr pl c ta"
proof (cases "is_global ta")
  case False
  with assms(3) have b: "bytes_at c (unat (ta_offset ta)) (literal ''flyrecord'')" by (simp add: placed_def)
  then show ?thesis
    using False assms section_at_reads [OF assms(1,2)] dec_literal_literal bytes_at_drop [OF b]
    by (simp add: placed_def reads_trace_def)
qed (use assms section_at_reads [OF assms(1,2)] in \<open>simp add: placed_def reads_trace_def\<close>)

lemma without_offset_total: "map without_offset tas' = map without_offset tas \<Longrightarrow> total_bound cr g tas' = total_bound cr g tas"
proof -
  let ?w = "\<lambda>ta. if is_global ta = g then 10 + section_bound cr ta else 0"
  assume "map without_offset tas' = map without_offset tas"
  then have "map ?w (map without_offset tas') = map ?w (map without_offset tas)" by simp
  then show ?thesis by (simp add: total_bound_def comp_def without_offset_def cong: if_cong)
qed

lemma without_offset_ok:
  assumes "map without_offset tas' = map without_offset tas" "\<forall>ta \<in> set tas. trace_ok cr pl ta"
  shows "\<forall>ta \<in> set tas'. trace_ok cr pl ta"
proof -
  have "\<forall>ta \<in> set (map without_offset tas'). trace_ok cr pl ta"
    unfolding assms(1) using assms(2) by (auto simp: without_offset_def)
  then show ?thesis by (simp add: without_offset_def)
qed

definition total_size :: "crash \<Rightarrow> ftrace \<Rightarrow> nat" where
  "total_size cr pl = length (res_bytes pl) + total_bound cr True (trace_list pl) + total_bound cr False (trace_list pl)"

lemma write_buffer_data_placed:
  assumes r: "readmem_ok cr" and t: "\<forall>ta \<in> set (trace_list pl). trace_ok cr pl ta" and e: "at_end f"
    and b: "fpos f + total_bound cr True (trace_list pl) + total_bound cr False (trace_list pl) < 2 ^ 63"
  shows "\<exists>tas f'. write_buffer_data cr pl f = Some (pl\<lparr>trace_list := tas\<rparr>, f') \<and> prefix (contents f) (contents f')
           \<and> map without_offset tas = map without_offset (trace_list pl)
           \<and> (\<forall>ta \<in> set tas. fpos f \<le> unat (ta_offset ta) \<and> placed cr pl (contents f') ta)
           \<and> (case List.find is_global tas of None \<Rightarrow> True | Some ta \<Rightarrow> unat (ta_offset ta) = fpos f)"
proof -
  have "fpos f + total_bound cr True (trace_list pl) < 2 ^ 63" using b by simp
  from buffer_pass_spec [OF r t e this] obtain tas1 f1 where
    p1: "buffer_pass cr pl True (trace_list pl) f = Some (tas1, f1)" "at_end f1" "prefix (contents f) (contents f1)"
      "fpos f \<le> fpos f1" "fpos f1 \<le> fpos f + total_bound cr True (trace_list pl)"
      "map without_offset tas1 = map without_offset (trace_list pl)"
      "\<forall>ta \<in> set tas1. is_global ta = True \<longrightarrow> fpos f \<le> unat (ta_offset ta) \<and> placed cr pl (contents f1) ta"
      "case List.find (\<lambda>ta. is_global ta = True) tas1 of None \<Rightarrow> True | Some ta \<Rightarrow> unat (ta_offset ta) = fpos f" by blast
  have "fpos f1 + total_bound cr False tas1 < 2 ^ 63"
    using b p1(5) without_offset_total [OF p1(6), of cr False] by simp
  from buffer_pass_spec [OF r without_offset_ok [OF p1(6) t] p1(2) this] obtain tas f' where
    p2: "buffer_pass cr pl False tas1 f1 = Some (tas, f')" "at_end f'" "prefix (contents f1) (contents f')"
      "map without_offset tas = map without_offset tas1"
      "filter (\<lambda>ta. is_global ta \<noteq> False) tas = filter (\<lambda>ta. is_global ta \<noteq> False) tas1"
      "\<forall>ta \<in> set tas. is_global ta = False \<longrightarrow> fpos f1 \<le> unat (ta_offset ta) \<and> placed cr pl (contents f') ta" by blast
  have g: "filter is_global tas = filter is_global tas1" using p2(5) by simp
  have "fpos f \<le> unat (ta_offset ta) \<and> placed cr pl (contents f') ta" if ta: "ta \<in> set tas" for ta
  proof (cases "is_global ta")
    case True
    then have "ta \<in> set (filter is_global tas)" using ta by simp
    then have "ta \<in> set tas1" unfolding g by simp
    with True p1(7) p2(3) show ?thesis by (auto intro: placed_prefix)
  qed (use ta p2(6) p1(4) in auto)
  moreover have "List.find is_global tas = List.find is_global tas1"
  proof -
    have h: "List.find P xs = (case filter P xs of [] \<Rightarrow> None | x # _ \<Rightarrow> Some x)" for P and xs :: "trace_array list"
      by (induction xs) auto
    show ?thesis unfolding h g ..
  qed
  moreover have "write_buffer_data cr pl f = Some (pl\<lparr>trace_list := tas\<rparr>, f')"
    using p1(1) p2(1) by (simp add: write_buffer_data_def)
  ultimately show ?thesis
    using p1(3,6,8) p2(3,4) by (intro exI [of _ tas] exI [of _ f']) (auto intro: prefix_order.trans)
qed

lemma write_resources_returns:
  assumes "readmem_ok cr" "\<forall>ta \<in> set (trace_list pl). trace_ok cr pl ta" "at_end f" "fpos f + total_size cr pl < 2 ^ 63"
  shows "\<exists>tas f' r. write_resources cr pl f = Some (pl\<lparr>trace_list := tas\<rparr>, f')
           \<and> map without_offset tas = map without_offset (trace_list pl)
           \<and> prefix (contents f) (contents f')
           \<and> dec_res_data (drop (fpos f) (contents f')) = Some ((unat (word_of_int (nr_cpu_ids pl) :: uint), instances tas), r)
           \<and> (\<forall>ta \<in> set tas. reads_trace cr pl (contents f') ta)
           \<and> (case List.find is_global tas of None \<Rightarrow> True | Some ta \<Rightarrow> unat (ta_offset ta) = fpos f + length (res_bytes pl))"
proof -
  let ?R = "res_bytes pl" and ?p = "fpos f"
  let ?f = "fput ?R f" and ?n = "length (res_bytes pl)"
  have a: "appends f ?R ?f" by (rule appends_fput [OF assms(3)])
  have ne: "res_bytes q \<noteq> []" for q by (simp add: res_bytes_def literal_def)
  have p: "fpos ?f = ?p + ?n" using a by (simp add: appends_def)
  have len: "?p + ?n \<le> length (contents ?f)"
    using assms(3) ne [of pl] by (simp add: fput_def at_end_def)
  have "fpos ?f + total_bound cr True (trace_list pl) + total_bound cr False (trace_list pl) < 2 ^ 63"
    using assms(4) p by (simp add: total_size_def)
  from write_buffer_data_placed [OF assms(1,2) appends_at_end [OF a] this] obtain tas f1 where
    w: "write_buffer_data cr pl ?f = Some (pl\<lparr>trace_list := tas\<rparr>, f1)" "prefix (contents ?f) (contents f1)"
      "map without_offset tas = map without_offset (trace_list pl)"
      "\<forall>ta \<in> set tas. ?p + ?n \<le> unat (ta_offset ta) \<and> placed cr pl (contents f1) ta"
      "case List.find is_global tas of None \<Rightarrow> True | Some ta \<Rightarrow> unat (ta_offset ta) = ?p + ?n"
    unfolding p by blast
  let ?pl = "pl\<lparr>trace_list := tas\<rparr>" and ?c = "contents f1"
  have n: "length (res_bytes ?pl) = ?n" using w(3) by (intro length_res_bytes) simp
  have len1: "?p + ?n \<le> length ?c" using len prefix_length_le [OF w(2)] by simp
  have p63: "?p < 2 ^ 63" using assms(4) by simp
  have sk: "fseek_set (ftell f) f1 = f1\<lparr>fpos := ?p\<rparr>"
    using p63 by (simp add: fseek_set_def ftell_def sint_of_nat_small unat_of_nat_small)
  let ?f' = "fput (res_bytes ?pl) (f1\<lparr>fpos := ?p\<rparr>)"
  have c: "contents ?f' = take ?p ?c @ res_bytes ?pl @ drop (?p + ?n) ?c"
    using fput_inside [OF ne [of ?pl], of "f1\<lparr>fpos := ?p\<rparr>"] n len1 by simp
  have "write_resources cr pl f = Some (?pl, ?f')"
    by (simp add: write_resources_def write_res_data_fput w(1) sk)
  moreover have "prefix (contents f) (contents ?f')"
  proof -
    have "prefix (contents f) ?c" using a w(2) by (auto simp: appends_def intro: prefix_order.trans)
    then have "prefix (contents f) (take ?p ?c)" using assms(3) by (auto simp: prefix_def at_end_def)
    then show ?thesis unfolding c by (auto simp: prefix_def)
  qed
  moreover have "dec_res_data (drop ?p (contents ?f')) = Some ((unat (word_of_int (nr_cpu_ids pl) :: uint), instances tas), drop (?p + ?n) ?c)"
  proof -
    have "drop ?p (contents ?f') = res_bytes ?pl @ drop (?p + ?n) ?c" unfolding c using len1 by simp
    moreover have "\<forall>ta \<in> set (trace_list ?pl). CHR 0x00 \<notin> set (ta_name ta) \<and> length (ta_name ta) < 2 ^ 31"
      using without_offset_ok [OF w(3) assms(2)] by (simp add: trace_ok_def)
    ultimately show ?thesis using dec_res_bytes [of ?pl] by simp
  qed
  moreover have "\<forall>ta \<in> set tas. reads_trace cr pl (contents ?f') ta"
    unfolding c using w(4) n placed_reads [OF assms(1)] without_offset_ok [OF w(3) assms(2)] placed_patched [OF len1 n]
    by blast
  ultimately show ?thesis using w(3,5) by blast
qed

text \<open>C15. The second half of a trace file: whenever the pages of the ring buffers can be read, the writer returns,
  and the file it leaves is read back. The options, written before the buffers and patched afterwards, name
  every trace array but the global one with its final place; there stand the mark and the table of its CPUs,
  and each entry of the table names, at a page boundary, exactly the pages of that CPU's ring buffer in order.
  The buffers of the global trace array follow the options. What was in the file before is kept.\<close>

theorem write_resources_layout:
  assumes "readmem_ok cr" "\<forall>ta \<in> set (trace_list pl). trace_ok cr pl ta" "at_end f" "fpos f + total_size cr pl < 2 ^ 63"
  shows "\<exists>tas f' r. write_resources cr pl f = Some (pl\<lparr>trace_list := tas\<rparr>, f')
           \<and> map without_offset tas = map without_offset (trace_list pl)
           \<and> prefix (contents f) (contents f')
           \<and> dec_res_data (drop (fpos f) (contents f')) = Some ((unat (word_of_int (nr_cpu_ids pl) :: uint), instances tas), r)
           \<and> (\<forall>ta \<in> set tas. reads_trace cr pl (contents f') ta)
           \<and> (case List.find is_global tas of None \<Rightarrow> True | Some ta \<Rightarrow> unat (ta_offset ta) = fpos f + length (res_bytes pl))"
  using write_resources_returns [OF assms] .

section \<open>An example\<close>

definition file_session :: crash where
  "file_session = empty_session\<lparr>readmem := \<lambda>_ _ n. if 0 < n then Some (replicate (nat n) 1) else None\<rparr>"

lemma write_resources_layout_witness:
  "\<exists>tas f' r. write_resources file_session file_state file_start = Some (file_state\<lparr>trace_list := tas\<rparr>, f')
     \<and> dec_res_data (drop (fpos file_start) (contents f')) = Some ((1, instances tas), r)
     \<and> (\<forall>ta \<in> set tas. reads_trace file_session file_state (contents f') ta)"
proof -
  have "readmem_ok file_session" by (auto simp: readmem_ok_def file_session_def split: if_splits)
  moreover have "\<forall>ta \<in> set (trace_list file_state). trace_ok file_session file_state ta"
    by (simp add: file_state_def inst_array_def trace_ok_def buffer_page_bytes_def read_memory_def file_session_def PAGESIZE_def empty_session_def)
  moreover have "nr_cpu_ids file_state = 1" by (simp add: file_state_def trace_state_def plugin.extend_def)
  moreover have "fpos file_start + total_size file_session file_state < 2 ^ 63"
    by (simp add: total_size_def file_start_def res_bytes_def instances_def enc_options_def enc_option_def literal_def total_bound_def
        section_bound_def all_pages_size_def file_state_def inst_array_def PAGESIZE_def file_session_def empty_session_def)
  ultimately show ?thesis
    using write_resources_layout [of file_session file_state file_start] file_start_at_end by auto
qed

end
