(* ===== verification/TraceDump.thy ===== *)
theory TraceDump
  imports TraceBuffers
begin

text \<open>
  The printk formats of a trace file with their escapes, and the whole file as \<^verbatim>\<open>ftrace_dump\<close> leaves it.
\<close>

section \<open>Printk formats\<close>

text \<open>The formats a writer meets: those of the table and then those of the modules, each with its string.\<close>

definition fmt_item :: "trace_env \<Rightarrow> ulong \<Rightarrow> (ulong \<times> string) list" where
  "fmt_item env a = (let (len, tmpbuf) = read_string env a in if len = 0 then [] else [(a, to_string (cstr tmpbuf))])"

definition fmt_ok :: "trace_env \<Rightarrow> ulong \<Rightarrow> bool" where
  "fmt_ok env a \<longleftrightarrow> (let (len, tmpbuf) = read_string env a in len = 0 \<or> 0 \<in> set tmpbuf)"

definition fmt_texts :: "ulong \<times> string \<Rightarrow> string list" where
  "fmt_texts = (\<lambda>(a, s). [''0x'' @ show_hex (unat a) @ '' : '' @ [CHR 0x22]] @ map (escape \<circ> ord) s @ [[CHR 0x22] @ nl])"

text \<open>The nodes of the modules' list, and where the format of a node is.\<close>

fun fmt_nodes :: "crash \<Rightarrow> ulong \<Rightarrow> ulong \<Rightarrow> ulong list \<Rightarrow> bool" where
  "fmt_nodes cr fmt_list cur [] \<longleftrightarrow> cur = fmt_list"
| "fmt_nodes cr fmt_list cur (x # xs) \<longleftrightarrow> cur = x \<and> x \<noteq> fmt_list
     \<and> (case read_struct_into cr x 16 True of None \<Rightarrow> False
        | Some h \<Rightarrow> (case ULONG h 0 of None \<Rightarrow> False | Some nxt \<Rightarrow> fmt_nodes cr fmt_list nxt xs))"

definition node_fmt :: "trace_env \<Rightarrow> crash \<Rightarrow> ulong \<Rightarrow> ulong" where
  "node_fmt env cr x = (if fmt_is_array env then x + 16 else read_ulong cr (x + 16) True)"

text \<open>The buffer after a sequence of writes, none included.\<close>

definition buf_of :: "string list \<Rightarrow> textbuf" where
  "buf_of ts = (if ts = [] then ([], 0) else text_buf (concat ts))"

lemma fold_write_buf_of:
  assumes "\<forall>s \<in> set ts'. length s < 2 ^ 31"
  shows "fold_opt write_to_buf ts' (buf_of ts) = Some (buf_of (ts @ ts'))"
proof (cases "ts = []")
  case True
  then show ?thesis using fold_write [OF _ assms] by (cases "ts' = []") (simp_all add: buf_of_def)
next
  case False
  then show ?thesis using fold_write_next [OF assms, of "concat ts"] by (simp add: buf_of_def)
qed

definition items_texts :: "(ulong \<times> string) list \<Rightarrow> string list" where
  "items_texts xs = concat (map fmt_texts xs)"

lemma ord_comp_chr: "map (ord \<circ> chr) bs = bs"
  by (simp add: comp_def)

lemma write_printk_item:
  assumes "read_string env a = (len, tmpbuf)" "len \<noteq> 0" "fmt_ok env a" "\<forall>s \<in> set (items_texts (fmt_item env a)). length s < 2 ^ 31"
  shows "write_printk a tmpbuf (buf_of ts) = Some (buf_of (ts @ items_texts (fmt_item env a)))"
proof -
  have i: "fmt_item env a = [(a, to_string (cstr tmpbuf))]" using assms(1,2) by (simp add: fmt_item_def)
  have "printk_texts a tmpbuf = Some (items_texts (fmt_item env a))"
    using assms(1-3) by (simp add: i printk_texts_def items_texts_def fmt_texts_def fmt_ok_def to_string_def comp_def)
  then show ?thesis using fold_write_buf_of [OF assms(4), of ts] by (simp add: write_printk_def)
qed

lemma kernel_fmt_step_item:
  assumes "ULONG bs (8 * int i) = Some a" "fmt_ok env a"
    "\<forall>s \<in> set (items_texts (if IS_KVADDR cr a then fmt_item env a else [])). length s < 2 ^ 31"
  shows "kernel_fmt_step env cr bs i (buf_of ts) = Some (buf_of (ts @ items_texts (if IS_KVADDR cr a then fmt_item env a else [])))"
proof (cases "IS_KVADDR cr a")
  case True
  obtain len tmpbuf where r: "read_string env a = (len, tmpbuf)" by (cases "read_string env a")
  show ?thesis
  proof (cases "len = 0")
    case False
    with assms True r write_printk_item [OF r False assms(2)] show ?thesis by (simp add: kernel_fmt_step_def)
  qed (use assms True r in \<open>simp add: kernel_fmt_step_def fmt_item_def items_texts_def\<close>)
qed (use assms in \<open>simp add: kernel_fmt_step_def items_texts_def\<close>)

definition kernel_items :: "trace_env \<Rightarrow> crash \<Rightarrow> ulong list \<Rightarrow> (ulong \<times> string) list" where
  "kernel_items env cr as = concat (map (\<lambda>a. if IS_KVADDR cr a then fmt_item env a else []) as)"

definition module_items :: "trace_env \<Rightarrow> crash \<Rightarrow> ulong list \<Rightarrow> (ulong \<times> string) list" where
  "module_items env cr nodes = concat (map (\<lambda>x. fmt_item env (node_fmt env cr x)) nodes)"

lemma items_texts_append: "items_texts (xs @ ys) = items_texts xs @ items_texts ys"
  by (simp add: items_texts_def)

lemma kernel_fmt_fold:
  assumes "\<forall>i \<in> set is. ULONG bs (8 * int i) = Some (as i)" "\<forall>i \<in> set is. fmt_ok env (as i)"
    "\<forall>s \<in> set (items_texts (kernel_items env cr (map as is))). length s < 2 ^ 31"
  shows "fold_opt (kernel_fmt_step env cr bs) is (buf_of ts) = Some (buf_of (ts @ items_texts (kernel_items env cr (map as is))))"
  using assms
proof (induction "is" arbitrary: ts)
  case Nil
  then show ?case by (simp add: kernel_items_def items_texts_def)
next
  case (Cons i "is")
  have e: "kernel_items env cr (as i # map as is) = (if IS_KVADDR cr (as i) then fmt_item env (as i) else []) @ kernel_items env cr (map as is)"
    by (simp add: kernel_items_def)
  have "kernel_fmt_step env cr bs i (buf_of ts) = Some (buf_of (ts @ items_texts (if IS_KVADDR cr (as i) then fmt_item env (as i) else [])))"
    using Cons.prems by (intro kernel_fmt_step_item) (auto simp: e items_texts_append)
  moreover have "\<forall>s \<in> set (items_texts (kernel_items env cr (map as is))). length s < 2 ^ 31"
    using Cons.prems(3) by (simp add: e items_texts_append ball_Un)
  ultimately show ?case using Cons.IH Cons.prems(1,2) by (simp add: e items_texts_append)
qed

lemma mod_fmt_loop_nodes:
  assumes "fmt_nodes cr fmt_list cur nodes" "\<forall>x \<in> set nodes. fmt_ok env (node_fmt env cr x)"
    "\<forall>s \<in> set (items_texts (module_items env cr nodes)). length s < 2 ^ 31"
  shows "mod_fmt_loop env cr fmt_list cur count (buf_of ts)
         = Some (count + of_nat (length (module_items env cr nodes)), buf_of (ts @ items_texts (module_items env cr nodes)))"
  using assms
proof (induction nodes arbitrary: cur count ts)
  case Nil
  then show ?case by (simp add: mod_fmt_loop.simps module_items_def items_texts_def)
next
  case (Cons x nodes)
  let ?a = "node_fmt env cr x"
  obtain h nxt where h: "read_struct_into cr x 16 True = Some h" "ULONG h 0 = Some nxt" "fmt_nodes cr fmt_list nxt nodes"
    and x: "cur = x" "x \<noteq> fmt_list"
    using Cons.prems(1) by (auto split: option.splits)
  obtain len tmpbuf where r: "read_string env ?a = (len, tmpbuf)" by (cases "read_string env ?a")
  have e: "module_items env cr (x # nodes) = fmt_item env ?a @ module_items env cr nodes"
    by (simp add: module_items_def)
  have small: "\<forall>s \<in> set (items_texts (fmt_item env ?a)). length s < 2 ^ 31" "\<forall>s \<in> set (items_texts (module_items env cr nodes)). length s < 2 ^ 31"
    using Cons.prems(3) by (auto simp: e items_texts_append)
  note IH = Cons.IH [OF h(3) _ small(2)]
  show ?case
  proof (cases "len = 0")
    case True
    then have "fmt_item env ?a = []" using r by (simp add: fmt_item_def)
    then show ?thesis
      using Cons.prems(2) h x r True IH by (subst mod_fmt_loop.simps) (simp add: e node_fmt_def [symmetric])
  next
    case False
    then have l: "length (fmt_item env ?a) = 1" using r by (simp add: fmt_item_def)
    have "write_printk ?a tmpbuf (buf_of ts) = Some (buf_of (ts @ items_texts (fmt_item env ?a)))"
      using write_printk_item [OF r False _ small(1)] Cons.prems(2) by simp
    then show ?thesis
      using Cons.prems(2) h x r False IH l
      by (subst mod_fmt_loop.simps) (simp add: e items_texts_append node_fmt_def [symmetric] add.assoc)
  qed
qed

subsection \<open>Reading the formats back\<close>

fun dec_quoted :: "string \<Rightarrow> (string \<times> string) option" where
  "dec_quoted [] = None"
| "dec_quoted (c # r) =
     (if c = CHR 0x22 then Some ([], r)
      else if c = CHR 0x5C then
        (case r of [] \<Rightarrow> None
         | d # r \<Rightarrow> do {
             (s, r) \<leftarrow> dec_quoted r;
             Some ((if d = CHR ''n'' then CHR 0x0A else if d = CHR ''t'' then CHR 0x09 else d) # s, r) })
      else do { (s, r) \<leftarrow> dec_quoted r; Some (c # s, r) })"

definition dec_printk :: "string \<Rightarrow> ((ulong \<times> string) \<times> string) option" where
  "dec_printk s =
     (if take 2 s \<noteq> ''0x'' then None
      else let h = takeWhile (\<lambda>c. c \<noteq> CHR '' '') (drop 2 s); r = drop (2 + length h) s in
        if take 4 r \<noteq> '' : '' @ [CHR 0x22] then None
        else do {
          (q, r) \<leftarrow> dec_quoted (drop 4 r);
          if take 1 r = nl then Some ((of_nat (digits_val 16 h), q), drop 1 r) else None })"

lemma dec_quoted_escape: "dec_quoted (concat (map (escape \<circ> ord) s) @ CHR 0x22 # r) = Some (s, r)"
  by (induction s) (simp_all add: escape_def Let_def)

lemma hex_no_space: "takeWhile (\<lambda>c. c \<noteq> CHR '' '') (show_hex n @ CHR '' '' # r) = show_hex n"
proof -
  have "\<forall>c \<in> set (show_hex n). c \<noteq> CHR '' ''"
    using show_hex_digits [of n] by (auto simp: list_all_iff is_xdigit_def is_digit_def)
  then show ?thesis by (simp add: takeWhile_append)
qed

interpretation pk: codec "\<lambda>_. True" "\<lambda>x. concat (fmt_texts x)" dec_printk
proof (unfold_locales, clarify)
  fix a :: ulong and s r
  have "digits_val 16 (show_hex (unat a)) = unat a" by (simp add: show_hex_def digits_val_digits)
  then show "dec_printk (concat (fmt_texts (a, s)) @ r) = Some ((a, s), r)"
    using hex_no_space [of "unat a"] dec_quoted_escape [of s]
    by (simp add: dec_printk_def fmt_texts_def Let_def nl_def)
qed

definition printk_items :: "trace_env \<Rightarrow> crash \<Rightarrow> ulong list \<Rightarrow> ulong list \<Rightarrow> (ulong \<times> string) list" where
  "printk_items env cr as nodes = kernel_items env cr as @ module_items env cr nodes"

lemma length_module_items: "length (module_items env cr nodes) \<le> length nodes"
proof (induction nodes)
  case (Cons x nodes)
  have "length (fmt_item env a) \<le> 1" for a by (simp add: fmt_item_def split: prod.splits)
  then have "length (fmt_item env (node_fmt env cr x)) \<le> 1" .
  with Cons show ?case by (simp add: module_items_def)
qed (simp add: module_items_def)

lemma items_texts_Nil: "items_texts xs = [] \<longleftrightarrow> xs = []"
  by (cases xs) (auto simp: items_texts_def fmt_texts_def split: prod.splits)

lemma concat_items_texts: "concat (items_texts xs) = concat (map (\<lambda>x. concat (fmt_texts x)) xs)"
  by (induction xs) (simp_all add: items_texts_def)

text \<open>C17. The printk formats of the kernel and of the modules are written as one block, and the block is read back as the
  addresses and strings, quotes, backslashes, tabs and line ends included. The walk of the modules' list
  returns whenever the list is closed.\<close>

theorem write_printk_data_roundtrip:
  assumes sym: "symbol_exists cr ''__start___trace_bprintk_fmt''" "symbol_exists cr ''__stop___trace_bprintk_fmt''"
      "symbol_value cr ''__start___trace_bprintk_fmt'' = Some s" "symbol_value cr ''__stop___trace_bprintk_fmt'' = Some (s + 8 * of_nat (length as))"
    and n: "as \<noteq> []" "length as < 2 ^ 28" "read_struct_into cr s (8 * int (length as)) True = Some bs"
      "\<forall>i < length as. ULONG bs (8 * int i) = Some (as ! i)"
    and mods: "symbol_exists cr ''trace_bprintk_fmt_list''" "symbol_value cr ''trace_bprintk_fmt_list'' = Some l"
      "read_struct_into cr l 16 True = Some head" "ULONG head 0 = Some first" "fmt_nodes cr l first nodes" "length nodes < 2 ^ 28"
    and ok: "\<forall>a \<in> set as. fmt_ok env a" "\<forall>x \<in> set nodes. fmt_ok env (node_fmt env cr x)"
    and size: "printk_items env cr as nodes \<noteq> []" "length (concat (items_texts (printk_items env cr as nodes))) < 2 ^ 31"
    and e: "at_end f"
  shows "\<exists>f' t. write_printk_data env cr f = Some f' \<and> appends f (block 4 (to_bytes t)) f'
           \<and> dec_n dec_printk (length (printk_items env cr as nodes)) t = Some (printk_items env cr as nodes, [])"
proof -
  let ?n = "length as" and ?k = "kernel_items env cr as" and ?m = "module_items env cr nodes" and ?t = "concat (items_texts (printk_items env cr as nodes))"
  have split: "items_texts (printk_items env cr as nodes) = items_texts ?k @ items_texts ?m"
    by (simp add: printk_items_def items_texts_append)
  have "\<forall>s \<in> set (items_texts (printk_items env cr as nodes)). length s < 2 ^ 31"
    using size(2) length_le_concat [of _ "items_texts (printk_items env cr as nodes)"] by (auto intro: le_less_trans)
  then have small: "\<forall>s \<in> set (items_texts ?k). length s < 2 ^ 31" "\<forall>s \<in> set (items_texts ?m). length s < 2 ^ 31"
    by (auto simp: split)
  have un: "unat (of_nat ?n :: ulong) = ?n" using n(2) by (simp add: unat_of_nat_small)
  have count: "8 * of_nat ?n div 8 = (of_nat ?n :: ulong)"
  proof -
    have "unat (8 * of_nat ?n :: ulong) = 8 * ?n"
      using n(2) unat_of_nat_small [of "8 * ?n", where 'a = 64] by simp
    then have "unat ((8 * of_nat ?n :: ulong) div 8) = ?n" by (simp add: unat_div)
    then show ?thesis using un by (simp add: word_unat_eq_iff)
  qed
  have n0: "(of_nat ?n :: ulong) \<noteq> 0" using un n(1) by (metis length_0_conv unat_0)
  have len: "to_int32 (of_nat ?n * 8) = 8 * int ?n"
    using to_int32_of_nat [of "8 * ?n"] n(2) by (simp add: mult.commute)
  have as: "map ((!) as) [0..<?n] = as" by (rule map_nth)
  have kernel: "fold_opt (kernel_fmt_step env cr bs) [0..<?n] ([], 0) = Some (buf_of (items_texts ?k))"
    using kernel_fmt_fold [of "[0..<?n]" bs "(!) as" env cr "[]", unfolded as] n(4) ok(1) small(1) by (simp add: buf_of_def)
  have walk: "mod_fmt_loop env cr l first (of_nat ?n) (buf_of (items_texts ?k)) = Some (of_nat ?n + of_nat (length ?m), buf_of (items_texts ?k @ items_texts ?m))"
    by (rule mod_fmt_loop_nodes [OF mods(5) ok(2) small(2)])
  have c0: "(of_nat ?n + of_nat (length ?m) :: ulong) \<noteq> 0"
  proof -
    have "?n + length ?m < 2 ^ 64" using n(2) mods(6) length_module_items [of env cr nodes] by simp
    then have "unat (of_nat (?n + length ?m) :: ulong) = ?n + length ?m" by (simp add: unat_of_nat_small del: of_nat_add)
    moreover have "0 < ?n + length ?m" using n(1) by simp
    ultimately show ?thesis by (metis of_nat_add unat_0 less_numeral_extra(3))
  qed
  have b: "buf_of (items_texts ?k @ items_texts ?m) = text_buf ?t"
    using size(1) items_texts_Nil [of "printk_items env cr as nodes"] by (simp add: buf_of_def flip: split)
  have "write_printk_data env cr f = fwrite_text 4 (text_buf ?t) f"
    using sym mods(1-4) n(3) n0 c0 by (simp add: write_printk_data_def count len un kernel walk b Let_def) (simp add: count un kernel walk b text_buf_def)
  then have "write_printk_data env cr f = Some (fput (block 4 (to_bytes ?t)) f)"
    by (simp add: fwrite_text_text_buf fput_fput block_def)
  moreover have "dec_n dec_printk (length (printk_items env cr as nodes)) ?t = Some (printk_items env cr as nodes, [])"
    using pk.dec_n_enc [of "printk_items env cr as nodes" "[]"] by (simp add: concat_items_texts)
  ultimately show ?thesis using appends_fput [OF e] by blast
qed

subsection \<open>An example\<close>

text \<open>One format of the kernel and one of a module, both \<^verbatim>\<open>%\<close> and a line end.\<close>

definition fmt_session :: crash where
  "fmt_session = empty_session\<lparr>symbol_exists := \<lambda>_. True,
     symbol_value := \<lambda>s. Some (if s = ''__start___trace_bprintk_fmt'' then 0x1000 else if s = ''__stop___trace_bprintk_fmt'' then 0x1008 else 0x2000),
     readmem := \<lambda>_ a n. if a = 0x1000 then Some (le_bytes 8 0xffff000000000010) else if a = 0x2000 then Some (le_bytes 8 0x3000 @ le_bytes 8 0x3000)
       else Some (le_bytes 8 0x2000 @ le_bytes 8 0x2000)\<rparr>"

lemma length_digits: "2 \<le> base \<Longrightarrow> n < base ^ Suc k \<Longrightarrow> length (digits base n) \<le> Suc k"
proof (induction k arbitrary: n)
  case (Suc k)
  show ?case
  proof (cases "n < base")
    case False
    have "n div base < base ^ Suc k" using Suc.prems(2) by (simp add: less_mult_imp_div_less mult.commute)
    with Suc.IH Suc.prems(1) False show ?thesis by (subst digits.simps) simp
  qed (subst digits.simps, simp)
qed (subst digits.simps, simp)

lemma length_show_hex: "length (show_hex (unat (a :: ulong))) \<le> 16"
  using length_digits [of 16 "unat a" 15] unat_less_power [of a] by (simp add: show_hex_def)

lemma fmt_items: "printk_items trace_host fmt_session [0xffff000000000010] [0x3000] = [(0xffff000000000010, [CHR ''%'', CHR 0x0A]), (0x3010, [CHR ''%'', CHR 0x0A])]"
proof -
  have "cstr fmt_string = [37, 10]" by (simp add: fmt_string_def cstr_def)
  moreover have "to_string [37, 10] = [CHR ''%'', CHR 0x0A]" by code_simp
  ultimately show ?thesis
    by (simp add: printk_items_def kernel_items_def module_items_def fmt_item_def node_fmt_def trace_host_def fmt_session_def empty_session_def)
qed

lemma write_printk_data_roundtrip_witness:
  "\<exists>f' t. write_printk_data trace_host fmt_session file_start = Some f' \<and> appends file_start (block 4 (to_bytes t)) f'
     \<and> dec_n dec_printk (Suc (Suc 0)) t = Some ([(0xffff000000000010, [CHR ''%'', CHR 0x0A]), (0x3010, [CHR ''%'', CHR 0x0A])], [])"
proof -
  have "length (concat (items_texts [(0xffff000000000010, [CHR ''%'', CHR 0x0A]), (0x3010, [CHR ''%'', CHR 0x0A])])) < 2 ^ 31"
    using length_show_hex [of "0xffff000000000010"] length_show_hex [of "0x3010"]
    by (simp add: items_texts_def fmt_texts_def escape_def Let_def nl_def)
  then show ?thesis
    using write_printk_data_roundtrip [where cr = fmt_session and s = "0x1000" and as = "[0xffff000000000010]" and bs = "le_bytes 8 0xffff000000000010" and l = "0x2000"
        and head = "le_bytes 8 0x3000 @ le_bytes 8 0x3000" and first = "0x3000" and nodes = "[0x3000]" and env = trace_host and f = file_start]
      file_start_at_end unfolding fmt_items
    by (simp add: fmt_session_def read_struct_into_def ULONG_def load_def le_nat_le_bytes fmt_ok_def trace_host_def fmt_string_def)
qed

section \<open>The whole file\<close>

definition init_bytes :: "crash \<Rightarrow> byte list" where
  "init_bytes cr = [0x17, 0x08, 0x44] @ to_bytes ''tracing'' @ literal ''6'' @ le_bytes 1 0 @ le_bytes 1 8 @ le_bytes 4 (PAGESIZE cr)"

definition header_bytes :: "crash \<Rightarrow> byte list" where
  "header_bytes cr = literal ''header_page'' @ block 8 (to_bytes (concat (header_page_texts cr)))
     @ literal ''header_event'' @ block 8 (to_bytes header_event_text)"

definition kallsyms_texts :: "trace_env \<Rightarrow> string list" where
  "kallsyms_texts env =
     map (\<lambda>sp. show_hex (unat (sy_value sp)) @ '' '' @ [sy_type sp] @ '' '' @ sy_name sp @ nl) (symtable env)
     @ concat (map (\<lambda>lm. if MODULE_MEMORY env
          then concat (map (\<lambda>t. case t of None \<Rightarrow> [] | Some sps \<Rightarrow> mod_syms (mod_name lm) sps) (mem_symtable lm))
          else mod_syms (mod_name lm) (mod_symtable lm)) (load_modules env))"

definition cmdline_texts :: "crash \<Rightarrow> string list" where
  "cmdline_texts cr = map (\<lambda>tc. show_int (to_int32 (tc_pid tc)) @ '' '' @ tc_comm tc @ nl) (take (RUNNING_TASKS cr) (task_contexts cr))"

lemma write_init_data_fput: "write_init_data cr f = fput (init_bytes cr) f"
proof -
  have "hd (le_bytes (Suc n) v) = of_nat (v mod 256)" for n v by simp
  from this [of 3 "0x12345678"] have "\<not> is_bigendian" by (simp add: is_bigendian_def)
  then show ?thesis by (simp add: write_init_data_def init_bytes_def Let_def fput_fput)
qed

lemma length_show_dec: "length (show_dec (unat (a :: ulong))) \<le> 20"
  using length_digits [of 10 "unat a" 19] unat_less_power [of a] by (simp add: show_dec_def)

lemma write_header_data_fput: "write_header_data cr f = Some (fput (header_bytes cr) f)"
proof -
  have s: "length (show_dec 8) \<le> 20" "length (show_dec 16) \<le> 20"
    using length_show_dec [of 8] length_show_dec [of 16] by simp_all
  have "length (concat (header_page_texts cr)) < 2 ^ 31"
    using s length_show_dec [of "of_nat (PAGESIZE cr) - 8 - 8"] by (simp add: header_page_texts_def tab_def nl_def)
  then have "fold_opt write_to_buf (header_page_texts cr) ([], 0) = Some (text_buf (concat (header_page_texts cr)))"
    by (intro fold_write_concat) (simp_all add: header_page_texts_def)
  moreover have "write_to_buf header_event_text ([], 0) = Some (text_buf header_event_text)"
    by (rule write_to_buf_first) (simp add: header_event_text_def tab_def nl_def)
  ultimately show ?thesis
    by (simp add: write_header_data_def Let_def fwrite_text_text_buf fput_fput header_bytes_def block_def)
qed

lemma write_kallsyms_data_fput:
  assumes "kallsyms_texts env \<noteq> []" "length (concat (kallsyms_texts env)) < 2 ^ 31"
  shows "write_kallsyms_data env f = Some (fput (block 4 (to_bytes (concat (kallsyms_texts env)))) f)"
proof -
  let ?syms = "map (\<lambda>sp. show_hex (unat (sy_value sp)) @ '' '' @ [sy_type sp] @ '' '' @ sy_name sp @ nl) (symtable env)"
  obtain ms where ms: "kallsyms_texts env = ?syms @ ms"
    and m: "(if MODULE_MEMORY env then save_proc_kallsyms_mod_v6_4 env b else save_proc_kallsyms_mod_legacy env b) = fold_opt write_to_buf ms b" for b
    by (cases "MODULE_MEMORY env") (simp_all add: kallsyms_texts_def save_proc_kallsyms_mod_v6_4_def save_proc_kallsyms_mod_legacy_def)
  have "\<forall>s \<in> set (kallsyms_texts env). length s < 2 ^ 31"
    using assms(2) length_le_concat [of _ "kallsyms_texts env"] by (auto intro: le_less_trans)
  then have "\<forall>s \<in> set ?syms. length s < 2 ^ 31" "\<forall>s \<in> set ms. length s < 2 ^ 31"
    unfolding ms set_append ball_Un by blast+
  then have "fold_opt write_to_buf ?syms ([], 0) = Some (buf_of ?syms)" "fold_opt write_to_buf ms (buf_of ?syms) = Some (buf_of (kallsyms_texts env))"
    using fold_write_buf_of [of ?syms "[]"] fold_write_buf_of [of ms ?syms] unfolding ms by (simp_all add: buf_of_def)
  moreover have "buf_of (kallsyms_texts env) = text_buf (concat (kallsyms_texts env))" using assms(1) by (simp add: buf_of_def)
  ultimately show ?thesis
    unfolding write_kallsyms_data_def m by (simp add: fwrite_text_text_buf fput_fput block_def)
qed

lemma write_cmdlines_fput:
  assumes "cmdline_texts cr \<noteq> []" "length (concat (cmdline_texts cr)) < 2 ^ 31" "RUNNING_TASKS cr \<le> length (task_contexts cr)"
  shows "write_cmdlines cr f = Some (fput (block 8 (to_bytes (concat (cmdline_texts cr)))) f)"
  using fold_write_concat [OF assms(1,2)] assms(3)
  by (simp add: write_cmdlines_def cmdline_texts_def fwrite_text_text_buf fput_fput block_def)

definition file_front :: "trace_env \<Rightarrow> crash \<Rightarrow> ftrace \<Rightarrow> byte list \<Rightarrow> byte list" where
  "file_front env cr pl pk = init_bytes cr @ header_bytes cr @ events_data env pl @ block 4 (to_bytes (concat (kallsyms_texts env)))
     @ pk @ block 8 (to_bytes (concat (cmdline_texts cr)))"

lemma buffer_page_bytes_events [simp]: "buffer_page_bytes cr (pl\<lparr>event_maps := m\<rparr>) bp = buffer_page_bytes cr pl bp"
  by (simp add: buffer_page_bytes_def type_offset_def)

lemma trace_ok_events [simp]: "trace_ok cr (pl\<lparr>event_maps := m\<rparr>) ta = trace_ok cr pl ta"
  by (simp add: trace_ok_def)

lemma reads_trace_events [simp]: "reads_trace cr (pl\<lparr>event_maps := m\<rparr>) c ta = reads_trace cr pl c ta"
  by (simp add: reads_trace_def reads_buffers_def cpu_data_def)

lemma total_size_events [simp]: "total_size cr (pl\<lparr>event_maps := m\<rparr>) = total_size cr pl"
  by (simp add: total_size_def res_bytes_def)

text \<open>The conditions under which a file is written: the texts fit a C \<^verbatim>\<open>int\<close>, there are symbols and tasks, the pages
  can be read, the file stays below the largest offset.\<close>

definition can_dump :: "trace_env \<Rightarrow> crash \<Rightarrow> ftrace \<Rightarrow> byte list \<Rightarrow> bool" where
  "can_dump env cr pl pk \<longleftrightarrow>
     distinct (event_order env) \<and> length (events env pl) < 2 ^ 32 - 2 \<and> small_texts env pl
     \<and> kallsyms_texts env \<noteq> [] \<and> length (concat (kallsyms_texts env)) < 2 ^ 31
     \<and> cmdline_texts cr \<noteq> [] \<and> length (concat (cmdline_texts cr)) < 2 ^ 31 \<and> RUNNING_TASKS cr \<le> length (task_contexts cr)
     \<and> (\<forall>ta \<in> set (trace_list pl). trace_ok cr pl ta)
     \<and> length (file_front env cr pl pk) + total_size cr pl < 2 ^ 63"

lemma front_written:
  assumes "can_dump env cr pl pk" "emits (write_printk_data env cr) pk"
  shows "\<exists>m f. write_trace_data env cr pl file_start = write_resources cr (pl\<lparr>event_maps := m\<rparr>) f \<and> appends file_start (file_front env cr pl pk) f"
proof -
  let ?f1 = "fput (init_bytes cr @ header_bytes cr) file_start"
  have a1: "appends file_start (init_bytes cr @ header_bytes cr) ?f1" by (rule appends_fput [OF file_start_at_end])
  obtain m f2 where e: "write_events_data env pl ?f1 = Some (pl\<lparr>event_maps := m\<rparr>, f2)" and a2: "appends ?f1 (events_data env pl) f2"
    using write_events_data_emits [of env pl ?f1] assms(1) appends_at_end [OF a1] by (auto simp: can_dump_def)
  let ?k = "block 4 (to_bytes (concat (kallsyms_texts env)))" and ?c = "block 8 (to_bytes (concat (cmdline_texts cr)))"
  have k: "write_kallsyms_data env f2 = Some (fput ?k f2)" using assms(1) by (intro write_kallsyms_data_fput) (simp_all add: can_dump_def)
  note a3 = appends_fput [OF appends_at_end [OF a2], of ?k]
  obtain f4 where p: "write_printk_data env cr (fput ?k f2) = Some f4" and a4: "appends (fput ?k f2) pk f4"
    using emitsD [OF assms(2) appends_at_end [OF a3]] by blast
  have c: "write_cmdlines cr f4 = Some (fput ?c f4)" using assms(1) by (intro write_cmdlines_fput) (simp_all add: can_dump_def)
  note a5 = appends_fput [OF appends_at_end [OF a4], of ?c]
  have "appends file_start (file_front env cr pl pk) (fput ?c f4)"
    using appends_trans [OF a1 appends_trans [OF a2 appends_trans [OF a3 appends_trans [OF a4 a5]]]] by (simp add: file_front_def)
  moreover have "write_trace_data env cr pl file_start = write_resources cr (pl\<lparr>event_maps := m\<rparr>) (fput ?c f4)"
    by (simp add: write_trace_data_def write_init_data_fput write_header_data_fput fput_fput e k p c)
  ultimately show ?thesis by blast
qed

text \<open>C14. The whole dump: under the conditions of \<open>can_dump\<close>, and when the printk formats are written as some bytes \<open>pk\<close>, a
  trace file is written. It starts with the magic number, the headers, the events, the symbols, the formats and
  the commands, in this order; right behind them a reader finds the options with the final places
  of the trace arrays, and at each place the pages of the ring buffers.\<close>

theorem ftrace_dump_file:
  assumes "can_dump env cr pl pk" "emits (write_printk_data env cr) pk" "readmem_ok cr"
  shows "\<exists>pl' c r. ftrace_dump env cr pl = Some (pl', c) \<and> prefix (file_front env cr pl pk) c
           \<and> map without_offset (trace_list pl') = map without_offset (trace_list pl)
           \<and> dec_res_data (drop (length (file_front env cr pl pk)) c)
               = Some ((unat (word_of_int (nr_cpu_ids pl) :: uint), instances (trace_list pl')), r)
           \<and> (\<forall>ta \<in> set (trace_list pl'). reads_trace cr pl c ta)"
proof -
  obtain m f where w: "write_trace_data env cr pl file_start = write_resources cr (pl\<lparr>event_maps := m\<rparr>) f"
    and a: "appends file_start (file_front env cr pl pk) f" using front_written [OF assms(1,2)] by blast
  let ?front = "file_front env cr pl pk" and ?pl = "pl\<lparr>event_maps := m\<rparr>"
  have p: "fpos f = length ?front" using a by (simp add: appends_def file_start_def)
  have pre: "prefix ?front (contents f)"
    using a bytes_at_drop [of "contents f" 0 ?front] by (auto simp: appends_def file_start_def prefix_def)
  have "fpos f + total_size cr ?pl < 2 ^ 63" "\<forall>ta \<in> set (trace_list ?pl). trace_ok cr ?pl ta"
    using assms(1) p by (simp_all add: can_dump_def)
  from write_resources_returns [OF assms(3) this(2) appends_at_end [OF a] this(1)] obtain tas f' r where
    r: "write_resources cr ?pl f = Some (?pl\<lparr>trace_list := tas\<rparr>, f')" "map without_offset tas = map without_offset (trace_list pl)"
      "prefix (contents f) (contents f')"
      "dec_res_data (drop (fpos f) (contents f')) = Some ((unat (word_of_int (nr_cpu_ids pl) :: uint), instances tas), r)"
      "\<forall>ta \<in> set tas. reads_trace cr pl (contents f') ta" by auto
  have "ftrace_dump env cr pl = Some (?pl\<lparr>trace_list := tas\<rparr>, contents f')"
    using w r(1) by (simp add: ftrace_dump_def flip: file_start_def)
  moreover have "prefix ?front (contents f')" using pre r(3) by (rule prefix_order.trans)
  ultimately show ?thesis using r(2,4,5) p
    by (rule_tac exI [of _ "?pl\<lparr>trace_list := tas\<rparr>"], rule_tac exI [of _ "contents f'"], rule_tac exI [of _ r]) simp
qed

definition dump_host :: trace_env where
  "dump_host = trace_host\<lparr>symtable := [\<lparr>sy_value = 0x1000, sy_type = CHR ''T'', sy_name = ''main''\<rparr>]\<rparr>"

definition dump_session :: crash where
  "dump_session = file_session\<lparr>task_contexts := [\<lparr>tc_task = 0, tc_thread_info = 0, tc_pid = 1, tc_comm = ''init'', tc_mm_struct = 0\<rparr>], RUNNING_TASKS := 1\<rparr>"

lemma dump_events: "events dump_host file_state = [ftrace_event, sched_event]"
  "event_bytes dump_host file_state e = event_bytes trace_host file_state e"
  using file_events by (simp_all add: events_def event_bytes_def event_texts_def dump_host_def)

lemma dump_events_data: "length (events_data dump_host file_state) < 2 ^ 33"
proof -
  have "system_texts dump_host file_state ''ftrace'' = [event_bytes trace_host file_state ftrace_event]"
    "system_texts dump_host file_state ''sched'' = [event_bytes trace_host file_state sched_event]"
    "other_systems dump_host file_state = [''sched'']"
    by (simp_all add: system_texts_def other_systems_def dump_events, simp_all add: ftrace_event_def sched_event_def)
  then show ?thesis
    using file_texts by (simp add: events_data_def enc_events_def enc_system_def block_def literal_def)
qed

lemma dump_kallsyms: "kallsyms_texts dump_host \<noteq> []" "length (concat (kallsyms_texts dump_host)) < 2 ^ 31"
  using length_show_hex [of "0x1000"] by (simp_all add: kallsyms_texts_def dump_host_def trace_host_def nl_def)

lemma dump_cmdlines: "cmdline_texts dump_session \<noteq> []" "length (concat (cmdline_texts dump_session)) < 2 ^ 31"
proof -
  have "to_int32 1 = 1" by (simp add: to_int32_def)
  moreover have "digits 10 1 = [digit 1]" by (simp add: digits.simps)
  ultimately show "cmdline_texts dump_session \<noteq> []" "length (concat (cmdline_texts dump_session)) < 2 ^ 31"
    by (simp_all add: cmdline_texts_def dump_session_def show_int_def show_dec_def nl_def)
qed

lemma dump_total: "total_size dump_session file_state < 2 ^ 16" "\<forall>ta \<in> set (trace_list file_state). trace_ok dump_session file_state ta"
  by (simp_all add: total_size_def res_bytes_def instances_def enc_options_def enc_option_def literal_def total_bound_def section_bound_def
      all_pages_size_def file_state_def inst_array_def PAGESIZE_def dump_session_def file_session_def empty_session_def
      trace_ok_def buffer_page_bytes_def read_memory_def)

lemma dump_header: "length (init_bytes cr) + length (header_bytes cr) < 2 ^ 32"
proof -
  have "length (show_dec 8) \<le> 20" "length (show_dec 16) \<le> 20"
    using length_show_dec [of 8] length_show_dec [of 16] by simp_all
  then show ?thesis
    using length_show_dec [of "of_nat (PAGESIZE cr) - 8 - 8"]
    by (simp add: init_bytes_def header_bytes_def block_def literal_def header_page_texts_def header_event_text_def tab_def nl_def)
qed

lemma ftrace_dump_file_witness:
  "\<exists>pl' c r. ftrace_dump dump_host dump_session file_state = Some (pl', c) \<and> prefix (file_front dump_host dump_session file_state []) c
     \<and> dec_res_data (drop (length (file_front dump_host dump_session file_state [])) c) = Some ((1, instances (trace_list pl')), r)
     \<and> (\<forall>ta \<in> set (trace_list pl'). reads_trace dump_session file_state c ta)"
proof -
  have "emits (write_printk_data dump_host dump_session) []"
    by (simp add: emits_def appends_def at_end_def write_printk_data_def dump_session_def file_session_def empty_session_def)
  moreover have "readmem_ok dump_session" by (auto simp: readmem_ok_def dump_session_def file_session_def split: if_splits)
  moreover have "nr_cpu_ids file_state = 1" by (simp add: file_state_def trace_state_def plugin.extend_def)
  moreover have "can_dump dump_host dump_session file_state []"
  proof -
    have "distinct (event_order dump_host)" by (simp add: dump_host_def trace_host_def)
    moreover have "small_texts dump_host file_state" using file_texts by (simp add: small_texts_def dump_events)
    moreover have "RUNNING_TASKS dump_session \<le> length (task_contexts dump_session)" by (simp add: dump_session_def)
    moreover have "length (file_front dump_host dump_session file_state []) + total_size dump_session file_state < 2 ^ 63"
      using dump_header [of dump_session] dump_events_data dump_kallsyms(2) dump_cmdlines(2) dump_total(1)
      by (simp add: file_front_def block_def)
    ultimately show ?thesis
      using dump_kallsyms dump_cmdlines dump_total(2) by (simp add: can_dump_def dump_events)
  qed
  ultimately show ?thesis using ftrace_dump_file [of dump_host dump_session file_state "[]"] by auto
qed

end
