(* ===== verification/Spec2Isabelle.thy ===== *)
theory Spec2Isabelle
  imports Devices Props Slub TraceDump
begin

text \<open>
  \<^bold>\<open>Crash plugins: reading a kernel dump.\<close>

  The program is a set of plugins for the \<^emph>\<open>crash\<close> utility. Every plugin is a class derived from
  \<^verbatim>\<open>ParserPlugin\<close> (\<^verbatim>\<open>src/plugin.cpp\<close>, \<^verbatim>\<open>plugin.h\<close>), which reads typed values out of a memory dump and walks the data
  structures of the kernel. On top of it stand the reader of compressed swap, \<^verbatim>\<open>Zraminfo\<close>
  (\<^verbatim>\<open>src/memory/zraminfo.cpp\<close>), the reader of user memory that is swapped out, \<^verbatim>\<open>Swapinfo\<close>
  (\<^verbatim>\<open>src/memory/swapinfo.cpp\<close>), and the reader of a task's user space, \<^verbatim>\<open>UTask\<close> (\<^verbatim>\<open>src/utils/utask.cpp\<close>);
  beside them the parser and checker of the slab allocator, \<^verbatim>\<open>Slub\<close> (\<^verbatim>\<open>src/memory/slub.cpp\<close>), the reader of
  the Android properties, \<^verbatim>\<open>PropInfo\<close> (\<^verbatim>\<open>src/property/propinfo.cpp\<close>, over \<^verbatim>\<open>UTask\<close>), and the reader of the kernel's
  trace buffers, \<^verbatim>\<open>Ftrace\<close> (\<^verbatim>\<open>src/ftrace/ftrace.cpp\<close>). The commands print reports from these classes. The
  development models the seven classes, for the 64-bit ARM build.

  \<^bold>\<open>How the code is translated.\<close> Everything the plugins call in crash (memory access, address tests, symbols,
  debug information, crash's own list and tree walks, page tables, the vendored LZ4 and LZO routines) is
  a field of the record \<open>crash\<close> of theory \<open>Crash\<close>; a definition that uses it takes the session as its first
  argument. What the theorems need of it is a named hypothesis, such as \<open>readmem_ok\<close> (a successful read has
  the length asked for) or \<open>mem_at\<close> (the dump holds these bytes there). An \<^verbatim>\<open>ulong\<close> is a \<^typ>\<open>64 word\<close>, with
  wrap-around, an \<^verbatim>\<open>uint\<close> a \<^typ>\<open>32 word\<close>, a byte an \<^typ>\<open>8 word\<close>; a C \<^verbatim>\<open>int\<close> is an integer, and a conversion to it
  is written out (\<open>to_int32\<close>). The result type \<open>'a option\<close> is \<^term>\<open>None\<close> where the C++ code does not return: a fatal
  error of crash, an exception, an access out of a buffer, a loop without end. A pointer that may be
  null is an option of its own. An object is a record; a derived class extends the record \<open>plugin\<close> of the
  base class. An operation that changes its object takes and returns it.

  \<^bold>\<open>The theories.\<close>

  \<^item> \<open>Prelude\<close>: bytes and little-endian words in buffers, words, chains and the walk along a chain, lists, and
    the locale \<open>memo\<close> of a list that caches what is built from a key, extended to \<open>memo_view\<close> where the entries
    gain detail later.
  \<^item> \<open>Crash\<close>: the session, the example sessions, and what a well-behaved memory is.
  \<^item> \<open>Typetable\<close> (\<^verbatim>\<open>struct_info.h\<close>, \<^verbatim>\<open>ParserPlugin\<close> constructor, \<^verbatim>\<open>type_init\<close>, \<^verbatim>\<open>type_offset\<close>, \<^verbatim>\<open>type_size\<close>): the
    table of offsets and sizes. What a look-up returns after construction.
  \<^item> \<open>Reads\<close> (\<^verbatim>\<open>read_*\<close>, page conversions): typed reads, strings across pages, frame, page and node conversions.
    A long string is read back whole, the loop ends at its cap, conversions invert each other.
  \<^item> \<open>Text\<close> (\<^verbatim>\<open>hexdump\<close>, \<^verbatim>\<open>csize\<close>, \<^verbatim>\<open>isNumber\<close>, \<^verbatim>\<open>extract_string\<close>, enumerators): decoding of the printed bytes, the
    language accepted as a number, rounding of sizes, the parse of an enum listing that fits the buffer.
  \<^item> \<open>Walk\<close> (\<^verbatim>\<open>for_each_*\<close> over pages, lists, trees, tasks, areas, files) and \<open>Devices\<close> (characters, blocks,
    classes, buses, drivers): which elements a walk returns, and exactly when it returns at all.
  \<^item> \<open>Zram\<close>: the parse of a zram device (pool, size classes, zspages, objects), the location of an object from
    its handle, the page read with its same-filled, raw and compressed cases. Objects tile a page,
    handles and bit fields decode what they encode, a stored page is returned raw or through the
    decompressor its name selects, and the list of parsed devices (locales \<open>memo\<close> and \<open>memo_view\<close>, interpreted
    as \<open>zl\<close> and \<open>zv\<close>) never changes a result, also where the zspages of its classes are parsed in place.
  \<^item> \<open>Swap\<close>: swap areas, swap entries, the swap cache, and \<^verbatim>\<open>uread_memory\<close>. The locale \<open>page_source\<close> states what
    the loop over pages needs of the page reader; its interpretation \<open>um\<close> on \<open>do_swap_page\<close> gives that user
    memory is read byte by byte as the task's pages hold it, whatever has been parsed before.
  \<^item> \<open>UTask\<close>: areas and files of a task, auxiliary vector, reads through per-area copies, the decoders of
    \<^verbatim>\<open>std::list\<close>, \<^verbatim>\<open>vector\<close>, \<^verbatim>\<open>string\<close>, \<^verbatim>\<open>map\<close> and \<^verbatim>\<open>unordered_map\<close>, the searches for lists and objects. The reads
    refine the address space \<open>umem\<close>; the locale \<open>user_reader\<close>, interpreted as \<open>ul\<close> and \<open>up\<close> on the two readers of
    words, carries the list and the map decoder.
  \<^item> \<open>Slub\<close>: the caches with their nodes, CPUs, slabs and objects, the check of red zones, poison, padding and
    free pointers, the allocation and free traces. Objects tile a slab and the free ones are those of the free
    list, which is always walked to an end; the word-wise byte search equals the plain one; the check
    of an object accepts exactly the bytes its layout asks for; the trace maps group all tracks by call stack.
  \<^item> \<open>Props\<close>: the property areas of the init task and of a task's C library, as ternary trees of names. The walk
    over the mapped copy of an area enters every property of the tree, and agrees with the parser that
    reads the area through user memory; two theorems show where the walk reads too far or does not end.
  \<^item> \<open>Ftrace\<close>: the trace arrays with their ring buffers, the table of events, the decoding of the records on a
    buffer page, the log. The data pages are the ring from the head to the commit page, the data records of a
    page are read back in order, with the kernel's times as long as no extension reaches 32 units and no
    absolute stamp occurs, the table of events stays well-formed, the log is sorted.
  \<^item> \<open>TraceFile\<close>: the writer of trace-cmd files (\<^verbatim>\<open>write_trace_data\<close> and what it calls) over a file of bytes with a
    position, and the contract \<open>emits\<close> of an operation that adds bytes at the end. \<open>TraceEvents\<close>, \<open>TraceBuffers\<close> and
    \<open>TraceDump\<close> give readers for the sections, with the locale \<open>codec\<close> (and \<open>byte_codec\<close>) between writer and reader, interpreted
    for the events (\<open>eb\<close>, \<open>es\<close>), the tables of the CPUs (\<open>cp\<close>), the options (\<open>eo\<close>) and the printk formats (\<open>pk\<close>). The
    sections are read back; the options, patched at the end, lead to the pages of every CPU.

  \<^bold>\<open>Loops.\<close> Loops over a fixed range or over a list are structural recursions. Walks along pointers of the
  dump may not end: they are \<open>partial_function (option)\<close> (\<open>chain_walk\<close>, \<open>parser_pages_loop\<close>, \<open>stdmap_loop\<close>, the
  searches, \<open>for_each_prop\<close>, \<open>parser_prop_bt\<close>, \<open>data_pages_loop\<close>, \<open>buffer_page_loop\<close>,
  \<open>mod_fmt_loop\<close>), and where a theorem speaks of their result it also says when there is one. The loop over
  pages of a user read ends by the measure of the bytes that remain, the walk of a free list by the
  indices not yet marked, the search for the end of damaged bytes by its distance. No fuel is used.

  \<^bold>\<open>Not modelled.\<close> Output and the parsing of command lines, symbol and debug file loading
  (\<^verbatim>\<open>add_symbol_file\<close>, \<^verbatim>\<open>load_symbols\<close>), the ELF readers of \<^verbatim>\<open>UTask\<close> (libelf; arguments of
  \<open>get_var_addr_by_bss\<close>), the 32-bit ARM branches, the vendored decompressors, the formatting of a
  trace event (\<^verbatim>\<open>TraceEvent::handle\<close>), the run of trace-cmd (\<^verbatim>\<open>ftrace_show\<close>), and the commands built on the
  seven classes (coredump, logcat, device tree and the other plugins).
\<close>

end
